(* ===== verification/Prelude.thy ===== *)
theory Prelude
  imports Main "HOL-Library.Word" "HOL-Library.AList"
begin

text \<open>
  Shared vocabulary of the development: the Go values the components use (bytes, strings,
  fixed-width integers, maps, errors, times) and the generic lemmas the component theories
  share.  Nothing here models a particular function of the repository.

  A Go map is an association list with distinct keys, in the order a range loop happens to
  visit it: every theorem is stated for an arbitrary list, so for every iteration order.
  \<open>time.Time\<close> and \<open>time.Duration\<close> are integers counting nanoseconds; the zero time is
  \<open>None\<close> in an option.
\<close>

named_theorems go_defs "unfolding equations of the small modelled helpers"
named_theorems inv_lemmas "preservation lemmas of component invariants"

section \<open>Bytes and strings\<close>

type_synonym byte = "8 word"
type_synonym bytes = "8 word list"
type_synonym u16 = "16 word"
type_synonym u32 = "32 word"
type_synonym u64 = "64 word"

definition str_bytes :: "string \<Rightarrow> bytes" where
  "str_bytes s = map (\<lambda>c. word_of_nat (of_char c)) s"

definition bytes_str :: "bytes \<Rightarrow> string" where
  "bytes_str bs = map (\<lambda>b. char_of (unat b)) bs"

lemma str_bytes_Nil [simp]: "str_bytes [] = []"
  by (simp add: str_bytes_def)

lemma str_bytes_Cons [simp]: "str_bytes (c # s) = word_of_nat (of_char c) # str_bytes s"
  by (simp add: str_bytes_def)

lemma str_bytes_append [simp]: "str_bytes (s @ t) = str_bytes s @ str_bytes t"
  by (simp add: str_bytes_def)

lemma length_str_bytes [simp]: "length (str_bytes s) = length s"
  by (simp add: str_bytes_def)

lemma length_bytes_str [simp]: "length (bytes_str bs) = length bs"
  by (simp add: bytes_str_def)

lemma bytes_str_str_bytes [simp]: "bytes_str (str_bytes s) = s"
proof -
  have "char_of (unat (word_of_nat (of_char c) :: byte)) = c" for c
    using of_char_of [of "of_char c :: nat"] by (simp add: unat_of_nat)
  then show ?thesis by (simp add: bytes_str_def str_bytes_def comp_def)
qed

lemma str_bytes_bytes_str [simp]: "str_bytes (bytes_str bs) = bs"
proof -
  have "(word_of_nat (of_char (char_of (unat b))) :: byte) = b" for b :: byte
  proof -
    have "unat b < 256" using unsigned_less [of b] by simp
    then show ?thesis by simp
  qed
  then show ?thesis by (simp add: bytes_str_def str_bytes_def comp_def)
qed

lemma str_bytes_inject [simp]: "str_bytes s = str_bytes t \<longleftrightarrow> s = t"
  by (metis bytes_str_str_bytes)

lemma bytes_str_inject [simp]: "bytes_str s = bytes_str t \<longleftrightarrow> s = t"
  by (metis str_bytes_bytes_str)

section \<open>Signed 64-bit integers\<close>

text \<open>
  \<open>to_i64\<close> reduces an integer to the value a Go \<open>int64\<close> holds after the operation: the
  representative in \<open>[-2^63, 2^63)\<close>.
\<close>

definition to_i64 :: "int \<Rightarrow> int" where
  "to_i64 x = (x + 9223372036854775808) mod 18446744073709551616 - 9223372036854775808"

definition is_i64 :: "int \<Rightarrow> bool" where
  "is_i64 x \<longleftrightarrow> -9223372036854775808 \<le> x \<and> x < 9223372036854775808"

abbreviation max_i64 :: int where
  "max_i64 \<equiv> 9223372036854775807"

lemma to_i64_id: "is_i64 x \<Longrightarrow> to_i64 x = x"
  by (simp add: to_i64_def is_i64_def)

lemma is_i64_to_i64 [simp]: "is_i64 (to_i64 x)"
  by (simp add: to_i64_def is_i64_def)

lemma is_i64_sint [simp]: "is_i64 (sint (w :: u64))"
  using sint_greater_eq [of w] sint_lt [of w] by (simp add: is_i64_def)

lemma to_i64_inc: "is_i64 x \<Longrightarrow> to_i64 (x + 1) = (if x = max_i64 then -9223372036854775808 else x + 1)"
  by (auto simp: to_i64_def is_i64_def)

section \<open>Time\<close>

text \<open>Nanoseconds, for instants and durations; the zero \<open>time.Time\<close> is \<open>None\<close>.\<close>

type_synonym nanos = int

abbreviation millis :: "int \<Rightarrow> nanos" where
  "millis n \<equiv> 1000000 * n"

abbreviation seconds :: "int \<Rightarrow> nanos" where
  "seconds n \<equiv> 1000000000 * n"

text \<open>A deadline (\<open>None\<close> is no deadline) that has passed: \<open>!now.Before(deadline)\<close>.\<close>

definition deadline_passed :: "nanos \<Rightarrow> nanos option \<Rightarrow> bool" where
  "deadline_passed now dl = (case dl of None \<Rightarrow> False | Some t \<Rightarrow> t \<le> now)"

lemma deadline_passed_simps [simp]:
  "deadline_passed now None = False" "deadline_passed now (Some t) \<longleftrightarrow> t \<le> now"
  by (simp_all add: deadline_passed_def)

section \<open>Go maps\<close>

type_synonym ('k, 'v) gomap = "('k \<times> 'v) list"

abbreviation gm_put :: "'k \<Rightarrow> 'v \<Rightarrow> ('k, 'v) gomap \<Rightarrow> ('k, 'v) gomap" where
  "gm_put k v m \<equiv> AList.update k v m"

abbreviation gm_del :: "'k \<Rightarrow> ('k, 'v) gomap \<Rightarrow> ('k, 'v) gomap" where
  "gm_del k m \<equiv> AList.delete k m"

definition gm_keys :: "('k, 'v) gomap \<Rightarrow> 'k list" where
  "gm_keys m = map fst m"

definition gm_ok :: "('k, 'v) gomap \<Rightarrow> bool" where
  "gm_ok m \<longleftrightarrow> distinct (gm_keys m)"

lemma gm_keys_simps [simp]:
  "gm_keys [] = []" "gm_keys (p # m) = fst p # gm_keys m"
  by (simp_all add: gm_keys_def)

lemma length_gm_keys [simp]: "length (gm_keys m) = length m"
  by (simp add: gm_keys_def)

lemma gm_ok_Nil [simp]: "gm_ok []"
  by (simp add: gm_ok_def)

lemma gm_ok_Cons [simp]: "gm_ok (p # m) \<longleftrightarrow> fst p \<notin> set (gm_keys m) \<and> gm_ok m"
  by (auto simp: gm_ok_def)

lemma gm_put_get: "map_of (gm_put k v m) k' = (if k' = k then Some v else map_of m k')"
  by (simp add: update_conv')

lemma gm_del_get: "map_of (gm_del k m) k' = (if k' = k then None else map_of m k')"
  by (simp add: delete_conv')

lemma set_gm_keys_put [simp]: "set (gm_keys (gm_put k v m)) = insert k (set (gm_keys m))"
  by (induction m) auto

lemma gm_del_simps [simp]:
  "gm_del k [] = []" "gm_del k (p # m) = (if k = fst p then gm_del k m else p # gm_del k m)"
  by (simp_all add: AList.delete_eq split: prod.splits)

lemma set_gm_keys_del [simp]: "set (gm_keys (gm_del k m)) = set (gm_keys m) - {k}"
  by (induction m) auto

lemma gm_ok_put [simp]: "gm_ok m \<Longrightarrow> gm_ok (gm_put k v m)"
  by (induction m) auto

lemma gm_ok_del [simp]: "gm_ok m \<Longrightarrow> gm_ok (gm_del k m)"
  by (induction m) auto

lemma gm_get_None_iff: "map_of m k = None \<longleftrightarrow> k \<notin> set (gm_keys m)"
  by (simp add: map_of_eq_None_iff gm_keys_def)

lemma gm_get_Some_key: "map_of m k = Some v \<Longrightarrow> k \<in> set (gm_keys m)"
  by (metis gm_get_None_iff option.distinct(1))

lemma gm_key_get: "k \<in> set (gm_keys m) \<Longrightarrow> \<exists>v. map_of m k = Some v"
  by (metis gm_get_None_iff not_None_eq)

lemma gm_keys_empty_iff [simp]: "gm_keys m = [] \<longleftrightarrow> m = []"
  by (simp add: gm_keys_def)

lemma gm_del_absent: "k \<notin> set (gm_keys m) \<Longrightarrow> gm_del k m = m"
  by (induction m) auto

lemma length_gm_del:
  "gm_ok m \<Longrightarrow> length (gm_del k m) = (if k \<in> set (gm_keys m) then length m - 1 else length m)"
proof (induction m)
  case (Cons p m)
  show ?case
    using Cons by (cases m) (auto simp: gm_del_absent)
qed simp

lemma length_gm_del_less: "map_of m k = Some v \<Longrightarrow> length (gm_del k m) < length m"
proof (induction m)
  case (Cons p m)
  have "length (gm_del k m) \<le> length m" by (simp add: AList.delete_eq)
  then show ?case using Cons by (auto split: if_splits)
qed simp

lemma length_gm_put:
  "length (gm_put k v m) = (if k \<in> set (gm_keys m) then length m else Suc (length m))"
  by (induction m) auto

text \<open>The total weight of the values of a map, and how the map operations change it.\<close>

definition gm_sum :: "('v \<Rightarrow> int) \<Rightarrow> ('k, 'v) gomap \<Rightarrow> int" where
  "gm_sum f m = sum_list (map (f \<circ> snd) m)"

lemma gm_sum_simps [simp]: "gm_sum f [] = 0" "gm_sum f (p # m) = f (snd p) + gm_sum f m"
  by (simp_all add: gm_sum_def)

lemma gm_sum_put_new: "k \<notin> set (gm_keys m) \<Longrightarrow> gm_sum f (gm_put k v m) = gm_sum f m + f v"
  by (induction m) auto

lemma gm_sum_del: "gm_ok m \<Longrightarrow> map_of m k = Some v \<Longrightarrow> gm_sum f (gm_del k m) = gm_sum f m - f v"
  by (induction m) (auto simp: gm_del_absent split: if_splits)

lemma gm_sum_nonneg: "(\<And>v. 0 \<le> f v) \<Longrightarrow> 0 \<le> gm_sum f m"
  by (induction m) auto

lemma gm_sum_map: "(\<And>v. f (g v) = f v) \<Longrightarrow> gm_sum f (map (\<lambda>(k, v). (k, g v)) m) = gm_sum f m"
  by (induction m) auto

lemma gm_keys_map [simp]: "gm_keys (map (\<lambda>(k, v). (k, g v)) m) = gm_keys m"
  by (induction m) auto

lemma gm_get_map: "map_of (map (\<lambda>(k, v). (k, g v)) m) k = map_option g (map_of m k)"
  by (induction m) auto

text \<open>
  The loop \<open>for k := range m { if k < min { min = k } }\<close>, which the code writes several
  times with \<open>min\<close> starting at the largest \<open>int64\<close>.
\<close>

fun min_key_loop :: "int \<Rightarrow> (int, 'v) gomap \<Rightarrow> int" where
  "min_key_loop mn [] = mn"
| "min_key_loop mn ((k, v) # m) = min_key_loop (if k < mn then k else mn) m"

lemma min_key_loop_eq: "min_key_loop mn m = Min (insert mn (set (gm_keys m)))"
proof (induction mn m rule: min_key_loop.induct)
  case (2 mn k v m)
  let ?K = "set (gm_keys m)"
  have "Min (insert mn (insert k ?K)) = Min (insert (min k mn) ?K)"
    by (cases "?K = {}") (simp_all add: min.assoc min.commute min.left_commute)
  moreover have "(if k < mn then k else mn) = min k mn" by (simp add: min_def)
  ultimately show ?case using 2 by simp
qed simp

lemma min_key_loop_Min:
  assumes "m \<noteq> []" and "\<forall>k \<in> set (gm_keys m). k \<le> mn"
  shows "min_key_loop mn m = Min (set (gm_keys m))"
proof -
  have ne: "set (gm_keys m) \<noteq> {}" using assms(1) by simp
  obtain k where k: "k \<in> set (gm_keys m)" using assms(1) by (cases m) auto
  then have "Min (set (gm_keys m)) \<le> k" by simp
  also have "k \<le> mn" using assms(2) k by blast
  finally have le: "Min (set (gm_keys m)) \<le> mn" .
  have "Min (insert mn (set (gm_keys m))) = min mn (Min (set (gm_keys m)))"
    using ne by (intro Min_insert) auto
  then show ?thesis using le by (simp only: min_key_loop_eq min_absorb2)
qed

section \<open>Errors\<close>

text \<open>
  The errors the modelled code creates, compares or inspects.  \<open>Wrapped\<close> is the value of
  \<open>fmt.Errorf\<close>: the constant text of its format and the errors wrapped by its percent-w verbs.  \<open>OpError\<close> is \<open>net.OpError\<close>: a network error that reports whether it is a
  timeout and wraps a cause.
\<close>

datatype errno = ECONNREFUSED | ENETUNREACH | EHOSTUNREACH | EPIPE | ECONNRESET | ENOTCONN
  | OtherErrno nat

datatype go_error =
    IoEOF
  | IoErrUnexpectedEOF
  | IoErrClosedPipe
  | NetErrClosed
  | CtxCanceled
  | CtxDeadlineExceeded
  | TimeoutError
  | Errno errno
  | OpError bool go_error
  | Wrapped string "go_error list"
  | OtherError string

text \<open>\<open>errors.Is\<close>: the error itself or an error it wraps, at any depth.\<close>

fun errors_is :: "go_error \<Rightarrow> go_error \<Rightarrow> bool" where
  "errors_is (Wrapped s es) t \<longleftrightarrow> Wrapped s es = t \<or> list_ex (\<lambda>e. errors_is e t) es"
| "errors_is (OpError b e) t \<longleftrightarrow> OpError b e = t \<or> errors_is e t"
| "errors_is e t \<longleftrightarrow> e = t"

text \<open>The result of an operation: a value, an error, or a Go run-time panic.\<close>

datatype 'a outcome = Ret 'a | Fail go_error | Panic string

fun bind_outcome :: "'a outcome \<Rightarrow> ('a \<Rightarrow> 'b outcome) \<Rightarrow> 'b outcome" where
  "bind_outcome (Ret x) f = f x"
| "bind_outcome (Fail e) f = Fail e"
| "bind_outcome (Panic p) f = Panic p"

end
