(* ===== verification/Codec.thy ===== *)
theory Codec
  imports Prelude
begin

text \<open>
  Binary encodings: the big-endian integers of \<open>encoding/binary\<close> and the reads of
  \<open>bytes.Reader\<close> / \<open>io.ReadFull\<close> that the SSM message codec (\<open>internal/protocol\<close>) and the
  SOCKS5 address codec (\<open>internal/socks5\<close>) are built from.

  The interface is the locale \<open>codec\<close>: an encoder and a decoder that consumes exactly what
  the encoder produced and leaves the rest of the input.  \<open>fixed_codec\<close> adds the width, which
  is what makes a sequence of fields decodable.
\<close>

section \<open>The interface of a self-delimiting encoding\<close>

locale codec =
  fixes enc :: "'a \<Rightarrow> bytes"
    and dec :: "bytes \<Rightarrow> ('a \<times> bytes) option"
    and valid :: "'a \<Rightarrow> bool"
  assumes dec_enc: "valid a \<Longrightarrow> dec (enc a @ rest) = Some (a, rest)"
begin

lemma dec_enc_all: "valid a \<Longrightarrow> dec (enc a) = Some (a, [])"
  using dec_enc [of a "[]"] by simp

lemma enc_inj: "valid a \<Longrightarrow> valid b \<Longrightarrow> enc a = enc b \<Longrightarrow> a = b"
  by (metis dec_enc_all option.inject prod.inject)

lemma enc_prefix_free:
  assumes "valid a" and "valid b" and "enc a @ r = enc b @ s"
  shows "a = b \<and> r = s"
  using dec_enc [OF assms(1), of r] dec_enc [OF assms(2), of s]
  by (metis assms(3) option.inject prod.inject)

end

locale fixed_codec = codec +
  fixes width :: nat
  assumes enc_width: "valid a \<Longrightarrow> length (enc a) = width"
    and dec_short: "length bs < width \<Longrightarrow> dec bs = None"
    and dec_total: "width \<le> length bs \<Longrightarrow> \<exists>a. dec bs = Some (a, drop width bs)"
begin

lemma dec_None_iff: "dec bs = None \<longleftrightarrow> length bs < width"
  using dec_short [of bs] dec_total [of bs] by (cases "length bs < width") auto

lemma dec_rest: "dec bs = Some (a, r) \<Longrightarrow> r = drop width bs \<and> width \<le> length bs"
  using dec_short [of bs] dec_total [of bs] by (cases "length bs < width") auto

end

section \<open>Reading a fixed number of bytes\<close>

text \<open>\<open>io.ReadFull\<close> into a buffer of \<open>n\<close> bytes: the bytes and the rest, or a short read.\<close>

definition read_full :: "nat \<Rightarrow> bytes \<Rightarrow> (bytes \<times> bytes) option" where
  "read_full n bs = (if n \<le> length bs then Some (take n bs, drop n bs) else None)"

lemma read_full_append [simp]: "length xs = n \<Longrightarrow> read_full n (xs @ r) = Some (xs, r)"
  by (simp add: read_full_def)

lemma read_full_Some_iff:
  "read_full n bs = Some (xs, r) \<longleftrightarrow> bs = xs @ r \<and> length xs = n"
  by (auto simp: read_full_def)

lemma read_full_None_iff: "read_full n bs = None \<longleftrightarrow> length bs < n"
  by (auto simp: read_full_def)

section \<open>Big-endian integers\<close>

fun be_bytes :: "nat \<Rightarrow> int \<Rightarrow> bytes" where
  "be_bytes 0 n = []"
| "be_bytes (Suc k) n = word_of_int (n div 256 ^ k) # be_bytes k n"

fun be_val :: "bytes \<Rightarrow> int" where
  "be_val [] = 0"
| "be_val (b # bs) = uint b * 256 ^ length bs + be_val bs"

lemma length_be_bytes [simp]: "length (be_bytes k n) = k"
  by (induction k) auto

lemma uint_byte_of_int: "uint (word_of_int n :: byte) = n mod 256"
  by (simp add: uint_word_of_int)

lemma be_val_be_bytes: "be_val (be_bytes k n) = n mod 256 ^ k"
proof (induction k)
  case (Suc k)
  have "n mod (256 ^ k * 256) = 256 ^ k * (n div 256 ^ k mod 256) + n mod 256 ^ k"
    by (rule zmod_zmult2_eq) simp
  then show ?case using Suc by (simp add: uint_byte_of_int mult.commute)
qed simp

lemma be_val_nonneg [simp]: "0 \<le> be_val bs"
  by (induction bs) auto

lemma be_val_bound: "be_val bs < 256 ^ length bs"
proof (induction bs)
  case (Cons b bs)
  have "uint b < 256" using uint_bounded [of b] by simp
  then have le: "uint b + 1 \<le> 256" by simp
  have "uint b * 256 ^ length bs + be_val bs < (uint b + 1) * 256 ^ length bs"
    using Cons by (simp add: distrib_right)
  also have "\<dots> \<le> 256 * 256 ^ length bs"
    using le by (intro mult_right_mono) auto
  finally show ?case by simp
qed simp

lemma be_bytes_add: "be_bytes k (n + c * 256 ^ k) = be_bytes k n"
proof (induction k arbitrary: c)
  case (Suc k)
  have eq: "n + c * 256 ^ Suc k = n + (c * 256) * 256 ^ k" by simp
  have "(n + (c * 256) * 256 ^ k) div 256 ^ k = n div 256 ^ k + c * 256" by simp
  moreover have "(word_of_int (n div 256 ^ k + c * 256) :: byte) = word_of_int (n div 256 ^ k)"
  proof -
    have z: "(256 :: byte) = 0" by simp
    show ?thesis
      by (simp only: of_int_add of_int_mult of_int_numeral z mult_zero_right add_0_right)
  qed
  ultimately show ?case
    unfolding be_bytes.simps eq using Suc by simp
qed simp

lemma be_bytes_be_val: "be_bytes (length bs) (be_val bs) = bs"
proof (induction bs)
  case (Cons b bs)
  have "be_val bs < 256 ^ length bs" by (rule be_val_bound)
  then have "(uint b * 256 ^ length bs + be_val bs) div 256 ^ length bs = uint b"
    by simp
  moreover have "be_bytes (length bs) (uint b * 256 ^ length bs + be_val bs)
      = be_bytes (length bs) (be_val bs)"
    using be_bytes_add [of "length bs" "be_val bs" "uint b"] by (simp add: add.commute)
  ultimately show ?case using Cons by simp
qed simp

text \<open>\<open>binary.Write\<close> and \<open>binary.Read\<close> of unsigned integers of 2, 4 and 8 bytes.\<close>

definition be16 :: "u16 \<Rightarrow> bytes" where
  "be16 w = be_bytes 2 (uint w)"

definition be32 :: "u32 \<Rightarrow> bytes" where
  "be32 w = be_bytes 4 (uint w)"

definition be64 :: "u64 \<Rightarrow> bytes" where
  "be64 w = be_bytes 8 (uint w)"

definition rd16 :: "bytes \<Rightarrow> (u16 \<times> bytes) option" where
  "rd16 bs = map_option (\<lambda>(x, r). (word_of_int (be_val x), r)) (read_full 2 bs)"

definition rd32 :: "bytes \<Rightarrow> (u32 \<times> bytes) option" where
  "rd32 bs = map_option (\<lambda>(x, r). (word_of_int (be_val x), r)) (read_full 4 bs)"

definition rd64 :: "bytes \<Rightarrow> (u64 \<times> bytes) option" where
  "rd64 bs = map_option (\<lambda>(x, r). (word_of_int (be_val x), r)) (read_full 8 bs)"

text \<open>\<open>binary.Write\<close> and \<open>binary.Read\<close> of byte arrays of 16 and 32 bytes, kept as one word.\<close>

definition be128 :: "128 word \<Rightarrow> bytes" where
  "be128 w = be_bytes 16 (uint w)"

definition be256 :: "256 word \<Rightarrow> bytes" where
  "be256 w = be_bytes 32 (uint w)"

definition rd256 :: "bytes \<Rightarrow> (256 word \<times> bytes) option" where
  "rd256 bs = map_option (\<lambda>(x, r). (word_of_int (be_val x), r)) (read_full 32 bs)"

lemmas codec_defs = be16_def be32_def be64_def be128_def be256_def
  rd16_def rd32_def rd64_def rd256_def

lemma fixed_codec_word:
  fixes e :: "'a::len word \<Rightarrow> bytes"
  assumes e: "\<And>w. e w = be_bytes k (uint w)"
    and d: "\<And>bs. d bs = map_option (\<lambda>(x, r). (word_of_int (be_val x) :: 'a word, r)) (read_full k bs)"
    and k: "256 ^ k = (2 ^ LENGTH('a) :: int)"
  shows "fixed_codec e d (\<lambda>_. True) k"
proof
  fix a :: "'a word" and rest
  have "uint a < 256 ^ k" using uint_bounded [of a] k by simp
  then show "d (e a @ rest) = Some (a, rest)"
    by (simp add: e d be_val_be_bytes)
qed (auto simp: e d read_full_def)

interpretation be16: fixed_codec be16 rd16 "\<lambda>_. True" 2
  by (rule fixed_codec_word) (simp_all add: codec_defs)

interpretation be32: fixed_codec be32 rd32 "\<lambda>_. True" 4
  by (rule fixed_codec_word) (simp_all add: codec_defs)

interpretation be64: fixed_codec be64 rd64 "\<lambda>_. True" 8
  by (rule fixed_codec_word) (simp_all add: codec_defs)

interpretation be256: fixed_codec be256 rd256 "\<lambda>_. True" 32
  by (rule fixed_codec_word) (simp_all add: codec_defs)

lemmas dec_enc_words [simp] =
  be16.dec_enc [OF TrueI] be32.dec_enc [OF TrueI] be64.dec_enc [OF TrueI] be256.dec_enc [OF TrueI]

lemmas length_enc_words [simp] =
  be16.enc_width [OF TrueI] be32.enc_width [OF TrueI] be64.enc_width [OF TrueI]
  be256.enc_width [OF TrueI]

lemma length_be128 [simp]: "length (be128 w) = 16"
  by (simp add: be128_def)

lemma be128_be_val: "(word_of_int (be_val (be128 w)) :: 128 word) = w"
proof -
  have "uint w < 256 ^ 16" using uint_bounded [of w] by simp
  then show ?thesis by (simp add: be128_def be_val_be_bytes)
qed

end
