(* ===== verification/Sha256.thy ===== *)
theory Sha256
  imports Codec
begin

unbundle bit_operations_syntax

text \<open>
  The digest the message codec stores in each header: Go's \<open>crypto/sha256.Sum256\<close>, the
  function of FIPS 180-4, written out so that \<open>MarshalBinary\<close> is executable.  The 32-byte
  array it returns is kept as one 256-bit word.
\<close>

definition rotr32 :: "nat \<Rightarrow> u32 \<Rightarrow> u32" where
  "rotr32 n x = (drop_bit n x) OR (push_bit (32 - n) x)"

definition sha_ch :: "u32 \<Rightarrow> u32 \<Rightarrow> u32 \<Rightarrow> u32" where
  "sha_ch e f g = (e AND f) XOR ((NOT e) AND g)"

definition sha_maj :: "u32 \<Rightarrow> u32 \<Rightarrow> u32 \<Rightarrow> u32" where
  "sha_maj a b c = (a AND b) XOR (a AND c) XOR (b AND c)"

definition sha_S0 :: "u32 \<Rightarrow> u32" where
  "sha_S0 a = rotr32 2 a XOR rotr32 13 a XOR rotr32 22 a"

definition sha_S1 :: "u32 \<Rightarrow> u32" where
  "sha_S1 e = rotr32 6 e XOR rotr32 11 e XOR rotr32 25 e"

definition sha_s0 :: "u32 \<Rightarrow> u32" where
  "sha_s0 w = rotr32 7 w XOR rotr32 18 w XOR drop_bit 3 w"

definition sha_s1 :: "u32 \<Rightarrow> u32" where
  "sha_s1 w = rotr32 17 w XOR rotr32 19 w XOR drop_bit 10 w"

text \<open>
  The constants are defined as the standard derives them: the first 32 bits of the fractional
  parts of the cube roots of the first 64 primes, and of the square roots of the first 8.
  \<open>root_bits\<close> finds the integer part of a k-th root bit by bit.
\<close>

fun root_bits :: "nat \<Rightarrow> nat \<Rightarrow> int \<Rightarrow> int \<Rightarrow> int" where
  "root_bits k 0 n r = r"
| "root_bits k (Suc b) n r =
     (let r' = r + 2 ^ b in root_bits k b n (if r' ^ k \<le> n then r' else r))"

definition frac_root :: "nat \<Rightarrow> int \<Rightarrow> u32" where
  "frac_root k p = word_of_int (root_bits k 36 (p * 2 ^ (32 * k)) 0)"

definition small_primes :: "int list" where
  "small_primes = filter (\<lambda>n. list_all (\<lambda>d. n mod d \<noteq> 0) [2..n - 1]) [2..311]"

definition sha_K :: "u32 list" where
  "sha_K = map (frac_root 3) small_primes"

definition sha_H0 :: "u32 list" where
  "sha_H0 = map (frac_root 2) (take 8 small_primes)"

text \<open>The message schedule, latest word first.\<close>

fun sha_extend :: "nat \<Rightarrow> u32 list \<Rightarrow> u32 list" where
  "sha_extend 0 ws = ws"
| "sha_extend (Suc n) ws =
     sha_extend n ((sha_s1 (ws ! 1) + ws ! 6 + sha_s0 (ws ! 14) + ws ! 15) # ws)"

fun words_of :: "bytes \<Rightarrow> u32 list" where
  "words_of (a # b # c # d # bs) = word_of_int (be_val [a, b, c, d]) # words_of bs"
| "words_of bs = []"

fun sha_round :: "u32 list \<Rightarrow> u32 \<times> u32 \<Rightarrow> u32 list" where
  "sha_round [a, b, c, d, e, f, g, h] (k, w) =
     (let t1 = h + sha_S1 e + sha_ch e f g + k + w; t2 = sha_S0 a + sha_maj a b c
      in [t1 + t2, a, b, c, d + t1, e, f, g])"
| "sha_round hs kw = hs"

definition sha_compress :: "u32 list \<Rightarrow> bytes \<Rightarrow> u32 list" where
  "sha_compress hs block =
     map2 (+) hs (foldl sha_round hs (zip sha_K (rev (sha_extend 48 (rev (words_of block))))))"

definition sha_pad :: "bytes \<Rightarrow> bytes" where
  "sha_pad bs = bs @ [0x80] @ replicate ((119 - length bs mod 64) mod 64) 0
     @ be64 (word_of_int (8 * int (length bs)))"

fun sha_blocks :: "u32 list \<Rightarrow> bytes \<Rightarrow> u32 list" where
  "sha_blocks hs bs = (if length bs < 64 then hs
     else sha_blocks (sha_compress hs (take 64 bs)) (drop 64 bs))"

declare sha_blocks.simps [simp del]

definition sha256 :: "bytes \<Rightarrow> 256 word" where
  "sha256 bs = word_of_int (be_val (concat (map be32 (sha_blocks sha_H0 (sha_pad bs)))))"

end
