(* ===== verification/Strconv.thy ===== *)
theory Strconv
  imports Codec
begin

text \<open>
  The decimal conversions of \<open>strconv\<close> that the repository uses: \<open>Itoa\<close> / \<open>AppendInt\<close> for
  ports and JSON numbers, \<open>Atoi\<close> / \<open>ParseInt(s, 10, 64)\<close> for environment variables and ports.
\<close>

function itoa_nat :: "int \<Rightarrow> string" where
  "itoa_nat n = (if n < 10 then [char_of (48 + nat n)]
     else itoa_nat (n div 10) @ [char_of (48 + nat (n mod 10))])"
  by pat_completeness auto
termination
  by (relation "measure nat") auto

declare itoa_nat.simps [simp del]

definition itoa :: "int \<Rightarrow> string" where
  "itoa n = (if n < 0 then CHR ''-'' # itoa_nat (- n) else itoa_nat n)"

definition is_digit :: "char \<Rightarrow> bool" where
  "is_digit c \<longleftrightarrow> (48 :: nat) \<le> of_char c \<and> of_char c \<le> (57 :: nat)"

definition digit_val :: "char \<Rightarrow> int" where
  "digit_val c = int (of_char c) - 48"

definition digits_val :: "string \<Rightarrow> int" where
  "digits_val s = foldl (\<lambda>a c. 10 * a + digit_val c) 0 s"

text \<open>An optional sign, then one or more digits, in the range of \<open>int64\<close>.\<close>

definition parse_digits :: "string \<Rightarrow> int option" where
  "parse_digits s = (if s \<noteq> [] \<and> list_all is_digit s then Some (digits_val s) else None)"

definition parse_int64 :: "string \<Rightarrow> int option" where
  "parse_int64 s =
    (let (neg, ds) = (case s of
         [] \<Rightarrow> (False, [])
       | c # cs \<Rightarrow> if c = CHR ''-'' then (True, cs) else if c = CHR ''+'' then (False, cs)
                  else (False, s))
     in case parse_digits ds of
          None \<Rightarrow> None
        | Some n \<Rightarrow> (let v = (if neg then - n else n) in if is_i64 v then Some v else None))"

lemma digit_of_nat:
  assumes "0 \<le> n" and "n < 10"
  shows "is_digit (char_of (48 + nat n))" "digit_val (char_of (48 + nat n)) = n"
  using assms by (simp_all add: is_digit_def digit_val_def)

lemma digits_val_append [simp]: "digits_val (s @ [c]) = 10 * digits_val s + digit_val c"
  by (simp add: digits_val_def)

lemma itoa_nat_digits: "0 \<le> n \<Longrightarrow> itoa_nat n \<noteq> [] \<and> list_all is_digit (itoa_nat n)"
proof (induction n rule: itoa_nat.induct)
  case (1 n)
  then show ?case
    by (cases "n < 10") (simp_all add: itoa_nat.simps [of n] digit_of_nat)
qed

lemma digits_val_itoa_nat: "0 \<le> n \<Longrightarrow> digits_val (itoa_nat n) = n"
proof (induction n rule: itoa_nat.induct)
  case (1 n)
  then show ?case
    by (cases "n < 10") (simp_all add: itoa_nat.simps [of n] digit_of_nat digits_val_def [of "[_]"])
qed

lemma parse_digits_itoa_nat: "0 \<le> n \<Longrightarrow> parse_digits (itoa_nat n) = Some n"
  by (simp add: parse_digits_def itoa_nat_digits digits_val_itoa_nat)

lemma not_digit_sign: "\<not> is_digit CHR ''-''" "\<not> is_digit CHR ''+''"
  by (simp_all add: is_digit_def)

lemma parse_int64_itoa: "is_i64 n \<Longrightarrow> parse_int64 (itoa n) = Some n"
proof (cases "n < 0")
  case True
  assume "is_i64 n"
  with True show ?thesis by (simp add: itoa_def parse_int64_def parse_digits_itoa_nat)
next
  case False
  assume "is_i64 n"
  have d: "itoa_nat n \<noteq> []" "list_all is_digit (itoa_nat n)"
    using itoa_nat_digits [of n] False by auto
  then obtain c cs where c: "itoa_nat n = c # cs" "is_digit c" by (cases "itoa_nat n") auto
  then have "c \<noteq> CHR ''-''" "c \<noteq> CHR ''+''" using not_digit_sign by auto
  with \<open>is_i64 n\<close> False c show ?thesis
    using parse_digits_itoa_nat [of n] by (simp add: itoa_def parse_int64_def)
qed

text \<open>No decimal text contains a byte that is not a sign or a digit.\<close>

lemma itoa_chars: "c \<in> set (itoa n) \<Longrightarrow> is_digit c \<or> c = CHR ''-''"
  using itoa_nat_digits [of n] itoa_nat_digits [of "- n"]
  by (auto simp: itoa_def list_all_iff split: if_splits)

end
