(* ===== verification/Json.thy ===== *)
theory Json
  imports Strconv
begin

text \<open>
  What the message codec uses of \<open>encoding/json\<close>: the text \<open>Marshal\<close> writes for strings,
  integers, booleans, lists and structs, and the values \<open>Unmarshal\<close> reads back.  Strings are
  byte sequences (UTF-8).  Number literals keep their text, because \<open>Unmarshal\<close> into an
  \<open>int64\<close> parses the literal itself.
\<close>

datatype json =
    JNull
  | JBool bool
  | JNum string
  | JStr bytes
  | JArr "json list"
  | JObj "(bytes \<times> json) list"

section \<open>UTF-8\<close>

text \<open>The size of the valid UTF-8 sequence at the head of the input, 0 if there is none.\<close>

definition cont :: "byte \<Rightarrow> bool" where
  "cont b \<longleftrightarrow> 0x80 \<le> b \<and> b \<le> 0xBF"

fun utf8_size :: "bytes \<Rightarrow> nat" where
  "utf8_size [] = 0"
| "utf8_size (b0 # bs) =
    (if b0 < 0x80 then 1
     else case bs of
       [] \<Rightarrow> 0
     | b1 # bs1 \<Rightarrow>
         if 0xC2 \<le> b0 \<and> b0 \<le> 0xDF then (if cont b1 then 2 else 0)
         else case bs1 of
           [] \<Rightarrow> 0
         | b2 # bs2 \<Rightarrow>
             if 0xE0 \<le> b0 \<and> b0 \<le> 0xEF then
               (if cont b1 \<and> cont b2 \<and> (b0 = 0xE0 \<longrightarrow> 0xA0 \<le> b1) \<and> (b0 = 0xED \<longrightarrow> b1 \<le> 0x9F)
                then 3 else 0)
             else case bs2 of
               [] \<Rightarrow> 0
             | b3 # _ \<Rightarrow>
                 if 0xF0 \<le> b0 \<and> b0 \<le> 0xF4 \<and> cont b1 \<and> cont b2 \<and> cont b3
                   \<and> (b0 = 0xF0 \<longrightarrow> 0x90 \<le> b1) \<and> (b0 = 0xF4 \<longrightarrow> b1 \<le> 0x8F)
                 then 4 else 0)"

definition rune_error :: bytes where
  "rune_error = [0xEF, 0xBF, 0xBD]"

definition utf8_encode :: "int \<Rightarrow> bytes" where
  "utf8_encode r =
    (if r < 0x80 then [word_of_int r]
     else if r < 0x800 then [word_of_int (0xC0 + r div 64), word_of_int (0x80 + r mod 64)]
     else if r < 0x10000 then
       [word_of_int (0xE0 + r div 4096), word_of_int (0x80 + r div 64 mod 64),
        word_of_int (0x80 + r mod 64)]
     else
       [word_of_int (0xF0 + r div 262144), word_of_int (0x80 + r div 4096 mod 64),
        word_of_int (0x80 + r div 64 mod 64), word_of_int (0x80 + r mod 64)])"

section \<open>Marshalling\<close>

definition hex_digit :: "int \<Rightarrow> byte" where
  "hex_digit n = (if n < 10 then word_of_int (48 + n) else word_of_int (87 + n))"

definition esc_u00 :: "byte \<Rightarrow> bytes" where
  "esc_u00 b = str_bytes [CHR 0x5C, CHR ''u'', CHR ''0'', CHR ''0'']
     @ [hex_digit (uint b div 16), hex_digit (uint b mod 16)]"

definition esc_ascii :: "byte \<Rightarrow> bytes" where
  "esc_ascii b =
    (if b = 0x22 \<or> b = 0x5C then [0x5C, b]
     else if b = 0x08 then [0x5C, 0x62]
     else if b = 0x0C then [0x5C, 0x66]
     else if b = 0x0A then [0x5C, 0x6E]
     else if b = 0x0D then [0x5C, 0x72]
     else if b = 0x09 then [0x5C, 0x74]
     else if b < 0x20 \<or> b = 0x3C \<or> b = 0x3E \<or> b = 0x26 then esc_u00 b
     else [b])"

fun json_esc :: "bytes \<Rightarrow> bytes" where
  "json_esc [] = []"
| "json_esc (b # bs) =
    (if b < 0x80 then esc_ascii b @ json_esc bs
     else let n = utf8_size (b # bs) in
       if n = 0 then str_bytes (CHR 0x5C # ''ufffd'') @ json_esc bs
       else if b # take (n - 1) bs = [0xE2, 0x80, 0xA8]
         then str_bytes (CHR 0x5C # ''u2028'') @ json_esc (drop (n - 1) bs)
       else if b # take (n - 1) bs = [0xE2, 0x80, 0xA9]
         then str_bytes (CHR 0x5C # ''u2029'') @ json_esc (drop (n - 1) bs)
       else (b # take (n - 1) bs) @ json_esc (drop (n - 1) bs))"

definition json_quote :: "bytes \<Rightarrow> bytes" where
  "json_quote s = [0x22] @ json_esc s @ [0x22]"

fun join_comma :: "bytes list \<Rightarrow> bytes" where
  "join_comma [] = []"
| "join_comma [x] = x"
| "join_comma (x # y # xs) = x @ [0x2C] @ join_comma (y # xs)"

fun json_marshal :: "json \<Rightarrow> bytes" where
  "json_marshal JNull = str_bytes ''null''"
| "json_marshal (JBool b) = str_bytes (if b then ''true'' else ''false'')"
| "json_marshal (JNum s) = str_bytes s"
| "json_marshal (JStr s) = json_quote s"
| "json_marshal (JArr vs) = [0x5B] @ join_comma (map json_marshal vs) @ [0x5D]"
| "json_marshal (JObj ms) =
     [0x7B] @ join_comma (map (\<lambda>(k, v). json_quote k @ [0x3A] @ json_marshal v) ms) @ [0x7D]"

section \<open>Unmarshalling\<close>

definition is_ws :: "byte \<Rightarrow> bool" where
  "is_ws b \<longleftrightarrow> b = 0x20 \<or> b = 0x09 \<or> b = 0x0A \<or> b = 0x0D"

definition skip_ws :: "bytes \<Rightarrow> bytes" where
  "skip_ws bs = dropWhile is_ws bs"

definition hex_val :: "byte \<Rightarrow> int option" where
  "hex_val b =
    (if 0x30 \<le> b \<and> b \<le> 0x39 then Some (uint b - 48)
     else if 0x61 \<le> b \<and> b \<le> 0x66 then Some (uint b - 87)
     else if 0x41 \<le> b \<and> b \<le> 0x46 then Some (uint b - 55) else None)"

definition hex4 :: "byte \<Rightarrow> byte \<Rightarrow> byte \<Rightarrow> byte \<Rightarrow> int option" where
  "hex4 a b c d =
    (case (hex_val a, hex_val b, hex_val c, hex_val d) of
       (Some w, Some x, Some y, Some z) \<Rightarrow> Some (((w * 16 + x) * 16 + y) * 16 + z)
     | _ \<Rightarrow> None)"

definition unescape :: "byte \<Rightarrow> byte option" where
  "unescape e =
    (if e = 0x22 \<or> e = 0x5C \<or> e = 0x2F then Some e
     else if e = 0x62 then Some 0x08 else if e = 0x66 then Some 0x0C
     else if e = 0x6E then Some 0x0A else if e = 0x72 then Some 0x0D
     else if e = 0x74 then Some 0x09 else None)"

text \<open>
  A string after its opening quote: its bytes and the input after the closing quote.  An
  unpaired surrogate escape and an invalid UTF-8 byte become the replacement character.
\<close>

fun parse_str :: "bytes \<Rightarrow> (bytes \<times> bytes) option" where
  "parse_str [] = None"
| "parse_str (b # bs) =
    (if b = 0x22 then Some ([], bs)
     else if b = 0x5C then
       (case bs of
          [] \<Rightarrow> None
        | e # r \<Rightarrow>
            if e = 0x75 then
              (case r of
                 h1 # h2 # h3 # h4 # r1 \<Rightarrow>
                   (case hex4 h1 h2 h3 h4 of
                      None \<Rightarrow> None
                    | Some u \<Rightarrow>
                        if 0xD800 \<le> u \<and> u < 0xE000 then
                          (case r1 of
                             q0 # q1 # g1 # g2 # g3 # g4 # r2 \<Rightarrow>
                               (case hex4 g1 g2 g3 g4 of
                                  Some v \<Rightarrow>
                                    if q0 = 0x5C \<and> q1 = 0x75 \<and> u < 0xDC00 \<and> 0xDC00 \<le> v \<and> v < 0xE000
                                    then map_option (apfst ((@)
                                           (utf8_encode ((u - 0xD800) * 1024 + (v - 0xDC00) + 0x10000))))
                                           (parse_str r2)
                                    else map_option (apfst ((@) rune_error)) (parse_str r1)
                                | None \<Rightarrow> map_option (apfst ((@) rune_error)) (parse_str r1))
                           | _ \<Rightarrow> map_option (apfst ((@) rune_error)) (parse_str r1))
                        else map_option (apfst ((@) (utf8_encode u))) (parse_str r1))
               | _ \<Rightarrow> None)
            else (case unescape e of
                    None \<Rightarrow> None
                  | Some c \<Rightarrow> map_option (apfst ((#) c)) (parse_str r)))
     else if b < 0x20 then None
     else if b < 0x80 then map_option (apfst ((#) b)) (parse_str bs)
     else let n = utf8_size (b # bs) in
       if n = 0 then map_option (apfst ((@) rune_error)) (parse_str bs)
       else map_option (apfst ((@) (b # take (n - 1) bs))) (parse_str (drop (n - 1) bs)))"

declare parse_str.simps [simp del]

text \<open>Number literals: the longest run of number characters, if it is a JSON number.\<close>

definition is_num_char :: "byte \<Rightarrow> bool" where
  "is_num_char b \<longleftrightarrow> (0x30 \<le> b \<and> b \<le> 0x39) \<or> b = 0x2D \<or> b = 0x2B \<or> b = 0x2E \<or> b = 0x65 \<or> b = 0x45"

definition opt_exp :: "string \<Rightarrow> bool" where
  "opt_exp s = (case s of
      [] \<Rightarrow> True
    | e # r \<Rightarrow> (e = CHR ''e'' \<or> e = CHR ''E'')
        \<and> (let d = (case r of c # r1 \<Rightarrow> if c = CHR ''+'' \<or> c = CHR ''-'' then r1 else r | [] \<Rightarrow> [])
           in d \<noteq> [] \<and> list_all is_digit d))"

definition opt_frac :: "string \<Rightarrow> bool" where
  "opt_frac s = (case s of
      c # r \<Rightarrow> if c = CHR ''.''
        then takeWhile is_digit r \<noteq> [] \<and> opt_exp (dropWhile is_digit r) else opt_exp s
    | [] \<Rightarrow> True)"

definition valid_number :: "string \<Rightarrow> bool" where
  "valid_number s =
    (let u = (case s of c # r \<Rightarrow> if c = CHR ''-'' then r else s | [] \<Rightarrow> []) in
     case u of
       [] \<Rightarrow> False
     | c # r \<Rightarrow> if c = CHR ''0'' then opt_frac r
                else is_digit c \<and> opt_frac (dropWhile is_digit r))"

fun strip_prefix :: "bytes \<Rightarrow> bytes \<Rightarrow> bytes option" where
  "strip_prefix [] bs = Some bs"
| "strip_prefix (p # ps) [] = None"
| "strip_prefix (p # ps) (b # bs) = (if p = b then strip_prefix ps bs else None)"

text \<open>
  Values.  Every call consumes input, so fuel beyond the length of the input is never used
  up; \<open>json_parse\<close> supplies it.
\<close>

fun parse_value :: "nat \<Rightarrow> bytes \<Rightarrow> (json \<times> bytes) option"
and parse_elems :: "nat \<Rightarrow> bytes \<Rightarrow> (json list \<times> bytes) option"
and parse_members :: "nat \<Rightarrow> bytes \<Rightarrow> ((bytes \<times> json) list \<times> bytes) option" where
  "parse_value 0 bs = None"
| "parse_value (Suc n) bs =
    (case skip_ws bs of
       [] \<Rightarrow> None
     | b # r \<Rightarrow>
         if b = 0x22 then map_option (apfst JStr) (parse_str r)
         else if b = 0x7B then
           (case skip_ws r of
              c # r1 \<Rightarrow> if c = 0x7D then Some (JObj [], r1)
                        else map_option (apfst JObj) (parse_members n (c # r1))
            | [] \<Rightarrow> None)
         else if b = 0x5B then
           (case skip_ws r of
              c # r1 \<Rightarrow> if c = 0x5D then Some (JArr [], r1)
                        else map_option (apfst JArr) (parse_elems n (c # r1))
            | [] \<Rightarrow> None)
         else case strip_prefix (str_bytes ''null'') (b # r) of
           Some r1 \<Rightarrow> Some (JNull, r1)
         | None \<Rightarrow> (case strip_prefix (str_bytes ''true'') (b # r) of
             Some r1 \<Rightarrow> Some (JBool True, r1)
           | None \<Rightarrow> (case strip_prefix (str_bytes ''false'') (b # r) of
               Some r1 \<Rightarrow> Some (JBool False, r1)
             | None \<Rightarrow>
                 (let lit = bytes_str (takeWhile is_num_char (b # r)) in
                  if valid_number lit then Some (JNum lit, dropWhile is_num_char (b # r))
                  else None))))"
| "parse_elems 0 bs = None"
| "parse_elems (Suc n) bs =
    (case parse_value n bs of
       None \<Rightarrow> None
     | Some (v, r) \<Rightarrow>
         (case skip_ws r of
            c # r1 \<Rightarrow> if c = 0x2C then map_option (apfst ((#) v)) (parse_elems n r1)
                      else if c = 0x5D then Some ([v], r1) else None
          | [] \<Rightarrow> None))"
| "parse_members 0 bs = None"
| "parse_members (Suc n) bs =
    (case skip_ws bs of
       [] \<Rightarrow> None
     | q # r \<Rightarrow>
         if q \<noteq> 0x22 then None
         else case parse_str r of
           None \<Rightarrow> None
         | Some (k, r1) \<Rightarrow>
             (case skip_ws r1 of
                c # r2 \<Rightarrow>
                  if c \<noteq> 0x3A then None
                  else (case parse_value n r2 of
                          None \<Rightarrow> None
                        | Some (v, r3) \<Rightarrow>
                            (case skip_ws r3 of
                               d # r4 \<Rightarrow>
                                 if d = 0x2C then map_option (apfst ((#) (k, v))) (parse_members n r4)
                                 else if d = 0x7D then Some ([(k, v)], r4) else None
                             | [] \<Rightarrow> None))
              | [] \<Rightarrow> None))"

definition json_parse :: "bytes \<Rightarrow> json option" where
  "json_parse bs =
    (case parse_value (2 * length bs + 2) bs of
       Some (v, r) \<Rightarrow> if skip_ws r = [] then Some v else None
     | None \<Rightarrow> None)"

section \<open>Reading back what was written\<close>

text \<open>Strings of ASCII bytes: every escape the encoder writes is undone by the decoder.\<close>

definition ascii :: "bytes \<Rightarrow> bool" where
  "ascii bs \<longleftrightarrow> list_all (\<lambda>b. b < 0x80) bs"

lemma ascii_simps [simp]: "ascii []" "ascii (b # bs) \<longleftrightarrow> b < 0x80 \<and> ascii bs"
  "ascii (xs @ ys) \<longleftrightarrow> ascii xs \<and> ascii ys"
  by (auto simp: ascii_def)

lemma hex_val_hex_digit:
  assumes "0 \<le> n" and "n < 16"
  shows "hex_val (hex_digit n) = Some n"
proof -
  have "n \<in> set [0..15]" using assms by simp
  moreover have "\<forall>n \<in> set [0..15]. hex_val (hex_digit n) = Some n" by code_simp
  ultimately show ?thesis by blast
qed

lemma parse_str_esc_u00:
  assumes "b < 0x80"
  shows "parse_str (esc_u00 b @ r) = map_option (apfst ((#) b)) (parse_str r)"
proof -
  have b: "0 \<le> uint b" "uint b < 128" using assms by (simp_all add: word_less_def)
  then have d: "hex_val (hex_digit (uint b div 16)) = Some (uint b div 16)"
    "hex_val (hex_digit (uint b mod 16)) = Some (uint b mod 16)"
    by (auto intro!: hex_val_hex_digit simp: pos_imp_zdiv_nonneg_iff)
  have z: "hex_val 0x30 = Some 0" by code_simp
  have h: "hex4 0x30 0x30 (hex_digit (uint b div 16)) (hex_digit (uint b mod 16)) = Some (uint b)"
    by (simp add: hex4_def d z)
  have c: "(@) [b] = (#) b" by (rule ext) simp
  show ?thesis
    using b h by (simp add: esc_u00_def parse_str.simps utf8_encode_def c)
qed

lemma parse_str_esc_ascii:
  assumes "b < 0x80"
  shows "parse_str (esc_ascii b @ r) = map_option (apfst ((#) b)) (parse_str r)"
proof -
  consider (simple) "b \<in> {0x22, 0x5C, 0x08, 0x0C, 0x0A, 0x0D, 0x09}"
    | (u) "b \<notin> {0x22, 0x5C, 0x08, 0x0C, 0x0A, 0x0D, 0x09}" "b < 0x20 \<or> b = 0x3C \<or> b = 0x3E \<or> b = 0x26"
    | (plain) "b \<notin> {0x22, 0x5C, 0x08, 0x0C, 0x0A, 0x0D, 0x09}" "\<not> (b < 0x20 \<or> b = 0x3C \<or> b = 0x3E \<or> b = 0x26)"
    by blast
  then show ?thesis
  proof cases
    case simple
    then show ?thesis by (auto simp: esc_ascii_def parse_str.simps unescape_def)
  next
    case u
    then have "esc_ascii b = esc_u00 b" by (auto simp: esc_ascii_def)
    then show ?thesis using parse_str_esc_u00 [OF assms] by simp
  next
    case plain
    then have "esc_ascii b = [b]" by (auto simp: esc_ascii_def)
    then show ?thesis using plain assms by (simp add: parse_str.simps)
  qed
qed

lemma parse_str_json_esc: "ascii s \<Longrightarrow> parse_str (json_esc s @ 0x22 # r) = Some (s, r)"
proof (induction s)
  case Nil
  show ?case by (subst json_esc.simps, subst append_Nil, subst parse_str.simps) simp
qed (simp_all add: parse_str_esc_ascii)

text \<open>Number literals followed by a byte that cannot continue them.\<close>

lemma digit_num_char: "is_digit c \<or> c = CHR ''-'' \<Longrightarrow> is_num_char (word_of_nat (of_char c))"
proof -
  have *: "is_num_char (word_of_nat n)" if "48 \<le> n" "n \<le> 57" for n
    using that by (simp add: is_num_char_def word_le_nat_alt unsigned_of_nat take_bit_nat_eq_self)
  assume "is_digit c \<or> c = CHR ''-''"
  then show ?thesis using * [of "of_char c"] by (auto simp: is_digit_def is_num_char_def)
qed

lemma takeWhile_num_itoa:
  assumes "\<not> is_num_char b"
  shows "takeWhile is_num_char (str_bytes (itoa n) @ b # r) = str_bytes (itoa n)"
    and "dropWhile is_num_char (str_bytes (itoa n) @ b # r) = b # r"
proof -
  have "\<forall>x \<in> set (str_bytes (itoa n)). is_num_char x"
    using digit_num_char itoa_chars by (auto simp: str_bytes_def)
  then show "takeWhile is_num_char (str_bytes (itoa n) @ b # r) = str_bytes (itoa n)"
    and "dropWhile is_num_char (str_bytes (itoa n) @ b # r) = b # r"
    using assms by (simp_all add: takeWhile_append2 dropWhile_append2)
qed

lemma valid_number_itoa: "valid_number (itoa n)"
proof -
  have *: "\<exists>c cs. itoa_nat m = c # cs \<and> is_digit c \<and> list_all is_digit cs \<and> (c = CHR ''0'' \<longrightarrow> cs = [])"
    if "0 \<le> m" for m
    using that
  proof (induction m rule: itoa_nat.induct)
    case (1 m)
    show ?case
    proof (cases "m < 10")
      case True
      then show ?thesis using 1(2) by (simp add: itoa_nat.simps [of m] digit_of_nat)
    next
      case False
      then have "0 \<le> m div 10" by (simp add: pos_imp_zdiv_nonneg_iff)
      then obtain c cs where c: "itoa_nat (m div 10) = c # cs" "is_digit c" "list_all is_digit cs"
        "c = CHR ''0'' \<longrightarrow> cs = []" using 1 False by blast
      moreover have "c \<noteq> CHR ''0''"
      proof
        assume "c = CHR ''0''"
        then have "itoa_nat (m div 10) = ''0''" using c by simp
        then have "m div 10 = 0"
          using digits_val_itoa_nat [of "m div 10"] False by (simp add: digits_val_def digit_val_def)
        with False show False by simp
      qed
      ultimately show ?thesis
        using False by (simp add: itoa_nat.simps [of m] digit_of_nat)
    qed
  qed
  have all: "takeWhile is_digit cs = cs" "dropWhile is_digit cs = []" if "list_all is_digit cs" for cs
    using that by (simp_all add: list_all_iff takeWhile_eq_all_conv)
  have v: "valid_number (itoa_nat m) \<and> valid_number (CHR ''-'' # itoa_nat m)" if m: "0 \<le> m" for m
  proof -
    obtain c cs where c: "itoa_nat m = c # cs" "is_digit c" "list_all is_digit cs"
      "c = CHR ''0'' \<longrightarrow> cs = []" using * [OF m] by blast
    then have "c \<noteq> CHR ''-''" using not_digit_sign by auto
    moreover have "opt_frac (dropWhile is_digit cs)"
      using all(2) [OF c(3)] by (simp only: opt_frac_def list.case)
    ultimately show ?thesis using c by (auto simp: valid_number_def opt_frac_def [of "[]"])
  qed
  show ?thesis
  proof (cases "n < 0")
    case True
    then show ?thesis using v [of "- n"] by (simp add: itoa_def)
  next
    case False
    then show ?thesis using v [of n] by (simp add: itoa_def)
  qed
qed

text \<open>Values and object members in the middle of an input.\<close>

lemma skip_ws_Cons [simp]: "\<not> is_ws b \<Longrightarrow> skip_ws (b # r) = b # r"
  by (simp add: skip_ws_def)

lemma not_ws_punct [simp]: "\<not> is_ws 0x22" "\<not> is_ws 0x7B" "\<not> is_ws 0x7D" "\<not> is_ws 0x2C" "\<not> is_ws 0x3A"
  by (simp_all add: is_ws_def)

lemma parse_value_str:
  "ascii s \<Longrightarrow> parse_value (Suc n) (json_quote s @ r) = Some (JStr s, r)"
  by (simp add: json_quote_def parse_str_json_esc)

lemma parse_value_bool:
  "parse_value (Suc n) (json_marshal (JBool b) @ r) = Some (JBool b, r)"
  by (cases b) (simp_all add: is_ws_def)

lemma parse_value_itoa:
  assumes "\<not> is_num_char d"
  shows "parse_value (Suc n) (str_bytes (itoa k) @ d # r) = Some (JNum (itoa k), d # r)"
proof -
  obtain c cs where c: "itoa k = c # cs"
    using valid_number_itoa [of k] by (cases "itoa k") (auto simp: valid_number_def)
  define b where "b = (word_of_nat (of_char c) :: byte)"
  have bs: "str_bytes (itoa k) = b # str_bytes cs" by (simp add: c b_def)
  have btext: "bytes_str (b # str_bytes cs) = itoa k"
    by (simp only: bs [symmetric] bytes_str_str_bytes)
  have "is_num_char b"
    using digit_num_char itoa_chars [of c k] by (simp add: c b_def)
  then have nb: "\<not> is_ws b" "b \<noteq> 0x22" "b \<noteq> 0x7B" "b \<noteq> 0x5B" "b \<noteq> 0x6E" "b \<noteq> 0x74" "b \<noteq> 0x66"
    by (auto simp: is_num_char_def is_ws_def)
  have lit: "takeWhile is_num_char (b # str_bytes cs @ d # r) = str_bytes (itoa k)"
    "dropWhile is_num_char (b # str_bytes cs @ d # r) = d # r"
    using takeWhile_num_itoa [OF assms, of k r] by (simp_all add: bs)
  show ?thesis
    using nb by (simp add: bs lit btext Let_def valid_number_itoa del: takeWhile.simps dropWhile.simps)
qed

lemma parse_members_last:
  assumes "ascii k" and "parse_value n (mv @ 0x7D # r) = Some (v, 0x7D # r)"
  shows "parse_members (Suc n) (json_quote k @ 0x3A # mv @ 0x7D # r) = Some ([(k, v)], r)"
  using assms by (simp add: json_quote_def parse_str_json_esc)

lemma parse_members_more:
  assumes "ascii k" and "parse_value n (mv @ 0x2C # r) = Some (v, 0x2C # r)"
    and "parse_members n r = Some (ms, r')"
  shows "parse_members (Suc n) (json_quote k @ 0x3A # mv @ 0x2C # r) = Some ((k, v) # ms, r')"
  using assms by (simp add: json_quote_def parse_str_json_esc)

lemma parse_value_obj:
  assumes "parse_members n (0x22 # r) = Some (ms, r')"
  shows "parse_value (Suc n) (0x7B # 0x22 # r) = Some (JObj ms, r')"
  using assms by simp

end
