(* ===== verification/Message.thy ===== *)
theory Message
  imports Sha256 Json "HOL-Library.Monad_Syntax"
begin

text \<open>
  \<open>internal/protocol/message.go\<close>: the agent message, its constructors, \<open>MarshalBinary\<close> and
  \<open>UnmarshalMessage\<close>.  A header is a record with the fields of the Go struct; the 16-byte
  \<open>MessageId\<close> and the 32-byte \<open>PayloadDigest\<close> are words of 128 and 256 bits.  The clock and
  the identifiers drawn from \<open>uuid.New\<close> are arguments of the constructors, and so is the
  uuid package's \<open>String\<close> (third-party code).

  \<open>UnmarshalMessage\<close> computes its bounds in \<open>uint32\<close>, so the model keeps them at that width,
  and a slice expression out of range is the outcome \<open>Panic\<close>.
\<close>

section \<open>Constants\<close>

definition MsgTypeOutputStreamData :: string where
  "MsgTypeOutputStreamData = ''output_stream_data''"

definition MsgTypeInputStreamData :: string where
  "MsgTypeInputStreamData = ''input_stream_data''"

definition MsgTypeAcknowledge :: string where
  "MsgTypeAcknowledge = ''acknowledge''"

definition MsgTypeChannelClosed :: string where
  "MsgTypeChannelClosed = ''channel_closed''"

definition MsgTypePausePublication :: string where
  "MsgTypePausePublication = ''pause_publication''"

definition MsgTypeStartPublication :: string where
  "MsgTypeStartPublication = ''start_publication''"

lemmas msg_type_defs = MsgTypeOutputStreamData_def MsgTypeInputStreamData_def
  MsgTypeAcknowledge_def MsgTypeChannelClosed_def MsgTypePausePublication_def
  MsgTypeStartPublication_def

abbreviation SchemaVersionValue :: u32 where
  "SchemaVersionValue \<equiv> 1"

definition TotalHeaderLen :: nat where
  "TotalHeaderLen = 4 + 32 + 4 + 8 + 8 + 8 + 16 + 32 + 4 + 4"

definition HeaderLengthValue :: nat where
  "HeaderLengthValue = 4 + 32 + 4 + 8 + 8 + 8 + 16 + 32 + 4"

abbreviation PayloadLengthLen :: nat where
  "PayloadLengthLen \<equiv> 4"

abbreviation FlagData :: u64 where "FlagData \<equiv> 0"

abbreviation PayloadTypeOutput :: u32 where "PayloadTypeOutput \<equiv> 1"

abbreviation PayloadTypeHandshakeRequest :: u32 where "PayloadTypeHandshakeRequest \<equiv> 5"

abbreviation PayloadTypeHandshakeResponse :: u32 where "PayloadTypeHandshakeResponse \<equiv> 6"

abbreviation PayloadTypeHandshakeComplete :: u32 where "PayloadTypeHandshakeComplete \<equiv> 7"

section \<open>Messages\<close>

type_synonym uuid = "128 word"

record AgentMessageHeader =
  HeaderLength :: u32
  MessageType :: string
  SchemaVersion :: u32
  CreatedDate :: u64
  SequenceNumber :: u64
  Flags :: u64
  MessageId :: uuid
  PayloadDigest :: "256 word"
  PayloadType :: u32
  PayloadLength :: u32

record AgentMessage =
  Header :: AgentMessageHeader
  Payload :: bytes

text \<open>The sequence number as the signed integer the code compares and counts with.\<close>

definition seq_of :: "AgentMessage \<Rightarrow> int" where
  "seq_of m = sint (SequenceNumber (Header m))"

text \<open>\<open>NewInputMessage\<close>, with the clock and the fresh identifier as arguments.\<close>

definition NewInputMessage :: "u64 \<Rightarrow> uuid \<Rightarrow> bytes \<Rightarrow> int \<Rightarrow> AgentMessage" where
  "NewInputMessage now_ms uid payload seq =
    \<lparr>Header = \<lparr>HeaderLength = of_nat HeaderLengthValue, MessageType = MsgTypeInputStreamData,
       SchemaVersion = SchemaVersionValue, CreatedDate = now_ms,
       SequenceNumber = word_of_int seq, Flags = FlagData, MessageId = uid,
       PayloadDigest = 0, PayloadType = PayloadTypeOutput,
       PayloadLength = word_of_nat (length payload)\<rparr>,
     Payload = payload\<rparr>"

section \<open>Acknowledgements and handshake responses\<close>

record AcknowledgeContent =
  AckMessageType :: string
  AckMessageId :: string
  AckSequenceNumber :: int
  AckIsSequential :: bool

definition ack_json :: "AcknowledgeContent \<Rightarrow> json" where
  "ack_json a = JObj
     [(str_bytes ''AcknowledgedMessageType'', JStr (str_bytes (AckMessageType a))),
      (str_bytes ''AcknowledgedMessageId'', JStr (str_bytes (AckMessageId a))),
      (str_bytes ''AcknowledgedMessageSequenceNumber'', JNum (itoa (AckSequenceNumber a))),
      (str_bytes ''IsSequentialMessage'', JBool (AckIsSequential a))]"

definition ack_marshal :: "AcknowledgeContent \<Rightarrow> bytes" where
  "ack_marshal a = json_marshal (ack_json a)"

text \<open>
  \<open>json.Unmarshal\<close> into an \<open>AcknowledgeContent\<close>: keys match a field name up to case folding,
  unknown keys are skipped, \<open>null\<close> leaves a field alone, and a value of the wrong type makes
  the call fail.
\<close>

definition upper_ascii :: "byte \<Rightarrow> byte" where
  "upper_ascii b = (if 0x61 \<le> b \<and> b \<le> 0x7A then b - 0x20 else b)"

fun fold_name :: "bytes \<Rightarrow> bytes" where
  "fold_name (a # b # c # bs) =
     (if a = 0xE2 \<and> b = 0x84 \<and> c = 0xAA then 0x4B # fold_name bs
      else if a = 0xC5 \<and> b = 0xBF then 0x53 # fold_name (c # bs)
      else upper_ascii a # fold_name (b # c # bs))"
| "fold_name [a, b] = (if a = 0xC5 \<and> b = 0xBF then [0x53] else [upper_ascii a, upper_ascii b])"
| "fold_name [a] = [upper_ascii a]"
| "fold_name [] = []"

definition set_ack_field :: "bytes \<Rightarrow> json \<Rightarrow> AcknowledgeContent \<Rightarrow> AcknowledgeContent option" where
  "set_ack_field k v a =
    (if fold_name k = fold_name (str_bytes ''AcknowledgedMessageType'') then
       (case v of JStr s \<Rightarrow> Some (a\<lparr>AckMessageType := bytes_str s\<rparr>)
        | JNull \<Rightarrow> Some a | _ \<Rightarrow> None)
     else if fold_name k = fold_name (str_bytes ''AcknowledgedMessageId'') then
       (case v of JStr s \<Rightarrow> Some (a\<lparr>AckMessageId := bytes_str s\<rparr>)
        | JNull \<Rightarrow> Some a | _ \<Rightarrow> None)
     else if fold_name k = fold_name (str_bytes ''AcknowledgedMessageSequenceNumber'') then
       (case v of JNum s \<Rightarrow> map_option (\<lambda>n. a\<lparr>AckSequenceNumber := n\<rparr>) (parse_int64 s)
        | JNull \<Rightarrow> Some a | _ \<Rightarrow> None)
     else if fold_name k = fold_name (str_bytes ''IsSequentialMessage'') then
       (case v of JBool b \<Rightarrow> Some (a\<lparr>AckIsSequential := b\<rparr>)
        | JNull \<Rightarrow> Some a | _ \<Rightarrow> None)
     else Some a)"

fun set_ack_fields :: "(bytes \<times> json) list \<Rightarrow> AcknowledgeContent \<Rightarrow> AcknowledgeContent option" where
  "set_ack_fields [] a = Some a"
| "set_ack_fields ((k, v) # ms) a =
     (case set_ack_field k v a of None \<Rightarrow> None | Some a' \<Rightarrow> set_ack_fields ms a')"

definition zero_ack :: AcknowledgeContent where
  "zero_ack = \<lparr>AckMessageType = [], AckMessageId = [], AckSequenceNumber = 0, AckIsSequential = False\<rparr>"

definition ack_unmarshal :: "bytes \<Rightarrow> AcknowledgeContent option" where
  "ack_unmarshal bs =
    (case json_parse bs of
       Some (JObj ms) \<Rightarrow> set_ack_fields ms zero_ack
     | Some JNull \<Rightarrow> Some zero_ack
     | _ \<Rightarrow> None)"

text \<open>
  \<open>NewAcknowledgeMessage\<close>: \<open>uuid_string\<close> is the \<open>String\<close> method of the uuid package.
\<close>

definition NewAcknowledgeMessage ::
    "(uuid \<Rightarrow> string) \<Rightarrow> u64 \<Rightarrow> uuid \<Rightarrow> string \<Rightarrow> uuid \<Rightarrow> u64 \<Rightarrow> AgentMessage" where
  "NewAcknowledgeMessage uuid_string now_ms uid refMsgType refMsgId refSeq =
    (let payload = ack_marshal \<lparr>AckMessageType = refMsgType, AckMessageId = uuid_string refMsgId,
            AckSequenceNumber = sint refSeq, AckIsSequential = True\<rparr> in
     \<lparr>Header = \<lparr>HeaderLength = of_nat HeaderLengthValue, MessageType = MsgTypeAcknowledge,
        SchemaVersion = SchemaVersionValue, CreatedDate = now_ms,
        SequenceNumber = 0, Flags = 3, MessageId = uid,
        PayloadDigest = 0, PayloadType = 0,
        PayloadLength = word_of_nat (length payload)\<rparr>,
      Payload = payload\<rparr>)"

record ProcessedClientAction =
  ActionType :: string
  ActionStatus :: int
  ActionResult :: "json option"
  ActionError :: string

definition action_json :: "ProcessedClientAction \<Rightarrow> json" where
  "action_json p = JObj
     [(str_bytes ''ActionType'', JStr (str_bytes (ActionType p))),
      (str_bytes ''ActionStatus'', JNum (itoa (ActionStatus p))),
      (str_bytes ''ActionResult'', (case ActionResult p of None \<Rightarrow> JNull | Some v \<Rightarrow> v)),
      (str_bytes ''Error'', JStr (str_bytes (ActionError p)))]"

definition NewHandshakeResponseMessage ::
    "u64 \<Rightarrow> uuid \<Rightarrow> int \<Rightarrow> string \<Rightarrow> ProcessedClientAction list \<Rightarrow> AgentMessage" where
  "NewHandshakeResponseMessage now_ms uid seq clientVersion actions =
    (let payload = json_marshal (JObj
            [(str_bytes ''ClientVersion'', JStr (str_bytes clientVersion)),
             (str_bytes ''ProcessedClientActions'', JArr (map action_json actions)),
             (str_bytes ''Errors'', JArr [])]) in
     \<lparr>Header = \<lparr>HeaderLength = of_nat HeaderLengthValue, MessageType = MsgTypeInputStreamData,
        SchemaVersion = SchemaVersionValue, CreatedDate = now_ms,
        SequenceNumber = word_of_int seq, Flags = FlagData, MessageId = uid,
        PayloadDigest = 0, PayloadType = PayloadTypeHandshakeResponse,
        PayloadLength = word_of_nat (length payload)\<rparr>,
      Payload = payload\<rparr>)"

section \<open>The 32-byte message type\<close>

text \<open>
  \<open>copy\<close> into an array filled with spaces: the name, cut at 32 bytes, then spaces.  Reading
  trims the spaces and NUL bytes at the end (\<open>strings.TrimRight\<close> with that cut set).
\<close>

definition pad_type :: "string \<Rightarrow> bytes" where
  "pad_type s = take 32 (str_bytes s) @ replicate (32 - length s) 0x20"

definition is_pad :: "byte \<Rightarrow> bool" where
  "is_pad b \<longleftrightarrow> b = 0 \<or> b = 0x20"

definition trim_right :: "bytes \<Rightarrow> bytes" where
  "trim_right bs = rev (dropWhile is_pad (rev bs))"

definition rd_type :: "bytes \<Rightarrow> (string \<times> bytes) option" where
  "rd_type bs = map_option (\<lambda>(x, r). (bytes_str (trim_right x), r)) (read_full 32 bs)"

definition valid_type :: "string \<Rightarrow> bool" where
  "valid_type s \<longleftrightarrow> length s \<le> 32 \<and> (s = [] \<or> \<not> is_pad (last (str_bytes s)))"

lemma length_pad_type [simp]: "length (pad_type s) = 32"
  by (simp add: pad_type_def)

lemma trim_right_replicate: "trim_right (bs @ replicate n 0x20) = trim_right bs"
proof (induction n arbitrary: bs)
  case (Suc n)
  have "bs @ replicate (Suc n) 0x20 = (bs @ [0x20]) @ replicate n (0x20 :: byte)" by simp
  then have "trim_right (bs @ replicate (Suc n) 0x20) = trim_right (bs @ [0x20])"
    using Suc.IH [of "bs @ [0x20]"] by simp
  then show ?case by (simp add: trim_right_def is_pad_def)
qed simp

lemma trim_right_id: "bs = [] \<or> \<not> is_pad (last bs) \<Longrightarrow> trim_right bs = bs"
  by (cases bs rule: rev_cases) (auto simp: trim_right_def)

interpretation type32: fixed_codec pad_type rd_type valid_type 32
proof
  fix s rest assume "valid_type s"
  then have "length s \<le> 32" and "trim_right (str_bytes s) = str_bytes s"
    by (auto simp: valid_type_def intro!: trim_right_id)
  then have "trim_right (pad_type s) = str_bytes s"
    by (simp add: pad_type_def trim_right_replicate)
  then show "rd_type (pad_type s @ rest) = Some (s, rest)"
    by (simp add: rd_type_def)
qed (auto simp: rd_type_def read_full_def)

section \<open>The message id in swapped halves\<close>

text \<open>The wire holds bytes 8 to 16 of the id first, then bytes 0 to 8.\<close>

definition put_uuid :: "uuid \<Rightarrow> bytes" where
  "put_uuid u = drop 8 (be128 u) @ take 8 (be128 u)"

definition rd_uuid :: "bytes \<Rightarrow> (uuid \<times> bytes) option" where
  "rd_uuid bs = do {
     (lsb, r) \<leftarrow> read_full 8 bs;
     (msb, r) \<leftarrow> read_full 8 r;
     Some (word_of_int (be_val (msb @ lsb)), r)
   }"

lemma length_put_uuid [simp]: "length (put_uuid u) = 16"
  by (simp add: put_uuid_def)

interpretation uuid_codec: fixed_codec put_uuid rd_uuid "\<lambda>_. True" 16
proof
  fix u rest
  have "read_full 8 (drop 8 (be128 u) @ take 8 (be128 u) @ rest)
      = Some (drop 8 (be128 u), take 8 (be128 u) @ rest)"
    by (rule read_full_append) simp
  moreover have "read_full 8 (take 8 (be128 u) @ rest) = Some (take 8 (be128 u), rest)"
    by (rule read_full_append) simp
  ultimately show "rd_uuid (put_uuid u @ rest) = Some (u, rest)"
    by (simp add: put_uuid_def rd_uuid_def be128_be_val)
qed (auto simp: rd_uuid_def read_full_def split: option.splits)

section \<open>MarshalBinary\<close>

text \<open>The ten fields in wire order.\<close>

definition put_header :: "AgentMessageHeader \<Rightarrow> bytes" where
  "put_header h =
     be32 (HeaderLength h) @ pad_type (MessageType h) @ be32 (SchemaVersion h)
     @ be64 (CreatedDate h) @ be64 (SequenceNumber h) @ be64 (Flags h)
     @ put_uuid (MessageId h) @ be256 (PayloadDigest h) @ be32 (PayloadType h)
     @ be32 (PayloadLength h)"

text \<open>\<open>MarshalBinary\<close> writes a digest and a length it computes from the payload.\<close>

definition MarshalBinary :: "AgentMessage \<Rightarrow> bytes" where
  "MarshalBinary m =
     put_header ((Header m)\<lparr>PayloadDigest := sha256 (Payload m),
       PayloadLength := word_of_nat (length (Payload m))\<rparr>) @ Payload m"

lemma length_put_header [simp]: "length (put_header h) = TotalHeaderLen"
  by (simp add: put_header_def TotalHeaderLen_def)

section \<open>UnmarshalMessage\<close>

definition unmarshal_header :: "bytes \<Rightarrow> (AgentMessageHeader \<times> bytes) option" where
  "unmarshal_header data = do {
     (hl, r) \<leftarrow> rd32 data;
     (mt, r) \<leftarrow> rd_type r;
     (sv, r) \<leftarrow> rd32 r;
     (cd, r) \<leftarrow> rd64 r;
     (sn, r) \<leftarrow> rd64 r;
     (fl, r) \<leftarrow> rd64 r;
     (mi, r) \<leftarrow> rd_uuid r;
     (pd, r) \<leftarrow> rd256 r;
     (pt, r) \<leftarrow> rd32 r;
     (pl, r) \<leftarrow> rd32 r;
     Some (\<lparr>HeaderLength = hl, MessageType = mt, SchemaVersion = sv, CreatedDate = cd,
            SequenceNumber = sn, Flags = fl, MessageId = mi, PayloadDigest = pd,
            PayloadType = pt, PayloadLength = pl\<rparr>, r)
   }"

text \<open>
  \<open>data[lo:hi]\<close> for \<open>uint32\<close> bounds: it panics unless \<open>lo \<le> hi\<close> and \<open>hi\<close> is within the
  slice (the code has compared \<open>hi\<close> with the length before).
\<close>

definition go_slice :: "bytes \<Rightarrow> u32 \<Rightarrow> u32 \<Rightarrow> bytes outcome" where
  "go_slice data lo hi =
     (if lo \<le> hi \<and> unat hi \<le> length data
      then Ret (take (unat (hi - lo)) (drop (unat lo) data))
      else Panic ''slice bounds out of range'')"

definition UnmarshalMessage :: "bytes \<Rightarrow> AgentMessage outcome" where
  "UnmarshalMessage data =
    (if length data < TotalHeaderLen then Fail (Wrapped ''data too short for header'' [])
     else case unmarshal_header data of
       None \<Rightarrow> Fail IoErrUnexpectedEOF
     | Some (h, _) \<Rightarrow>
         let payloadOffset = HeaderLength h + of_nat PayloadLengthLen in
         if (word_of_nat (length data) :: u32) < payloadOffset + PayloadLength h
         then Fail (Wrapped ''incomplete payload data'' [])
         else bind_outcome (go_slice data payloadOffset (payloadOffset + PayloadLength h))
                (\<lambda>payload. Ret \<lparr>Header = h, Payload = payload\<rparr>))"

section \<open>Correctness of the message codec\<close>

lemma unmarshal_put_header:
  "valid_type (MessageType h) \<Longrightarrow> unmarshal_header (put_header h @ rest) = Some (h, rest)"
  by (cases h) (simp add: unmarshal_header_def put_header_def type32.dec_enc uuid_codec.dec_enc)

lemma unmarshal_header_total:
  assumes "TotalHeaderLen \<le> length data"
  shows "\<exists>h. unmarshal_header data = Some (h, drop TotalHeaderLen data)"
proof -
  have r: "rd32 bs = Some (word_of_int (be_val (take 4 bs)), drop 4 bs)" if "4 \<le> length bs" for bs
    using that by (simp add: rd32_def read_full_def)
  have r8: "rd64 bs = Some (word_of_int (be_val (take 8 bs)), drop 8 bs)" if "8 \<le> length bs" for bs
    using that by (simp add: rd64_def read_full_def)
  have rt: "rd_type bs = Some (bytes_str (trim_right (take 32 bs)), drop 32 bs)"
    if "32 \<le> length bs" for bs
    using that by (simp add: rd_type_def read_full_def)
  have ru: "rd_uuid bs = Some (word_of_int (be_val (take 8 (drop 8 bs) @ take 8 bs)), drop 16 bs)"
    if "16 \<le> length bs" for bs
    using that by (simp add: rd_uuid_def read_full_def)
  have rd: "rd256 bs = Some (word_of_int (be_val (take 32 bs)), drop 32 bs)" if "32 \<le> length bs" for bs
    using that by (simp add: rd256_def read_full_def)
  show ?thesis
    using assms by (simp add: unmarshal_header_def TotalHeaderLen_def r r8 rt ru rd)
qed

lemma u32_of_len: "n < 2 ^ 32 \<Longrightarrow> unat (word_of_nat n :: u32) = n"
  by (simp add: unsigned_of_nat take_bit_nat_eq_self)

lemma unat_u32_bound: "unat (w :: u32) < 4294967296"
  using unsigned_less [of w] by simp

lemma u32_add_no_wrap:
  "unat (a :: u32) + unat b < 2 ^ 32 \<Longrightarrow> unat (a + b) = unat a + unat b"
  by (simp add: unat_word_ariths)

text \<open>\<open>UnmarshalMessage\<close> on a header and whatever follows it.\<close>

lemma UnmarshalMessage_put_header:
  assumes "valid_type (MessageType h)"
  shows "UnmarshalMessage (put_header h @ rest) =
    (if (word_of_nat (TotalHeaderLen + length rest) :: u32)
          < HeaderLength h + 4 + PayloadLength h
     then Fail (Wrapped ''incomplete payload data'' [])
     else bind_outcome (go_slice (put_header h @ rest) (HeaderLength h + 4)
              (HeaderLength h + 4 + PayloadLength h))
            (\<lambda>payload. Ret \<lparr>Header = h, Payload = payload\<rparr>))"
  using unmarshal_put_header [OF assms, of rest]
  by (simp add: UnmarshalMessage_def Let_def)

lemma unmarshal_marshal_eq:
  assumes "HeaderLength (Header m) = of_nat HeaderLengthValue"
    and "valid_type (MessageType (Header m))"
    and "TotalHeaderLen + length (Payload m) < 2 ^ 32"
  shows "UnmarshalMessage (MarshalBinary m) =
    Ret (m\<lparr>Header := (Header m)\<lparr>PayloadDigest := sha256 (Payload m),
           PayloadLength := word_of_nat (length (Payload m))\<rparr>\<rparr>)"
proof -
  let ?n = "length (Payload m)"
  let ?h = "(Header m)\<lparr>PayloadDigest := sha256 (Payload m), PayloadLength := word_of_nat ?n\<rparr>"
  have off: "HeaderLength ?h + 4 = (120 :: u32)"
    using assms(1) by (simp add: HeaderLengthValue_def)
  have n: "unat (word_of_nat ?n :: u32) = ?n"
    using assms(3) by (intro u32_of_len) (simp add: TotalHeaderLen_def)
  have hi: "unat (120 + word_of_nat ?n :: u32) = 120 + ?n"
    using assms(3) n by (subst u32_add_no_wrap) (simp_all add: TotalHeaderLen_def)
  have len: "unat (word_of_nat (TotalHeaderLen + ?n) :: u32) = 120 + ?n"
    using u32_of_len [OF assms(3)] by (simp add: TotalHeaderLen_def)
  have slice: "go_slice (put_header ?h @ Payload m) 120 (120 + word_of_nat ?n) = Ret (Payload m)"
    using hi n by (simp add: go_slice_def word_le_nat_alt TotalHeaderLen_def)
  have "\<not> (word_of_nat (TotalHeaderLen + ?n) :: u32) < 120 + word_of_nat ?n"
    unfolding word_less_nat_alt using hi len by simp
  then show ?thesis
    unfolding MarshalBinary_def
    using assms(2) slice off by (subst UnmarshalMessage_put_header) simp_all
qed

text \<open>
  C3. Decoding what \<open>MarshalBinary\<close> wrote gives the message back, with the digest and the
  length that were computed while writing: for every message whose header length field is the
  one the constructors use, whose type fits the 32-byte field and whose frame is shorter than
  4 GiB.
\<close>

theorem unmarshal_marshal:
  assumes "HeaderLength (Header m) = of_nat HeaderLengthValue"
    and "valid_type (MessageType (Header m))"
    and "TotalHeaderLen + length (Payload m) < 2 ^ 32"
  shows "UnmarshalMessage (MarshalBinary m) =
    Ret (m\<lparr>Header := (Header m)\<lparr>PayloadDigest := sha256 (Payload m),
           PayloadLength := word_of_nat (length (Payload m))\<rparr>\<rparr>)"
  by (rule unmarshal_marshal_eq [OF assms])

theorem unmarshal_marshal_witness:
  "UnmarshalMessage (MarshalBinary (NewInputMessage 1700000000000 42 [1, 2, 3] 7)) =
    Ret ((NewInputMessage 1700000000000 42 [1, 2, 3] 7)
      \<lparr>Header := (Header (NewInputMessage 1700000000000 42 [1, 2, 3] 7))
         \<lparr>PayloadDigest := sha256 [1, 2, 3], PayloadLength := 3\<rparr>\<rparr>)"
  using unmarshal_marshal [of "NewInputMessage 1700000000000 42 [1, 2, 3] 7"]
  by (simp add: NewInputMessage_def TotalHeaderLen_def valid_type_def msg_type_defs is_pad_def)

lemma u32_add_wrap_iff: "(a + b < (a :: u32)) \<longleftrightarrow> 2 ^ 32 \<le> uint a + uint b"
proof -
  have "uint a < 2 ^ 32" "uint b < 2 ^ 32" "0 \<le> uint a" "0 \<le> uint b"
    using uint_bounded [of a] uint_bounded [of b] by simp_all
  then show ?thesis
    by (simp add: word_less_def uint_plus_if')
qed

lemma u32_of_nat_le: "unat (word_of_nat n :: u32) \<le> n"
  by (simp add: unsigned_of_nat take_bit_nat_less_eq_self)

text \<open>The three outcomes after the header has been read.\<close>

lemma UnmarshalMessage_cases:
  assumes "TotalHeaderLen \<le> length data" and "unmarshal_header data = Some (h, r)"
  defines "off \<equiv> HeaderLength h + 4"
  shows "UnmarshalMessage data =
    (if (word_of_nat (length data) :: u32) < off + PayloadLength h
     then Fail (Wrapped ''incomplete payload data'' [])
     else if off + PayloadLength h < off then Panic ''slice bounds out of range''
     else Ret \<lparr>Header = h,
       Payload = take (unat (PayloadLength h)) (drop (unat off) data)\<rparr>)"
proof -
  have "unat hi \<le> length data" if "\<not> (word_of_nat (length data) :: u32) < hi" for hi :: u32
    using that u32_of_nat_le [of "length data"] by (simp add: word_less_nat_alt)
  then show ?thesis
    using assms by (auto simp: UnmarshalMessage_def go_slice_def Let_def)
qed

text \<open>
  C30. A received frame can crash the process: \<open>UnmarshalMessage\<close> panics exactly when the
  payload end, computed in 32 bits, wraps below the payload start while staying within the
  frame, because the length check compares the wrapped sum.
\<close>

theorem unmarshal_panic_iff:
  "(\<exists>msg. UnmarshalMessage data = Panic msg) \<longleftrightarrow>
    (\<exists>h r. TotalHeaderLen \<le> length data \<and> unmarshal_header data = Some (h, r) \<and>
       2 ^ 32 \<le> uint (HeaderLength h + 4) + uint (PayloadLength h) \<and>
       HeaderLength h + 4 + PayloadLength h \<le> word_of_nat (length data))"
proof (cases "TotalHeaderLen \<le> length data")
  case True
  then obtain h where h: "unmarshal_header data = Some (h, drop TotalHeaderLen data)"
    using unmarshal_header_total by blast
  show ?thesis
    using True h
    by (auto simp: UnmarshalMessage_cases [OF True h] u32_add_wrap_iff not_less [symmetric])
next
  case False
  then show ?thesis by (simp add: UnmarshalMessage_def)
qed

text \<open>
  One such frame, 120 bytes long, for any contents of the other fields: an ordinary header
  length and a declared payload length of \<open>0xFFFFFFFF\<close>.
\<close>

lemma unmarshal_crash_frame:
  assumes "valid_type (MessageType h)"
  shows "UnmarshalMessage (put_header (h\<lparr>HeaderLength := 116, PayloadLength := 0xFFFFFFFF\<rparr>))
    = Panic ''slice bounds out of range''"
proof -
  let ?h = "h\<lparr>HeaderLength := 116, PayloadLength := 0xFFFFFFFF\<rparr>"
  have "unmarshal_header (put_header ?h) = Some (?h, [])"
    using unmarshal_put_header [of ?h "[]"] assms by simp
  from UnmarshalMessage_cases [OF _ this] show ?thesis
    by (simp add: TotalHeaderLen_def)
qed

text \<open>
  What is accepted is well formed: the payload is exactly the declared number of bytes of
  the frame, starting 4 bytes after the declared header length, and lies within the frame.
\<close>

lemma unmarshal_accepts:
  assumes "UnmarshalMessage data = Ret m"
  shows "unat (HeaderLength (Header m) + 4) + unat (PayloadLength (Header m)) \<le> length data
    \<and> length (Payload m) = unat (PayloadLength (Header m))
    \<and> Payload m = take (unat (PayloadLength (Header m)))
        (drop (unat (HeaderLength (Header m) + 4)) data)
    \<and> unmarshal_header data = Some (Header m, drop TotalHeaderLen data)"
proof -
  have len: "TotalHeaderLen \<le> length data"
    using assms by (auto simp: UnmarshalMessage_def split: if_splits)
  then obtain h where h: "unmarshal_header data = Some (h, drop TotalHeaderLen data)"
    using unmarshal_header_total by blast
  define off where "off = HeaderLength h + 4"
  have le: "off + PayloadLength h \<le> word_of_nat (length data)"
    and nw: "\<not> off + PayloadLength h < off"
    and m: "m = \<lparr>Header = h, Payload = take (unat (PayloadLength h)) (drop (unat off) data)\<rparr>"
    using assms unfolding UnmarshalMessage_cases [OF len h] off_def [symmetric]
    by (auto split: if_splits simp: not_less)
  have "unat off + unat (PayloadLength h) = unat (off + PayloadLength h)"
    using nw unat_u32_bound [of off] unat_u32_bound [of "PayloadLength h"]
    by (simp add: unat_plus_if' word_less_nat_alt split: if_splits)
  also have "\<dots> \<le> length data"
    using le u32_of_nat_le [of "length data"] by (simp add: word_le_nat_alt)
  finally have "unat off + unat (PayloadLength h) \<le> length data" .
  then show ?thesis using h by (simp add: m off_def [symmetric])
qed

theorem unmarshal_accepts_witness:
  "length (Payload (NewInputMessage 5 1 [1, 2, 3] 7)) = 3"
proof -
  let ?m = "NewInputMessage 5 1 [1, 2, 3] 7"
  have "UnmarshalMessage (MarshalBinary ?m) = Ret (?m\<lparr>Header := (Header ?m)
      \<lparr>PayloadDigest := sha256 (Payload ?m), PayloadLength := word_of_nat (length (Payload ?m))\<rparr>\<rparr>)"
    by (subst MarshalBinary_def, subst UnmarshalMessage_put_header)
      (simp_all add: NewInputMessage_def HeaderLengthValue_def TotalHeaderLen_def valid_type_def
        msg_type_defs is_pad_def go_slice_def)
  from unmarshal_accepts [OF this] show ?thesis by (simp add: NewInputMessage_def)
qed

section \<open>Acknowledgement contents survive the wire\<close>

lemma json_parse_ack:
  assumes "ascii (str_bytes (AckMessageType a))" and "ascii (str_bytes (AckMessageId a))"
  shows "json_parse (ack_marshal a) = Some (ack_json a)"
proof -
  let ?t = "JStr (str_bytes (AckMessageType a))" and ?i = "JStr (str_bytes (AckMessageId a))"
  let ?n = "JNum (itoa (AckSequenceNumber a))" and ?b = "JBool (AckIsSequential a)"
  let ?k1 = "str_bytes ''AcknowledgedMessageType''" and ?k2 = "str_bytes ''AcknowledgedMessageId''"
  let ?k3 = "str_bytes ''AcknowledgedMessageSequenceNumber''" and ?k4 = "str_bytes ''IsSequentialMessage''"
  have "ascii ?k1 \<and> ascii ?k2 \<and> ascii ?k3 \<and> ascii ?k4" by code_simp
  then have k: "ascii ?k1" "ascii ?k2" "ascii ?k3" "ascii ?k4" by blast+
  have nn: "\<not> is_num_char 0x2C" by (simp add: is_num_char_def)
  have m4: "parse_members (Suc (Suc n)) (json_quote ?k4 @ 0x3A # json_marshal ?b @ [0x7D])
      = Some ([(?k4, ?b)], [])" for n
    by (rule parse_members_last [OF k(4)]) (rule parse_value_bool)
  have m3: "parse_members (Suc (Suc (Suc n))) (json_quote ?k3 @ 0x3A # json_marshal ?n @ 0x2C
        # json_quote ?k4 @ 0x3A # json_marshal ?b @ [0x7D])
      = Some ([(?k3, ?n), (?k4, ?b)], [])" for n
    by (rule parse_members_more [OF k(3) _ m4]) (simp add: parse_value_itoa [OF nn] del: parse_value.simps)
  have m2: "parse_members (Suc (Suc (Suc (Suc n)))) (json_quote ?k2 @ 0x3A # json_marshal ?i @ 0x2C
        # json_quote ?k3 @ 0x3A # json_marshal ?n @ 0x2C # json_quote ?k4 @ 0x3A
        # json_marshal ?b @ [0x7D])
      = Some ([(?k2, ?i), (?k3, ?n), (?k4, ?b)], [])" for n
    by (rule parse_members_more [OF k(2) _ m3])
      (simp add: parse_value_str [OF assms(2)] del: parse_value.simps)
  have m1: "parse_members (Suc (Suc (Suc (Suc (Suc n))))) (json_quote ?k1 @ 0x3A # json_marshal ?t
        @ 0x2C # json_quote ?k2 @ 0x3A # json_marshal ?i @ 0x2C # json_quote ?k3 @ 0x3A
        # json_marshal ?n @ 0x2C # json_quote ?k4 @ 0x3A # json_marshal ?b @ [0x7D])
      = Some ([(?k1, ?t), (?k2, ?i), (?k3, ?n), (?k4, ?b)], [])" for n
    by (rule parse_members_more [OF k(1) _ m2])
      (simp add: parse_value_str [OF assms(1)] del: parse_value.simps)
  have txt_eq: "ack_marshal a = 0x7B # json_quote ?k1 @ 0x3A # json_marshal ?t
        @ 0x2C # json_quote ?k2 @ 0x3A # json_marshal ?i @ 0x2C # json_quote ?k3 @ 0x3A
        # json_marshal ?n @ 0x2C # json_quote ?k4 @ 0x3A # json_marshal ?b @ [0x7D]"
    by (simp add: ack_marshal_def ack_json_def del: str_bytes_Cons)
  obtain n where fuel: "2 * length (ack_marshal a) + 2 = Suc (Suc (Suc (Suc (Suc (Suc n)))))"
  proof -
    have "4 \<le> 2 * length (ack_marshal a)" by (simp add: txt_eq json_quote_def)
    then have "\<exists>n. 2 * length (ack_marshal a) + 2 = n + 6" by presburger
    then show ?thesis using that by (auto simp: numeral_eq_Suc)
  qed
  have quote1: "json_quote ?k1 = 0x22 # (json_esc ?k1 @ [0x22])" by (simp add: json_quote_def)
  have "parse_value (Suc (Suc (Suc (Suc (Suc (Suc n)))))) (ack_marshal a) = Some (ack_json a, [])"
    unfolding txt_eq quote1 append_Cons
    by (rule parse_value_obj [THEN trans])
      (rule m1 [unfolded quote1 append_Cons], simp add: ack_json_def del: str_bytes_Cons)
  then have "parse_value (2 * length (ack_marshal a) + 2) (ack_marshal a) = Some (ack_json a, [])"
    by (simp only: fuel)
  then show ?thesis by (simp add: json_parse_def skip_ws_def)
qed

text \<open>
  Unmarshalling the JSON text that marshalling produced gives the same content back, for ASCII
  names and identifiers and every \<open>int64\<close> sequence number.
\<close>

lemma ack_roundtrip:
  assumes "ascii (str_bytes (AckMessageType a))" and "ascii (str_bytes (AckMessageId a))"
    and "is_i64 (AckSequenceNumber a)"
  shows "ack_unmarshal (ack_marshal a) = Some a"
proof -
  let ?F = fold_name
  let ?k1 = "?F (str_bytes ''AcknowledgedMessageType'')" and ?k2 = "?F (str_bytes ''AcknowledgedMessageId'')"
  let ?k3 = "?F (str_bytes ''AcknowledgedMessageSequenceNumber'')"
  let ?k4 = "?F (str_bytes ''IsSequentialMessage'')"
  have "?k2 \<noteq> ?k1 \<and> ?k3 \<noteq> ?k1 \<and> ?k3 \<noteq> ?k2 \<and> ?k4 \<noteq> ?k1 \<and> ?k4 \<noteq> ?k2 \<and> ?k4 \<noteq> ?k3" by code_simp
  then show ?thesis
    using json_parse_ack [OF assms(1,2)] parse_int64_itoa [OF assms(3)]
    by (simp add: ack_unmarshal_def ack_json_def set_ack_field_def zero_ack_def
        del: str_bytes_Cons fold_name.simps)
qed

end
