(* ===== verification/Window.thy ===== *)
theory Window
  imports Message
begin

text \<open>
  The outgoing reliability window of the protocol adapter (\<open>internal/protocol/adapter.go\<close>):
  the frames sent and not yet acknowledged, keyed by stream sequence number, with the pointer
  to the oldest one, the byte count that bounds the window, and the retransmission timeout.
  Every operation is the body the code runs under \<open>outgoingMu\<close>.  \<open>broadcasts\<close> counts the
  calls of \<open>outgoingCond.Broadcast\<close>, which wake the writers that wait for room.

  The contract is the locale \<open>unacked_window\<close>: an abstract map from sequence numbers to
  frames that adding extends, and acknowledging or dropping the right identifier shrinks.
\<close>

section \<open>State\<close>

record outgoingMessage =
  omID :: uuid
  omData :: bytes
  omLastSent :: "nanos option"
  omResendCount :: int

record window =
  outgoing :: "(int, outgoingMessage) gomap"
  outgoingOldestSeq :: int
  outgoingBytes :: int
  outgoingClosed :: bool
  rto :: nanos
  maxOutgoingUnackedBytes :: int
  broadcasts :: nat

definition defaultRetransmissionTimeout :: nanos where
  "defaultRetransmissionTimeout = millis 200"

definition maxRetransmissionTimeout :: nanos where
  "maxRetransmissionTimeout = seconds 1"

definition maxResendAttempts :: int where
  "maxResendAttempts = 60"

definition defaultMaxOutgoingUnackedBytes :: int where
  "defaultMaxOutgoingUnackedBytes = 256 * 1024"

lemmas window_consts = defaultRetransmissionTimeout_def maxRetransmissionTimeout_def
  maxResendAttempts_def defaultMaxOutgoingUnackedBytes_def

definition new_window :: "int \<Rightarrow> window" where
  "new_window limit = \<lparr>outgoing = [], outgoingOldestSeq = -1, outgoingBytes = 0,
     outgoingClosed = False, rto = defaultRetransmissionTimeout,
     maxOutgoingUnackedBytes = limit, broadcasts = 0\<rparr>"

definition frame_len :: "outgoingMessage \<Rightarrow> int" where
  "frame_len om = int (length (omData om))"

definition outgoing_broadcast :: "window \<Rightarrow> window" where
  "outgoing_broadcast w = w\<lparr>broadcasts := Suc (broadcasts w)\<rparr>"

section \<open>Operations\<close>

text \<open>
  The oldest pointer after its frame is gone: step forward at most 1024 numbers, and search
  the whole map if that did not hit a frame.
\<close>

fun scan_oldest :: "nat \<Rightarrow> (int, outgoingMessage) gomap \<Rightarrow> int \<Rightarrow> int" where
  "scan_oldest 0 og k = k"
| "scan_oldest (Suc n) og k =
     (let k' = to_i64 (k + 1) in if map_of og k' \<noteq> None then k' else scan_oldest n og k')"

definition maxScan :: nat where
  "maxScan = 1024"

definition advance_oldest :: "(int, outgoingMessage) gomap \<Rightarrow> int \<Rightarrow> int" where
  "advance_oldest og k =
     (let k' = scan_oldest maxScan og k in
      if map_of og k' \<noteq> None then k' else min_key_loop max_i64 og)"

definition clamp_rto :: "nanos \<Rightarrow> nanos" where
  "clamp_rto t =
     (let t1 = (if t < defaultRetransmissionTimeout then defaultRetransmissionTimeout else t)
      in if t1 > maxRetransmissionTimeout then maxRetransmissionTimeout else t1)"

definition observe_rtt :: "nanos \<Rightarrow> outgoingMessage \<Rightarrow> window \<Rightarrow> window" where
  "observe_rtt now om w =
     (case omLastSent om of
        None \<Rightarrow> w
      | Some t \<Rightarrow> if now - t > 0 then w\<lparr>rto := clamp_rto ((now - t) * 2)\<rparr> else w)"

definition ackOutgoing :: "nanos \<Rightarrow> int \<Rightarrow> uuid \<Rightarrow> window \<Rightarrow> window" where
  "ackOutgoing now seq mid w =
    (case map_of (outgoing w) seq of
       None \<Rightarrow> w
     | Some om \<Rightarrow>
         if omID om \<noteq> mid then w
         else
           let w1 = observe_rtt now om w;
               og = gm_del seq (outgoing w1);
               w2 = w1\<lparr>outgoing := og, outgoingBytes := outgoingBytes w1 - frame_len om\<rparr>;
               w3 = (if og = [] then w2\<lparr>outgoingOldestSeq := -1\<rparr>
                     else if seq = outgoingOldestSeq w2
                     then w2\<lparr>outgoingOldestSeq := advance_oldest og (outgoingOldestSeq w2)\<rparr>
                     else w2)
           in outgoing_broadcast w3)"

definition dropOutgoing :: "int \<Rightarrow> uuid \<Rightarrow> window \<Rightarrow> window" where
  "dropOutgoing seq mid w =
    (case map_of (outgoing w) seq of
       None \<Rightarrow> w
     | Some om \<Rightarrow>
         if omID om \<noteq> mid then w
         else
           let og = gm_del seq (outgoing w);
               w2 = w\<lparr>outgoing := og, outgoingBytes := outgoingBytes w - frame_len om\<rparr>;
               w3 = (if og = [] then w2\<lparr>outgoingOldestSeq := -1\<rparr>
                     else if seq = outgoingOldestSeq w2
                     then w2\<lparr>outgoingOldestSeq := min_key_loop max_i64 og\<rparr>
                     else w2)
           in outgoing_broadcast w3)"

text \<open>
  \<open>addOutgoing\<close>: one look at the window.  \<open>AddWait\<close> is the wait on the condition variable:
  the caller looks again after a wake-up.
\<close>

datatype add_result = AddDone window | AddWait | AddFail go_error

definition insert_outgoing :: "nanos \<Rightarrow> int \<Rightarrow> uuid \<Rightarrow> bytes \<Rightarrow> window \<Rightarrow> window" where
  "insert_outgoing now seq mid frame w =
     w\<lparr>outgoing := gm_put seq \<lparr>omID = mid, omData = frame, omLastSent = Some now, omResendCount = 0\<rparr>
                    (outgoing w),
       outgoingBytes := outgoingBytes w + int (length frame),
       outgoingOldestSeq := (if outgoingOldestSeq w = -1 \<or> seq < outgoingOldestSeq w then seq
                             else outgoingOldestSeq w)\<rparr>"

definition addOutgoing_step ::
    "nanos \<Rightarrow> nanos option \<Rightarrow> int \<Rightarrow> uuid \<Rightarrow> bytes \<Rightarrow> window \<Rightarrow> add_result" where
  "addOutgoing_step now dl seq mid frame w =
    (if outgoingBytes w + int (length frame) > maxOutgoingUnackedBytes w then
       (if outgoingClosed w then AddFail IoErrClosedPipe
        else if deadline_passed now dl then AddFail TimeoutError
        else AddWait)
     else if outgoingClosed w then AddFail IoErrClosedPipe
     else AddDone (insert_outgoing now seq mid frame w))"

definition markOutgoingForRetransmit :: "nanos \<Rightarrow> window \<Rightarrow> window" where
  "markOutgoingForRetransmit now w =
    (let forceResendAt = now - defaultRetransmissionTimeout - millis 1 in
     outgoing_broadcast
       (w\<lparr>outgoing := map (\<lambda>(k, om). (k, om\<lparr>omLastSent := Some forceResendAt, omResendCount := 0\<rparr>))
            (outgoing w)\<rparr>))"

text \<open>
  One pass of \<open>resendLoop\<close> over the window: what to do, and the window after the
  bookkeeping done before the frame is written.
\<close>

datatype resend_action = ResendIdle | ResendFrame int bytes | ResendGiveUp int

definition elapsed_over :: "nanos \<Rightarrow> nanos option \<Rightarrow> nanos \<Rightarrow> bool" where
  "elapsed_over now t d = (case t of None \<Rightarrow> True | Some s \<Rightarrow> now - s > d)"

definition resend_rto :: "window \<Rightarrow> outgoingMessage \<Rightarrow> nanos" where
  "resend_rto w om =
    (let r = (if rto w \<le> 0 then defaultRetransmissionTimeout else rto w)
     in if omResendCount om > 0 \<and> r < maxRetransmissionTimeout then maxRetransmissionTimeout else r)"

definition resend_window :: "nanos \<Rightarrow> window \<Rightarrow> resend_action \<times> window" where
  "resend_window now w =
    (let seq = outgoingOldestSeq w in
     if seq = -1 \<or> outgoing w = [] then (ResendIdle, w)
     else case map_of (outgoing w) seq of
       None \<Rightarrow> (ResendIdle, w\<lparr>outgoingOldestSeq := min_key_loop max_i64 (outgoing w)\<rparr>)
     | Some om \<Rightarrow>
         if \<not> elapsed_over now (omLastSent om) (resend_rto w om) then (ResendIdle, w)
         else
           let om1 = om\<lparr>omResendCount := omResendCount om + 1\<rparr> in
           if omResendCount om1 > maxResendAttempts
           then (ResendGiveUp seq, w\<lparr>outgoing := gm_put seq om1 (outgoing w)\<rparr>)
           else (ResendFrame seq (omData om1),
                 w\<lparr>outgoing := gm_put seq (om1\<lparr>omLastSent := Some now\<rparr>) (outgoing w)\<rparr>))"

definition close_window :: "window \<Rightarrow> window" where
  "close_window w = outgoing_broadcast (w\<lparr>outgoingClosed := True\<rparr>)"

section \<open>The invariant of the window\<close>

text \<open>
  Keys are non-negative \<open>int64\<close> values, the byte count is the total length of the frames,
  the oldest pointer is the least key (or -1), and the timeout stays within its two limits.
\<close>

definition oldest_of :: "(int, outgoingMessage) gomap \<Rightarrow> int" where
  "oldest_of og = (if og = [] then -1 else Min (set (gm_keys og)))"

definition seq_keys :: "(int, outgoingMessage) gomap \<Rightarrow> bool" where
  "seq_keys og \<longleftrightarrow> gm_ok og \<and> (\<forall>k \<in> set (gm_keys og). 0 \<le> k \<and> k \<le> max_i64)"

definition window_inv :: "window \<Rightarrow> bool" where
  "window_inv w \<longleftrightarrow> seq_keys (outgoing w) \<and> outgoingBytes w = gm_sum frame_len (outgoing w)
     \<and> outgoingOldestSeq w = oldest_of (outgoing w)
     \<and> defaultRetransmissionTimeout \<le> rto w \<and> rto w \<le> maxRetransmissionTimeout"

lemma seq_keys_del [simp]: "seq_keys og \<Longrightarrow> seq_keys (gm_del k og)"
  by (simp add: seq_keys_def)

lemma seq_keys_put: "seq_keys og \<Longrightarrow> 0 \<le> k \<Longrightarrow> k \<le> max_i64 \<Longrightarrow> seq_keys (gm_put k om og)"
  by (simp add: seq_keys_def)

lemma gm_put_not_Nil [simp]: "gm_put k v m \<noteq> []"
  by (cases m) auto

lemma oldest_of_put_new:
  assumes "seq_keys og" and "0 \<le> k"
  shows "oldest_of (gm_put k om og) = (if oldest_of og = -1 \<or> k < oldest_of og then k else oldest_of og)"
proof (cases "og = []")
  case False
  then have ne: "set (gm_keys og) \<noteq> {}" by simp
  define m where "m = Min (set (gm_keys og))"
  have "m \<in> set (gm_keys og)" using ne unfolding m_def by (intro Min_in) auto
  then have nn: "0 \<le> m" using assms by (auto simp: seq_keys_def)
  have ins: "Min (insert k (set (gm_keys og))) = min k m"
    using ne unfolding m_def by (intro Min_insert) auto
  show ?thesis
    using False nn by (simp add: oldest_of_def ins m_def [symmetric] min_def)
qed (simp add: oldest_of_def)

lemma oldest_of_put_same: "map_of og k = Some om \<Longrightarrow> oldest_of (gm_put k om' og) = oldest_of og"
  using gm_get_Some_key [of og k om] by (auto simp: oldest_of_def insert_absorb)

lemma oldest_of_del_other:
  assumes "gm_del k og \<noteq> []" and "k \<noteq> oldest_of og"
  shows "oldest_of (gm_del k og) = oldest_of og"
proof -
  have ne: "og \<noteq> []" using assms(1) by auto
  let ?K = "set (gm_keys og)"
  have mem: "Min ?K \<in> ?K" using ne by (intro Min_in) auto
  have "Min (?K - {k}) = Min ?K"
    using assms(2) ne mem by (intro Min_eqI) (auto simp: oldest_of_def)
  then show ?thesis using assms(1) ne by (simp add: oldest_of_def)
qed

lemma min_loop_oldest: "seq_keys og \<Longrightarrow> og \<noteq> [] \<Longrightarrow> min_key_loop max_i64 og = oldest_of og"
  by (simp add: min_key_loop_Min seq_keys_def oldest_of_def)

text \<open>
  The bounded forward scan finds the least key or nothing, so with the fall-back the oldest
  pointer is the least key: the fast path agrees with the search of the whole map.
\<close>

lemma scan_oldest_Min:
  assumes "seq_keys og" and "og \<noteq> []" and "0 \<le> k" and "\<forall>j \<in> set (gm_keys og). k < j"
  shows "map_of og (scan_oldest n og k) \<noteq> None \<Longrightarrow> scan_oldest n og k = oldest_of og"
  using assms
proof (induction n arbitrary: k)
  case 0
  then have "k \<in> set (gm_keys og)" by (auto dest: gm_get_Some_key)
  then show ?case using 0(5) by blast
next
  case (Suc n)
  obtain j where j: "j \<in> set (gm_keys og)" using Suc.prems(3) by (cases og) auto
  then have "k < max_i64" using Suc.prems(2,5) by (fastforce simp: seq_keys_def)
  then have inc: "to_i64 (k + 1) = k + 1" using Suc.prems(4) by (simp add: to_i64_def)
  show ?case
  proof (cases "map_of og (k + 1)")
    case None
    then have "k + 1 \<notin> set (gm_keys og)" by (simp add: gm_get_None_iff)
    then have "\<forall>j \<in> set (gm_keys og). k + 1 < j"
      using Suc.prems(5) by (metis zless_imp_add1_zle order_le_less)
    then show ?thesis using Suc.IH [of "k + 1"] Suc.prems None by (simp add: inc)
  next
    case (Some om)
    then have "k + 1 \<in> set (gm_keys og)" by (rule gm_get_Some_key)
    then have "Min (set (gm_keys og)) = k + 1" using Suc.prems(5) by (intro Min_eqI) auto
    then show ?thesis using Some Suc.prems(3) by (simp add: inc oldest_of_def)
  qed
qed

lemma advance_oldest_eq:
  assumes "seq_keys og" and "og \<noteq> []" and "0 \<le> k" and "\<forall>j \<in> set (gm_keys og). k < j"
  shows "advance_oldest og k = oldest_of og"
  using scan_oldest_Min [OF assms, of maxScan] min_loop_oldest [OF assms(1,2)]
  by (simp add: advance_oldest_def Let_def)

lemma clamp_rto_range:
  "defaultRetransmissionTimeout \<le> clamp_rto t" "clamp_rto t \<le> maxRetransmissionTimeout"
  by (simp_all add: clamp_rto_def Let_def window_consts)

section \<open>Effect of each operation\<close>

definition removed :: "int \<Rightarrow> outgoingMessage \<Rightarrow> window \<Rightarrow> window" where
  "removed seq om w = w\<lparr>outgoing := gm_del seq (outgoing w),
     outgoingBytes := outgoingBytes w - frame_len om,
     outgoingOldestSeq := oldest_of (gm_del seq (outgoing w))\<rparr>"

lemma oldest_key_del:
  assumes "seq_keys og" and "map_of og seq = Some om" and "seq = oldest_of og"
  shows "\<forall>j \<in> set (gm_keys (gm_del seq og)). seq < j"
proof
  fix j assume "j \<in> set (gm_keys (gm_del seq og))"
  then have j: "j \<in> set (gm_keys og)" "j \<noteq> seq" by auto
  then have "seq \<le> j" using assms(3) by (cases og) (auto simp: oldest_of_def)
  then show "seq < j" using j by simp
qed

lemma observe_rtt_fields [simp]:
  "outgoing (observe_rtt now om w) = outgoing w"
  "outgoingBytes (observe_rtt now om w) = outgoingBytes w"
  "outgoingOldestSeq (observe_rtt now om w) = outgoingOldestSeq w"
  "outgoingClosed (observe_rtt now om w) = outgoingClosed w"
  "maxOutgoingUnackedBytes (observe_rtt now om w) = maxOutgoingUnackedBytes w"
  by (simp_all add: observe_rtt_def split: option.splits)

lemma observe_rtt_inv: "window_inv w \<Longrightarrow> window_inv (observe_rtt now om w)"
  by (auto simp: window_inv_def observe_rtt_def clamp_rto_range split: option.splits)

lemma removed_inv:
  assumes "window_inv w" and "map_of (outgoing w) seq = Some om"
  shows "window_inv (removed seq om w)"
  using assms by (auto simp: window_inv_def removed_def gm_sum_del seq_keys_def)

lemma seq_key_nonneg: "seq_keys og \<Longrightarrow> map_of og seq = Some om \<Longrightarrow> 0 \<le> seq"
  by (auto simp: seq_keys_def dest: gm_get_Some_key)

lemma removed_eq:
  assumes "gm_del seq (outgoing w) \<noteq> [] \<Longrightarrow> seq = outgoingOldestSeq w \<Longrightarrow> x = oldest_of (gm_del seq (outgoing w))"
    and "gm_del seq (outgoing w) \<noteq> [] \<Longrightarrow> seq \<noteq> outgoingOldestSeq w
      \<Longrightarrow> outgoingOldestSeq w = oldest_of (gm_del seq (outgoing w))"
    and "W = w\<lparr>outgoing := gm_del seq (outgoing w), outgoingBytes := outgoingBytes w - frame_len om\<rparr>"
  shows "(if gm_del seq (outgoing w) = [] then W\<lparr>outgoingOldestSeq := -1\<rparr>
          else if seq = outgoingOldestSeq w then W\<lparr>outgoingOldestSeq := x\<rparr> else W) = removed seq om w"
proof (cases "gm_del seq (outgoing w) = []")
  case True
  then show ?thesis by (simp add: removed_def assms(3) oldest_of_def)
next
  case False
  then show ?thesis using assms(1,2) by (cases w) (auto simp: removed_def assms(3))
qed

lemma ackOutgoing_eq:
  assumes "window_inv w"
  shows "ackOutgoing now seq mid w =
    (case map_of (outgoing w) seq of
       None \<Rightarrow> w
     | Some om \<Rightarrow> if omID om = mid then outgoing_broadcast (removed seq om (observe_rtt now om w)) else w)"
proof (cases "map_of (outgoing w) seq")
  case (Some om)
  let ?og = "gm_del seq (outgoing w)"
  have k: "seq_keys (outgoing w)" and o: "outgoingOldestSeq w = oldest_of (outgoing w)"
    using assms by (auto simp: window_inv_def)
  have adv: "seq = oldest_of (outgoing w) \<Longrightarrow> ?og \<noteq> [] \<Longrightarrow> advance_oldest ?og seq = oldest_of ?og"
    using advance_oldest_eq oldest_key_del [OF k Some] seq_key_nonneg [OF k Some] k by simp
  have oth: "seq \<noteq> oldest_of (outgoing w) \<Longrightarrow> ?og \<noteq> [] \<Longrightarrow> oldest_of (outgoing w) = oldest_of ?og"
    using oldest_of_del_other by simp
  let ?w = "observe_rtt now om w"
  have step: "(if ?og = [] then W\<lparr>outgoingOldestSeq := -1\<rparr>
      else if seq = outgoingOldestSeq ?w then W\<lparr>outgoingOldestSeq := advance_oldest ?og (outgoingOldestSeq ?w)\<rparr>
      else W) = removed seq om ?w"
    if "W = ?w\<lparr>outgoing := ?og, outgoingBytes := outgoingBytes ?w - frame_len om\<rparr>" for W
    using removed_eq [of seq ?w "advance_oldest ?og (outgoingOldestSeq ?w)" W om] adv oth that by (simp add: o)
  show ?thesis
    using step [OF refl] by (cases "omID om = mid") (simp_all add: ackOutgoing_def Some Let_def split del: if_split cong del: if_weak_cong)
qed (simp add: ackOutgoing_def)

lemma dropOutgoing_eq:
  assumes "window_inv w"
  shows "dropOutgoing seq mid w =
    (case map_of (outgoing w) seq of
       None \<Rightarrow> w
     | Some om \<Rightarrow> if omID om = mid then outgoing_broadcast (removed seq om w) else w)"
proof (cases "map_of (outgoing w) seq")
  case (Some om)
  let ?og = "gm_del seq (outgoing w)"
  have k: "seq_keys (outgoing w)" and o: "outgoingOldestSeq w = oldest_of (outgoing w)"
    using assms by (auto simp: window_inv_def)
  have mn: "?og \<noteq> [] \<Longrightarrow> min_key_loop max_i64 ?og = oldest_of ?og"
    using min_loop_oldest k by simp
  have oth: "seq \<noteq> oldest_of (outgoing w) \<Longrightarrow> ?og \<noteq> [] \<Longrightarrow> oldest_of (outgoing w) = oldest_of ?og"
    using oldest_of_del_other by simp
  have step: "(if ?og = [] then W\<lparr>outgoingOldestSeq := -1\<rparr>
      else if seq = outgoingOldestSeq w then W\<lparr>outgoingOldestSeq := min_key_loop max_i64 ?og\<rparr>
      else W) = removed seq om w"
    if "W = w\<lparr>outgoing := ?og, outgoingBytes := outgoingBytes w - frame_len om\<rparr>" for W
    by (rule removed_eq [OF _ _ that]) (use mn oth o in auto)
  show ?thesis
    using step [OF refl] by (cases "omID om = mid") (simp_all add: dropOutgoing_def Some Let_def split del: if_split cong del: if_weak_cong)
qed (simp add: dropOutgoing_def)

lemma broadcast_inv [simp]: "window_inv (outgoing_broadcast w) = window_inv w"
  by (simp add: window_inv_def outgoing_broadcast_def)

lemma new_window_inv [inv_lemmas]: "window_inv (new_window l)"
  by (simp add: window_inv_def new_window_def seq_keys_def oldest_of_def window_consts)

lemma ackOutgoing_inv [inv_lemmas]: "window_inv w \<Longrightarrow> window_inv (ackOutgoing now seq mid w)"
  by (simp add: ackOutgoing_eq removed_inv observe_rtt_inv split: option.split)

lemma dropOutgoing_inv [inv_lemmas]: "window_inv w \<Longrightarrow> window_inv (dropOutgoing seq mid w)"
  by (simp add: dropOutgoing_eq removed_inv split: option.split)

lemma insert_outgoing_inv:
  assumes "window_inv w" and "0 \<le> seq" and "seq \<le> max_i64" and "seq \<notin> set (gm_keys (outgoing w))"
  shows "window_inv (insert_outgoing now seq mid frame w)"
  using assms oldest_of_put_new [of "outgoing w" seq]
  by (simp add: window_inv_def insert_outgoing_def seq_keys_put gm_sum_put_new frame_len_def)

lemma markOutgoing_inv [inv_lemmas]: "window_inv w \<Longrightarrow> window_inv (markOutgoingForRetransmit now w)"
  by (simp add: markOutgoingForRetransmit_def Let_def window_inv_def seq_keys_def gm_ok_def
      oldest_of_def gm_sum_map frame_len_def outgoing_broadcast_def)

lemma close_window_inv [inv_lemmas]: "window_inv w \<Longrightarrow> window_inv (close_window w)"
  by (simp add: close_window_def window_inv_def outgoing_broadcast_def)

lemma gm_sum_put_same:
  "map_of m k = Some v \<Longrightarrow> f v' = f v \<Longrightarrow> gm_sum f (gm_put k v' m) = gm_sum f m"
  by (induction m) (auto split: if_splits)

lemma put_same_inv:
  assumes "window_inv w" and "map_of (outgoing w) seq = Some om" and "frame_len om' = frame_len om"
  shows "window_inv (w\<lparr>outgoing := gm_put seq om' (outgoing w)\<rparr>)"
  using assms gm_get_Some_key [OF assms(2)]
  by (auto simp: window_inv_def seq_keys_def oldest_of_put_same gm_sum_put_same)

lemma window_oldest_get:
  assumes "window_inv w" and "outgoing w \<noteq> []"
  shows "\<exists>om. map_of (outgoing w) (outgoingOldestSeq w) = Some om"
proof -
  have "Min (set (gm_keys (outgoing w))) \<in> set (gm_keys (outgoing w))"
    using assms(2) by (intro Min_in) auto
  then show ?thesis using assms by (simp add: window_inv_def oldest_of_def gm_key_get)
qed

lemma resend_window_inv [inv_lemmas]: "window_inv w \<Longrightarrow> window_inv (snd (resend_window now w))"
  using window_oldest_get [of w]
  by (auto simp: resend_window_def Let_def put_same_inv frame_len_def split: option.splits)

lemma addOutgoing_inv:
  assumes "addOutgoing_step now dl seq mid frame w = AddDone w'" and "window_inv w"
    and "0 \<le> seq" and "seq \<le> max_i64" and "seq \<notin> set (gm_keys (outgoing w))"
  shows "window_inv w'" "outgoingBytes w' \<le> maxOutgoingUnackedBytes w'"
  using assms insert_outgoing_inv [OF assms(2-5), of now mid frame]
  by (auto simp: addOutgoing_step_def insert_outgoing_def split: if_splits)

section \<open>The contract of the window\<close>

text \<open>
  What the rest of the adapter relies on, over an abstract map from sequence numbers to the
  identifier and bytes of the frame: adding under a new number extends the map; removing
  (an acknowledgement, or the drop of a frame that could not be written) takes out exactly
  the frame with that number and identifier, and anything else changes nothing.
\<close>

locale unacked_window =
  fixes inv :: "'w \<Rightarrow> bool"
    and unacked :: "'w \<Rightarrow> int \<Rightarrow> (uuid \<times> bytes) option"
    and add :: "nanos \<Rightarrow> int \<Rightarrow> uuid \<Rightarrow> bytes \<Rightarrow> 'w \<Rightarrow> 'w"
    and rem :: "nanos \<Rightarrow> int \<Rightarrow> uuid \<Rightarrow> 'w \<Rightarrow> 'w"
  assumes add_inv: "inv w \<Longrightarrow> 0 \<le> seq \<Longrightarrow> seq \<le> max_i64 \<Longrightarrow> unacked w seq = None
      \<Longrightarrow> inv (add now seq mid f w)"
    and add_unacked: "inv w \<Longrightarrow> unacked (add now seq mid f w) = (unacked w)(seq \<mapsto> (mid, f))"
    and rem_inv: "inv w \<Longrightarrow> inv (rem now seq mid w)"
    and rem_unacked: "inv w \<Longrightarrow> unacked (rem now seq mid w) =
      (if map_option fst (unacked w seq) = Some mid then (unacked w)(seq := None) else unacked w)"
begin

definition rem_all :: "(nanos \<times> int \<times> uuid) list \<Rightarrow> 'w \<Rightarrow> 'w" where
  "rem_all acks w = fold (\<lambda>(now, seq, mid). rem now seq mid) acks w"

lemma rem_all_inv: "inv w \<Longrightarrow> inv (rem_all acks w)"
  by (induction acks arbitrary: w) (auto simp: rem_all_def rem_inv)

lemma rem_all_unacked:
  "inv w \<Longrightarrow> unacked (rem_all acks w) seq =
    (case unacked w seq of
       None \<Rightarrow> None
     | Some (mid, f) \<Rightarrow> if (seq, mid) \<in> snd ` set acks then None else Some (mid, f))"
proof (induction acks arbitrary: w)
  case Nil
  then show ?case by (auto simp: rem_all_def split: option.split)
next
  case (Cons a acks)
  obtain now s m where a: "a = (now, s, m)" by (cases a)
  have "unacked (rem_all (a # acks) w) seq = unacked (rem_all acks (rem now s m w)) seq"
    by (simp add: a rem_all_def)
  also have "\<dots> = (case unacked (rem now s m w) seq of
       None \<Rightarrow> None
     | Some (mid, f) \<Rightarrow> if (seq, mid) \<in> snd ` set acks then None else Some (mid, f))"
    using Cons.IH rem_inv [OF Cons.prems] by blast
  finally show ?case
    by (auto simp: a rem_unacked [OF Cons.prems] split: option.splits)
qed

text \<open>The order and multiplicity of acknowledgements do not matter.\<close>

lemma rem_all_set:
  assumes "inv w" and "snd ` set acks = snd ` set acks'"
  shows "unacked (rem_all acks w) = unacked (rem_all acks' w)"
  by (rule ext) (simp only: rem_all_unacked [OF assms(1)] assms(2))

text \<open>A frame stays until its own identifier is named, and is gone once it has been.\<close>

lemma rem_add:
  assumes "inv w" and "0 \<le> seq" and "seq \<le> max_i64" and "unacked w seq = None"
  shows "unacked (rem now' seq mid (add now seq mid f w)) = unacked w"
  using assms by (auto simp: rem_unacked add_inv add_unacked)

end

definition window_unacked :: "window \<Rightarrow> int \<Rightarrow> (uuid \<times> bytes) option" where
  "window_unacked w seq = map_option (\<lambda>om. (omID om, omData om)) (map_of (outgoing w) seq)"

lemma insert_unacked:
  "window_unacked (insert_outgoing now seq mid f w) = (window_unacked w)(seq \<mapsto> (mid, f))"
  by (auto simp: window_unacked_def insert_outgoing_def gm_put_get)

lemma window_unacked_None: "window_unacked w seq = None \<longleftrightarrow> seq \<notin> set (gm_keys (outgoing w))"
  by (simp add: window_unacked_def gm_get_None_iff)

lemma ack_unacked:
  "window_inv w \<Longrightarrow> window_unacked (ackOutgoing now seq mid w) =
    (if map_option fst (window_unacked w seq) = Some mid then (window_unacked w)(seq := None)
     else window_unacked w)"
  by (auto simp: ackOutgoing_eq window_unacked_def removed_def gm_del_get outgoing_broadcast_def
      split: option.splits)

lemma drop_unacked:
  "window_inv w \<Longrightarrow> window_unacked (dropOutgoing seq mid w) =
    (if map_option fst (window_unacked w seq) = Some mid then (window_unacked w)(seq := None)
     else window_unacked w)"
  by (auto simp: dropOutgoing_eq window_unacked_def removed_def gm_del_get outgoing_broadcast_def
      split: option.splits)

interpretation aw: unacked_window window_inv window_unacked insert_outgoing ackOutgoing
  by unfold_locales
    (auto simp: insert_outgoing_inv window_unacked_None insert_unacked ackOutgoing_inv ack_unacked)

interpretation dw: unacked_window window_inv window_unacked insert_outgoing
    "\<lambda>_ seq mid. dropOutgoing seq mid"
  by unfold_locales
    (auto simp: insert_outgoing_inv window_unacked_None insert_unacked dropOutgoing_inv drop_unacked)

lemma mark_unacked: "window_unacked (markOutgoingForRetransmit now w) = window_unacked w"
  by (auto simp: window_unacked_def markOutgoingForRetransmit_def Let_def outgoing_broadcast_def
      gm_get_map option.map_comp comp_def)

section \<open>All histories of the window\<close>

text \<open>
  The window as its users drive it.  \<open>nextSeq\<close> hands out each number once (an atomic
  counter), and a frame is added at most once under a number that was handed out; writers run
  concurrently, so frames may be added in any order.  Acknowledgements carry any number and
  identifier.
\<close>

record window_sys =
  wsSeqNum :: int
  wsPending :: "int set"
  wsWindow :: window

inductive window_step :: "window_sys \<Rightarrow> window_sys \<Rightarrow> bool" where
  ws_nextSeq: "wsSeqNum s \<le> max_i64 \<Longrightarrow>
     window_step s (s\<lparr>wsSeqNum := wsSeqNum s + 1, wsPending := insert (wsSeqNum s) (wsPending s)\<rparr>)"
| ws_add: "seq \<in> wsPending s \<Longrightarrow> addOutgoing_step now dl seq mid frame (wsWindow s) = AddDone w' \<Longrightarrow>
     window_step s (s\<lparr>wsWindow := w', wsPending := wsPending s - {seq}\<rparr>)"
| ws_ack: "window_step s (s\<lparr>wsWindow := ackOutgoing now seq mid (wsWindow s)\<rparr>)"
| ws_drop: "window_step s (s\<lparr>wsWindow := dropOutgoing seq mid (wsWindow s)\<rparr>)"
| ws_mark: "window_step s (s\<lparr>wsWindow := markOutgoingForRetransmit now (wsWindow s)\<rparr>)"
| ws_resend: "window_step s (s\<lparr>wsWindow := snd (resend_window now (wsWindow s))\<rparr>)"
| ws_close: "window_step s (s\<lparr>wsWindow := close_window (wsWindow s)\<rparr>)"

inductive window_reach :: "int \<Rightarrow> window_sys \<Rightarrow> bool" for limit where
  wr_init: "window_reach limit \<lparr>wsSeqNum = 0, wsPending = {}, wsWindow = new_window limit\<rparr>"
| wr_step: "window_reach limit s \<Longrightarrow> window_step s s' \<Longrightarrow> window_reach limit s'"

inductive_cases window_stepE: "window_step s s'"

definition window_sys_inv :: "window_sys \<Rightarrow> bool" where
  "window_sys_inv s \<longleftrightarrow> window_inv (wsWindow s) \<and> 0 \<le> wsSeqNum s \<and>
     (\<forall>k \<in> wsPending s. 0 \<le> k \<and> k < wsSeqNum s \<and> k \<le> max_i64) \<and>
     (\<forall>k \<in> set (gm_keys (outgoing (wsWindow s))). k < wsSeqNum s) \<and>
     wsPending s \<inter> set (gm_keys (outgoing (wsWindow s))) = {}"

text \<open>Every operation but \<open>addOutgoing\<close> keeps the keys, the limit, and adds no byte.\<close>

definition no_growth :: "window \<Rightarrow> window \<Rightarrow> bool" where
  "no_growth w w' \<longleftrightarrow> set (gm_keys (outgoing w')) \<subseteq> set (gm_keys (outgoing w)) \<and>
     outgoingBytes w' \<le> outgoingBytes w \<and> maxOutgoingUnackedBytes w' = maxOutgoingUnackedBytes w"

lemma no_growth_ops:
  assumes "window_inv w"
  shows "no_growth w (ackOutgoing now seq mid w)" "no_growth w (dropOutgoing seq mid w)"
    "no_growth w (markOutgoingForRetransmit now w)" "no_growth w (snd (resend_window now w))"
    "no_growth w (close_window w)"
  using assms window_oldest_get [OF assms]
  by (auto simp: no_growth_def ackOutgoing_eq dropOutgoing_eq removed_def outgoing_broadcast_def
      frame_len_def markOutgoingForRetransmit_def resend_window_def Let_def close_window_def
      gm_get_Some_key split: option.splits)

lemma no_growth_step:
  assumes "window_sys_inv s" and "no_growth (wsWindow s) w'" and "window_inv w'"
  shows "window_sys_inv (s\<lparr>wsWindow := w'\<rparr>)"
  using assms unfolding window_sys_inv_def no_growth_def by auto

lemma addOutgoing_fields:
  assumes "addOutgoing_step now dl seq mid frame w = AddDone w'"
  shows "w' = insert_outgoing now seq mid frame w"
    "maxOutgoingUnackedBytes w' = maxOutgoingUnackedBytes w"
    "set (gm_keys (outgoing w')) = insert seq (set (gm_keys (outgoing w)))"
  using assms by (auto simp: addOutgoing_step_def insert_outgoing_def split: if_splits)

lemma window_step_inv: "window_step s s' \<Longrightarrow> window_sys_inv s \<Longrightarrow> window_sys_inv s'"
proof (induction rule: window_step.induct)
  case (ws_nextSeq s)
  then show ?case by (fastforce simp: window_sys_inv_def)
next
  case (ws_add seq s now dl mid frame w')
  have i: "window_inv w'"
    using addOutgoing_inv [OF ws_add(2)] ws_add(1,3) by (fastforce simp: window_sys_inv_def)
  then show ?case
    using ws_add(1,3) addOutgoing_fields(3) [OF ws_add(2)] by (auto simp: window_sys_inv_def)
qed (simp_all add: no_growth_step no_growth_ops inv_lemmas window_sys_inv_def
      [THEN iffD1, THEN conjunct1])

lemma window_step_bytes:
  assumes "window_step s s'" and "window_sys_inv s"
    and "outgoingBytes (wsWindow s) \<le> maxOutgoingUnackedBytes (wsWindow s)"
    and "maxOutgoingUnackedBytes (wsWindow s) = limit"
  shows "outgoingBytes (wsWindow s') \<le> limit \<and> maxOutgoingUnackedBytes (wsWindow s') = limit"
proof -
  have wi: "window_inv (wsWindow s)" using assms(2) by (simp add: window_sys_inv_def)
  have ng: "outgoingBytes w' \<le> limit \<and> maxOutgoingUnackedBytes w' = limit"
    if "no_growth (wsWindow s) w'" for w'
    using that assms(3,4) by (auto simp: no_growth_def)
  show ?thesis
    using assms(1)
  proof (cases rule: window_step.cases)
    case (ws_add seq now dl mid frame w')
    then show ?thesis
      using addOutgoing_inv(2) [OF ws_add(3)] addOutgoing_fields(2) [OF ws_add(3)] assms(2,4)
      by (fastforce simp: window_sys_inv_def)
  qed (use assms(3,4) in \<open>simp_all add: ng no_growth_ops wi\<close>)
qed

lemma window_reach_inv:
  assumes "window_reach limit s" and "0 \<le> limit"
  shows "window_sys_inv s \<and> outgoingBytes (wsWindow s) \<le> limit
    \<and> maxOutgoingUnackedBytes (wsWindow s) = limit"
  using assms
proof (induction rule: window_reach.induct)
  case wr_init
  then show ?case using new_window_inv [of limit] by (simp add: window_sys_inv_def new_window_def)
next
  case (wr_step s s')
  then show ?case using window_step_inv window_step_bytes by blast
qed

section \<open>Properties\<close>

text \<open>
  C5. In every history of the window, concurrent writers and arbitrary acknowledgements
  included: the byte count is the sum of the frames held and never exceeds the limit, the
  oldest pointer is the least outstanding number (-1 when there is none) although it is
  maintained by a bounded scan, no number is held twice, and the timeout stays between 200 ms
  and 1 s.
\<close>

theorem window_invariant:
  assumes "window_reach limit s" and "0 \<le> limit"
  shows "outgoingBytes (wsWindow s) = gm_sum frame_len (outgoing (wsWindow s))
    \<and> outgoingBytes (wsWindow s) \<le> limit
    \<and> outgoingOldestSeq (wsWindow s) = (if outgoing (wsWindow s) = [] then -1
         else Min (set (gm_keys (outgoing (wsWindow s)))))
    \<and> distinct (gm_keys (outgoing (wsWindow s)))
    \<and> millis 200 \<le> rto (wsWindow s) \<and> rto (wsWindow s) \<le> seconds 1"
  using window_reach_inv [OF assms]
  by (simp add: window_sys_inv_def window_inv_def seq_keys_def gm_ok_def oldest_of_def window_consts)

definition window_example :: window_sys where
  "window_example = \<lparr>wsSeqNum = 2, wsPending = {}, wsWindow =
     insert_outgoing 0 0 7 [3] (insert_outgoing 0 1 8 [1, 2] (new_window 4))\<rparr>"

lemma window_example_reach: "window_reach 4 window_example"
proof -
  let ?w1 = "insert_outgoing 0 1 8 [1, 2] (new_window 4)"
  let ?s0 = "\<lparr>wsSeqNum = 0, wsPending = {}, wsWindow = new_window 4\<rparr>"
  let ?s2 = "\<lparr>wsSeqNum = 2, wsPending = {1, 0}, wsWindow = new_window 4\<rparr>"
  let ?s3 = "\<lparr>wsSeqNum = 2, wsPending = {0}, wsWindow = ?w1\<rparr>"
  have s1: "window_step ?s0 \<lparr>wsSeqNum = 1, wsPending = {0}, wsWindow = new_window 4\<rparr>"
    using ws_nextSeq [of ?s0] by simp
  have s2: "window_step \<lparr>wsSeqNum = 1, wsPending = {0}, wsWindow = new_window 4\<rparr> ?s2"
    using ws_nextSeq [of "\<lparr>wsSeqNum = 1, wsPending = {0}, wsWindow = new_window 4\<rparr>"] by simp
  have s3: "window_step ?s2 ?s3"
    using ws_add [of 1 ?s2 0 None 8 "[1, 2]" ?w1]
    by (simp add: addOutgoing_step_def new_window_def)
  have s4: "window_step ?s3 window_example"
    using ws_add [of 0 ?s3 0 None 7 "[3]" "insert_outgoing 0 0 7 [3] ?w1"]
    by (simp add: addOutgoing_step_def new_window_def insert_outgoing_def window_example_def)
  show ?thesis
    by (rule wr_step [OF wr_step [OF wr_step [OF wr_step [OF wr_init s1] s2] s3] s4])
qed

lemmas window_example_simps = window_example_def insert_outgoing_def new_window_def

theorem window_invariant_witness:
  "outgoingBytes (wsWindow window_example) = 3 \<and> outgoingOldestSeq (wsWindow window_example) = 0"
  using window_invariant [OF window_example_reach] by (simp add: window_example_simps frame_len_def)

text \<open>
  Acknowledgements may arrive in any order, repeatedly, or for frames that were never
  sent: what remains outstanding is exactly what no acknowledgement named by number and
  message identifier together.
\<close>

lemma acks_any_order:
  assumes "window_reach limit s" and "0 \<le> limit"
  shows "window_unacked (fold (\<lambda>(now, seq, mid). ackOutgoing now seq mid) acks (wsWindow s)) seq =
    (case window_unacked (wsWindow s) seq of
       None \<Rightarrow> None
     | Some (mid, f) \<Rightarrow> if (seq, mid) \<in> snd ` set acks then None else Some (mid, f))"
  using aw.rem_all_unacked [of "wsWindow s" acks seq] window_reach_inv [OF assms]
  by (simp add: aw.rem_all_def window_sys_inv_def)

lemma no_keys_no_bytes:
  assumes "window_inv w" and "\<forall>seq. window_unacked w seq = None"
  shows "outgoing w = [] \<and> outgoingBytes w = 0 \<and> outgoingOldestSeq w = -1"
proof -
  have "set (gm_keys (outgoing w)) = {}" using assms(2) by (auto simp: window_unacked_None)
  then have "outgoing w = []" by simp
  then show ?thesis using assms(1) by (simp add: window_inv_def oldest_of_def)
qed

lemma fold_ack_closed:
  "window_inv w \<Longrightarrow>
    outgoingClosed (fold (\<lambda>(now, seq, mid). ackOutgoing now seq mid) acks w) = outgoingClosed w \<and>
    maxOutgoingUnackedBytes (fold (\<lambda>(now, seq, mid). ackOutgoing now seq mid) acks w)
      = maxOutgoingUnackedBytes w"
proof (induction acks arbitrary: w)
  case (Cons a acks)
  obtain now seq mid where a: "a = (now, seq, mid)" by (cases a)
  show ?case
    using Cons.IH [OF ackOutgoing_inv [OF Cons.prems]] Cons.prems
    by (simp add: a ackOutgoing_eq removed_def outgoing_broadcast_def split: option.split)
qed simp



text \<open>One pass on a consistent window that is not empty, and what its bookkeeping leaves alone.\<close>

lemma resend_window_eq:
  assumes "window_inv w" and om: "map_of (outgoing w) (outgoingOldestSeq w) = Some om"
  shows "resend_window now w =
    (if \<not> elapsed_over now (omLastSent om) (resend_rto w om) then (ResendIdle, w)
     else if 60 \<le> omResendCount om
     then (ResendGiveUp (outgoingOldestSeq w),
           w\<lparr>outgoing := gm_put (outgoingOldestSeq w) (om\<lparr>omResendCount := omResendCount om + 1\<rparr>) (outgoing w)\<rparr>)
     else (ResendFrame (outgoingOldestSeq w) (omData om),
           w\<lparr>outgoing := gm_put (outgoingOldestSeq w)
               (om\<lparr>omResendCount := omResendCount om + 1, omLastSent := Some now\<rparr>) (outgoing w)\<rparr>))"
proof -
  have "seq_keys (outgoing w)" using assms(1) by (simp add: window_inv_def)
  then have "outgoingOldestSeq w \<noteq> -1" using seq_key_nonneg [OF _ om] by fastforce
  moreover have "outgoing w \<noteq> []" using om by auto
  ultimately show ?thesis using om by (simp add: resend_window_def Let_def window_consts)
qed

lemma same_frame_unacked:
  assumes "map_of (outgoing w) seq = Some om" "omID om' = omID om" "omData om' = omData om"
  shows "window_unacked (w\<lparr>outgoing := gm_put seq om' (outgoing w)\<rparr>) = window_unacked w"
  using assms by (auto simp: window_unacked_def gm_put_get)

text \<open>
  Retransmission picks the oldest outstanding frame: what one pass writes is the frame
  held under the least number, unchanged, at most 60 times; a pass that writes nothing changes
  nothing (so the branch that repairs an inconsistent pointer is never taken), and no pass
  changes what is outstanding.
\<close>

lemma resend_oldest:
  assumes "window_reach limit s" and "0 \<le> limit"
    and "resend_window now (wsWindow s) = (act, w')"
  shows "window_unacked w' = window_unacked (wsWindow s)
    \<and> (case act of
         ResendIdle \<Rightarrow> w' = wsWindow s
       | ResendFrame seq d \<Rightarrow>
           seq = Min (set (gm_keys (outgoing (wsWindow s))))
           \<and> map_option snd (window_unacked (wsWindow s) seq) = Some d
           \<and> map_option omResendCount (map_of (outgoing w') seq)
             = map_option (\<lambda>om. omResendCount om + 1) (map_of (outgoing (wsWindow s)) seq)
           \<and> (\<forall>om. map_of (outgoing w') seq = Some om \<longrightarrow> omResendCount om \<le> 60)
       | ResendGiveUp seq \<Rightarrow>
           seq = Min (set (gm_keys (outgoing (wsWindow s))))
           \<and> (\<exists>om. map_of (outgoing (wsWindow s)) seq = Some om \<and> omResendCount om \<ge> 60))"
proof (cases "outgoing (wsWindow s) = []")
  case True
  then show ?thesis using assms(3) by (auto simp: resend_window_def)
next
  case False
  let ?w = "wsWindow s"
  have i: "window_inv ?w" using window_reach_inv [OF assms(1,2)] by (simp add: window_sys_inv_def)
  obtain om where om: "map_of (outgoing ?w) (outgoingOldestSeq ?w) = Some om"
    using window_oldest_get [OF i False] by blast
  have mn: "outgoingOldestSeq ?w = Min (set (gm_keys (outgoing ?w)))"
    using i False by (simp add: window_inv_def oldest_of_def)
  have "window_unacked w' = window_unacked ?w"
    using assms(3) by (auto simp: resend_window_eq [OF i om] same_frame_unacked [OF om] split: if_splits)
  then show ?thesis using assms(3) om
    by (auto simp: resend_window_eq [OF i om] window_unacked_def gm_put_get mn [symmetric] split: if_splits)
qed

lemma resend_oldest_witness:
  "\<exists>w'. resend_window (seconds 1) (wsWindow window_example) = (ResendFrame 0 [3], w')
    \<and> window_unacked w' = window_unacked (wsWindow window_example)"
proof -
  have "fst (resend_window (seconds 1) (wsWindow window_example)) = ResendFrame 0 [3]"
    by (simp add: resend_window_def window_example_simps elapsed_over_def resend_rto_def
        window_consts Let_def)
  then obtain w' where w': "resend_window (seconds 1) (wsWindow window_example) = (ResendFrame 0 [3], w')"
    by (cases "resend_window (seconds 1) (wsWindow window_example)") simp
  have "window_unacked w' = window_unacked (wsWindow window_example)"
    by (rule resend_oldest [OF window_example_reach _ w', THEN conjunct1]) simp
  then show ?thesis using w' by blast
qed

end
