(* ===== verification/Receiver.thy ===== *)
theory Receiver
  imports Message
begin

text \<open>
  The incoming side of the protocol adapter (\<open>internal/protocol/adapter.go\<close>): the next expected
  sequence number, the buffer of messages that arrived early, and the pipe into which stream
  bytes are written for \<open>Adapter.Read\<close>.  \<open>deliver\<close> is \<open>handleDataMessage\<close> after its
  acknowledgement has been sent; the acknowledgement is added in theory \<open>Adapter\<close>.

  The pipe is the \<open>net.Pipe\<close> of the standard library: a write hands over all bytes and
  returns when the reader took them, or fails once either end is closed, which the code logs
  and ignores.  \<open>streamOut\<close> is the bytes written so far.

  The specification is order-free: whatever the order and repetition of arrivals, the pipe
  holds the bytes of the consecutive messages from the first expected one on.
\<close>

section \<open>State and operations\<close>

record receiver =
  expectedSeqNum :: int
  incomingMsgBuffer :: "(int, AgentMessage) gomap"
  streamOut :: bytes
  streamClosed :: bool

definition new_receiver :: receiver where
  "new_receiver = \<lparr>expectedSeqNum = 0, incomingMsgBuffer = [], streamOut = [], streamClosed = False\<rparr>"

definition processMessage :: "AgentMessage \<Rightarrow> receiver \<Rightarrow> receiver" where
  "processMessage msg r =
    (if PayloadType (Header msg) \<noteq> PayloadTypeOutput then r
     else if streamClosed r then r
     else r\<lparr>streamOut := streamOut r @ Payload msg\<rparr>)"

lemma processMessage_fields [simp]:
  "expectedSeqNum (processMessage msg r) = expectedSeqNum r"
  "incomingMsgBuffer (processMessage msg r) = incomingMsgBuffer r"
  "streamClosed (processMessage msg r) = streamClosed r"
  by (simp_all add: processMessage_def)

definition incExpected :: "receiver \<Rightarrow> receiver" where
  "incExpected r = r\<lparr>expectedSeqNum := to_i64 (expectedSeqNum r + 1)\<rparr>"

lemma incExpected_fields [simp]:
  "expectedSeqNum (incExpected r) = to_i64 (expectedSeqNum r + 1)"
  "incomingMsgBuffer (incExpected r) = incomingMsgBuffer r"
  "streamOut (incExpected r) = streamOut r"
  "streamClosed (incExpected r) = streamClosed r"
  by (simp_all add: incExpected_def)

text \<open>Each round takes a message out of the buffer, so the loop ends.\<close>

function processBufferedMessages :: "receiver \<Rightarrow> receiver" where
  "processBufferedMessages r =
    (case map_of (incomingMsgBuffer r) (expectedSeqNum r) of
       None \<Rightarrow> r
     | Some msg \<Rightarrow>
         let r1 = r\<lparr>incomingMsgBuffer := gm_del (expectedSeqNum r) (incomingMsgBuffer r)\<rparr>
         in processBufferedMessages (incExpected (processMessage msg r1)))"
  by auto

termination
  by (relation "measure (\<lambda>r. length (incomingMsgBuffer r))") (auto intro: length_gm_del_less)

declare processBufferedMessages.simps [simp del]

lemma processBuffered_None:
  "map_of (incomingMsgBuffer r) (expectedSeqNum r) = None \<Longrightarrow> processBufferedMessages r = r"
  by (simp add: processBufferedMessages.simps)

lemma processBuffered_Some:
  "map_of (incomingMsgBuffer r) (expectedSeqNum r) = Some msg \<Longrightarrow>
   processBufferedMessages r = processBufferedMessages (incExpected (processMessage msg
     (r\<lparr>incomingMsgBuffer := gm_del (expectedSeqNum r) (incomingMsgBuffer r)\<rparr>)))"
  by (subst processBufferedMessages.simps) simp

definition deliver :: "AgentMessage \<Rightarrow> receiver \<Rightarrow> receiver" where
  "deliver msg r =
    (let seq = seq_of msg in
     if seq = expectedSeqNum r then processBufferedMessages (incExpected (processMessage msg r))
     else if seq > expectedSeqNum r
     then r\<lparr>incomingMsgBuffer := gm_put seq msg (incomingMsgBuffer r)\<rparr>
     else r)"

definition updateExpectedSeqNum :: "AgentMessage \<Rightarrow> receiver \<Rightarrow> receiver" where
  "updateExpectedSeqNum msg r = r\<lparr>expectedSeqNum := to_i64 (seq_of msg + 1)\<rparr>"

section \<open>Reordering\<close>

text \<open>The bytes a message adds to the stream: control payloads add none.\<close>

definition stream_bytes :: "AgentMessage \<Rightarrow> bytes" where
  "stream_bytes msg = (if PayloadType (Header msg) = PayloadTypeOutput then Payload msg else [])"

text \<open>
  The reordering invariant, for the set \<open>S\<close> of numbers seen so far and the bytes \<open>g k\<close> that
  number \<open>k\<close> stands for.  In \<open>pending_inv\<close> the expected message may itself be buffered, as it
  is while the buffer is being drained.
\<close>

definition pending_inv :: "int \<Rightarrow> bytes \<Rightarrow> (int \<Rightarrow> bytes) \<Rightarrow> int set \<Rightarrow> receiver \<Rightarrow> bool" where
  "pending_inv e0 out0 g S r \<longleftrightarrow>
     e0 \<le> expectedSeqNum r \<and> {e0..<expectedSeqNum r} \<subseteq> S
     \<and> gm_ok (incomingMsgBuffer r)
     \<and> set (gm_keys (incomingMsgBuffer r)) = {k \<in> S. expectedSeqNum r \<le> k}
     \<and> (\<forall>k msg. map_of (incomingMsgBuffer r) k = Some msg \<longrightarrow> stream_bytes msg = g k)
     \<and> streamOut r = out0 @ concat (map g [e0..expectedSeqNum r - 1])
     \<and> \<not> streamClosed r"

definition reorder_inv :: "int \<Rightarrow> bytes \<Rightarrow> (int \<Rightarrow> bytes) \<Rightarrow> int set \<Rightarrow> receiver \<Rightarrow> bool" where
  "reorder_inv e0 out0 g S r \<longleftrightarrow> pending_inv e0 out0 g S r \<and> expectedSeqNum r \<notin> S"

lemma processMessage_out:
  "\<not> streamClosed r \<Longrightarrow> streamOut (processMessage msg r) = streamOut r @ stream_bytes msg"
  by (simp add: processMessage_def stream_bytes_def)

lemma upto_snoc: "e0 \<le> (e :: int) \<Longrightarrow> [e0..e] = [e0..e - 1] @ [e]"
  by (rule upto_rec2)

lemma pending_advance:
  assumes "e0 \<le> e" and "{e0..<e} \<subseteq> S" and "e \<in> S" and "\<not> streamClosed r"
    and "streamOut r = out0 @ concat (map g [e0..e - 1])" and "stream_bytes msg = g e"
    and "gm_ok (incomingMsgBuffer r)" and "expectedSeqNum r = e" and "to_i64 (e + 1) = e + 1"
    and "set (gm_keys (incomingMsgBuffer r)) = {k \<in> S. e + 1 \<le> k}"
    and "\<forall>k m. map_of (incomingMsgBuffer r) k = Some m \<longrightarrow> stream_bytes m = g k"
  shows "pending_inv e0 out0 g S (incExpected (processMessage msg r))"
proof -
  have "{e0..<e + 1} = insert e {e0..<e}" using assms(1) by auto
  then show ?thesis
    using assms by (simp add: pending_inv_def processMessage_out upto_snoc)
qed

lemma processBufferedMessages_inv:
  assumes "pending_inv e0 out0 g S r" and "is_i64 e0" and "\<forall>k \<in> S. k < max_i64"
  shows "reorder_inv e0 out0 g S (processBufferedMessages r)"
  using assms(1)
proof (induction r rule: processBufferedMessages.induct)
  case (1 r)
  let ?e = "expectedSeqNum r"
  note inv = 1(2) [unfolded pending_inv_def]
  show ?case
  proof (cases "map_of (incomingMsgBuffer r) ?e")
    case None
    then have "?e \<notin> S" using inv by (auto simp: gm_get_None_iff)
    then show ?thesis
      using None 1(2) by (simp add: processBufferedMessages.simps [of r] reorder_inv_def)
  next
    case (Some msg)
    then have eS: "?e \<in> S" using inv by (auto dest: gm_get_Some_key)
    then have "to_i64 (?e + 1) = ?e + 1"
      using inv assms(2,3) by (auto intro!: to_i64_id simp: is_i64_def)
    then have "pending_inv e0 out0 g S (incExpected (processMessage msg
        (r\<lparr>incomingMsgBuffer := gm_del ?e (incomingMsgBuffer r)\<rparr>)))"
      using inv eS Some by (intro pending_advance [of e0 ?e]) (auto simp: gm_del_get)
    then show ?thesis
      using 1(1) [OF Some refl] Some by (simp add: processBufferedMessages.simps [of r])
  qed
qed

lemma deliver_inv:
  assumes "reorder_inv e0 out0 g S r" and "is_i64 e0"
    and "\<forall>k \<in> insert (seq_of msg) S. k < max_i64" and "stream_bytes msg = g (seq_of msg)"
  shows "reorder_inv e0 out0 g (insert (seq_of msg) S) (deliver msg r)"
proof -
  let ?e = "expectedSeqNum r" and ?k = "seq_of msg" and ?S = "insert (seq_of msg) S"
  note inv = assms(1) [unfolded reorder_inv_def pending_inv_def]
  consider "?k = ?e" | "?e < ?k" | "?k < ?e" by linarith
  then show ?thesis
  proof cases
    case 1
    have "to_i64 (?e + 1) = ?e + 1"
      using 1 inv assms(2,3) by (auto intro!: to_i64_id simp: is_i64_def)
    then have "pending_inv e0 out0 g ?S (incExpected (processMessage msg r))"
      using inv assms(4) 1 by (intro pending_advance [of e0 ?e]) (auto simp: order_le_less)
    then show ?thesis
      using processBufferedMessages_inv assms(2,3) 1 by (simp add: deliver_def)
  next
    case 2
    then show ?thesis
      using inv assms(4) by (auto simp: deliver_def reorder_inv_def pending_inv_def gm_put_get)
  next
    case 3
    then show ?thesis
      using inv by (auto simp: deliver_def reorder_inv_def pending_inv_def)
  qed
qed

lemma deliver_all_inv:
  assumes "is_i64 e0" and "\<forall>msg \<in> set ms. stream_bytes msg = g (seq_of msg) \<and> seq_of msg < max_i64"
    and "reorder_inv e0 out0 g S r" and "\<forall>k \<in> S. k < max_i64"
  shows "reorder_inv e0 out0 g (seq_of ` set ms \<union> S) (fold deliver ms r)"
  using assms(2-4)
proof (induction ms arbitrary: r S)
  case (Cons m ms)
  have "reorder_inv e0 out0 g (insert (seq_of m) S) (deliver m r)"
    using Cons.prems assms(1) by (intro deliver_inv) auto
  then have "reorder_inv e0 out0 g (seq_of ` set ms \<union> insert (seq_of m) S) (fold deliver ms (deliver m r))"
    using Cons.prems by (intro Cons.IH) auto
  then show ?case by simp
qed simp

definition fresh_receiver :: "int \<Rightarrow> bytes \<Rightarrow> receiver \<Rightarrow> bool" where
  "fresh_receiver e0 out0 r \<longleftrightarrow> expectedSeqNum r = e0 \<and> incomingMsgBuffer r = []
     \<and> streamOut r = out0 \<and> \<not> streamClosed r"

lemma fresh_reorder_inv: "fresh_receiver e0 out0 r \<Longrightarrow> reorder_inv e0 out0 g {} r"
  by (simp add: fresh_receiver_def reorder_inv_def pending_inv_def)

lemma new_receiver_fresh [simp]: "fresh_receiver 0 [] new_receiver"
  by (simp add: fresh_receiver_def new_receiver_def)

section \<open>Properties\<close>

text \<open>
  C4. Reordering is correct: after any arrivals, in any order and with any repetitions, the
  stream has gained exactly the bytes of the messages from the first expected number up to the
  first number not yet received, each once and in order; the next expected number is that
  missing one, and the buffer holds exactly the numbers received beyond it.
\<close>

theorem deliver_in_order:
  assumes "is_i64 e0" and "fresh_receiver e0 out0 r"
    and "\<forall>msg \<in> set ms. stream_bytes msg = g (seq_of msg) \<and> seq_of msg < max_i64"
  defines "r' \<equiv> fold deliver ms r"
  shows "streamOut r' = out0 @ concat (map g [e0..expectedSeqNum r' - 1])
    \<and> {e0..<expectedSeqNum r'} \<subseteq> seq_of ` set ms \<and> expectedSeqNum r' \<notin> seq_of ` set ms
    \<and> set (gm_keys (incomingMsgBuffer r')) = {k \<in> seq_of ` set ms. expectedSeqNum r' < k}"
proof -
  have "reorder_inv e0 out0 g (seq_of ` set ms \<union> {}) r'"
    unfolding r'_def
    by (rule deliver_all_inv [OF assms(1,3) fresh_reorder_inv [OF assms(2)]]) simp
  then show ?thesis
    by (auto simp: reorder_inv_def pending_inv_def order_le_less)
qed

definition test_msg :: "int \<Rightarrow> bytes \<Rightarrow> AgentMessage" where
  "test_msg k bs = \<lparr>Header = \<lparr>HeaderLength = 116, MessageType = MsgTypeOutputStreamData,
     SchemaVersion = 1, CreatedDate = 0, SequenceNumber = word_of_int k, Flags = 0,
     MessageId = word_of_int (k + 1), PayloadDigest = 0, PayloadType = PayloadTypeOutput,
     PayloadLength = word_of_nat (length bs)\<rparr>, Payload = bs\<rparr>"

lemma test_msg_simps:
  "stream_bytes (test_msg k bs) = bs" "seq_of (test_msg k bs) = sint (word_of_int k :: u64)"
  by (simp_all add: test_msg_def stream_bytes_def seq_of_def)

text \<open>Three messages that arrive as 4, 3, 4, 6, 3 on a receiver that expects 3.\<close>

theorem deliver_in_order_witness:
  "streamOut (fold deliver
      [test_msg 4 [9], test_msg 3 [7, 8], test_msg 4 [9], test_msg 6 [1], test_msg 3 [7, 8]]
      (new_receiver\<lparr>expectedSeqNum := 3\<rparr>)) = [7, 8, 9]"
proof -
  let ?ms = "[test_msg 4 [9], test_msg 3 [7, 8], test_msg 4 [9], test_msg 6 [1], test_msg 3 [7, 8]]"
  let ?g = "\<lambda>k. if k = 3 then [7, 8] else if k = 4 then [9] else [1]"
  let ?r = "fold deliver ?ms (new_receiver\<lparr>expectedSeqNum := 3\<rparr>)"
  have p: "streamOut ?r = [] @ concat (map ?g [3..expectedSeqNum ?r - 1])
    \<and> {3..<expectedSeqNum ?r} \<subseteq> seq_of ` set ?ms \<and> expectedSeqNum ?r \<notin> seq_of ` set ?ms
    \<and> set (gm_keys (incomingMsgBuffer ?r)) = {k \<in> seq_of ` set ?ms. expectedSeqNum ?r < k}"
    by (rule deliver_in_order)
      (simp_all add: is_i64_def fresh_receiver_def new_receiver_def test_msg_simps)
  have "expectedSeqNum ?r = 5"
    by (simp add: deliver_def Let_def test_msg_simps new_receiver_def processBuffered_None
        processBuffered_Some to_i64_def)
  then show ?thesis using p by (simp add: upto.simps)
qed

text \<open>
  Order independence: two arrival sequences of the same messages leave the same stream,
  the same expected number and the same set of buffered numbers.
\<close>

lemma deliver_order_independent:
  assumes "is_i64 (expectedSeqNum r)" and "incomingMsgBuffer r = []" and "\<not> streamClosed r"
    and "\<forall>msg \<in> set ms. stream_bytes msg = g (seq_of msg) \<and> seq_of msg < max_i64"
    and "set ms' = set ms"
  shows "streamOut (fold deliver ms' r) = streamOut (fold deliver ms r)
    \<and> expectedSeqNum (fold deliver ms' r) = expectedSeqNum (fold deliver ms r)
    \<and> set (gm_keys (incomingMsgBuffer (fold deliver ms' r)))
      = set (gm_keys (incomingMsgBuffer (fold deliver ms r)))"
proof -
  let ?e0 = "expectedSeqNum r" and ?S = "seq_of ` set ms"
  have f: "reorder_inv ?e0 (streamOut r) g {} r"
    using assms(2,3) by (intro fresh_reorder_inv) (simp add: fresh_receiver_def)
  have i: "reorder_inv ?e0 (streamOut r) g (?S \<union> {}) (fold deliver ms r)"
    by (rule deliver_all_inv [OF assms(1,4) f]) simp
  have i': "reorder_inv ?e0 (streamOut r) g (?S \<union> {}) (fold deliver ms' r)"
    using deliver_all_inv [OF assms(1) _ f, of ms'] assms(4,5) by simp
  have e: "expectedSeqNum (fold deliver ms' r) = expectedSeqNum (fold deliver ms r)"
    using i i' unfolding reorder_inv_def pending_inv_def
    by (metis atLeastLessThan_iff linorder_neqE subset_iff sup_bot_right)
  then show ?thesis using i i' by (simp add: reorder_inv_def pending_inv_def)
qed

text \<open>
  The handshake path skips the buffer: when a data message arrives before the handshake
  message that precedes it, moving the expected number past the handshake message leaves that
  data message in the buffer although it is now the expected one, and the stream unchanged;
  every later message is then buffered behind it.
\<close>

lemma handshake_strands_buffered:
  assumes "expectedSeqNum r \<le> seq_of hs" and "seq_of early = seq_of hs + 1"
    and "seq_of later = seq_of hs + 2" and "seq_of later \<le> max_i64"
    and "incomingMsgBuffer r = []" and "is_i64 (expectedSeqNum r)"
  defines "r' \<equiv> deliver later (updateExpectedSeqNum hs (deliver early r))"
  shows "streamOut r' = streamOut r \<and> expectedSeqNum r' = seq_of early
    \<and> map_of (incomingMsgBuffer r') (expectedSeqNum r') = Some early
    \<and> map_of (incomingMsgBuffer r') (seq_of later) = Some later"
proof -
  have "to_i64 (seq_of hs + 1) = seq_of hs + 1"
    using assms(1-4,6) by (intro to_i64_id) (auto simp: is_i64_def)
  then show ?thesis
    using assms(1-3,5) unfolding r'_def
    by (simp add: deliver_def updateExpectedSeqNum_def gm_put_get)
qed

lemma handshake_strands_buffered_witness:
  "streamOut (deliver (test_msg 3 [2]) (updateExpectedSeqNum (test_msg 1 [])
     (deliver (test_msg 2 [1]) (new_receiver\<lparr>expectedSeqNum := 1\<rparr>)))) = []"
  using handshake_strands_buffered [of "new_receiver\<lparr>expectedSeqNum := 1\<rparr>" "test_msg 1 []"
      "test_msg 2 [1]" "test_msg 3 [2]"]
  by (simp add: test_msg_simps new_receiver_def is_i64_def)

end
