(* ===== verification/Seen.thy ===== *)
theory Seen
  imports Message
begin

text \<open>
  Message deduplication of the protocol adapter (\<open>markMessageSeen\<close> in
  \<open>internal/protocol/adapter.go\<close>): a map from message identifiers to sequence numbers that
  is meant to hold at most 1000 entries by evicting the one with the lowest number.
\<close>

type_synonym seen = "(uuid, int) gomap"

definition maxSeenMsgIds :: nat where
  "maxSeenMsgIds = 1000"

text \<open>The eviction loop: the identifier starts as the zero value, the number as the largest.\<close>

fun oldest_id_loop :: "uuid \<Rightarrow> int \<Rightarrow> seen \<Rightarrow> uuid" where
  "oldest_id_loop oid oseq [] = oid"
| "oldest_id_loop oid oseq ((k, v) # m) =
     (if v < oseq then oldest_id_loop k v m else oldest_id_loop oid oseq m)"

definition evict_seen :: "seen \<Rightarrow> seen" where
  "evict_seen m = (if maxSeenMsgIds \<le> length m then gm_del (oldest_id_loop 0 max_i64 m) m else m)"

definition markMessageSeen :: "uuid \<Rightarrow> int \<Rightarrow> seen \<Rightarrow> bool \<times> seen" where
  "markMessageSeen mid seq m =
    (if map_of m mid \<noteq> None then (True, m) else (False, gm_put mid seq (evict_seen m)))"

definition mark_all :: "(uuid \<times> int) list \<Rightarrow> seen \<Rightarrow> seen" where
  "mark_all ms m = fold (\<lambda>(mid, seq) m. snd (markMessageSeen mid seq m)) ms m"

lemma mark_all_simps [simp]:
  "mark_all [] m = m"
  "mark_all ((mid, seq) # ms) m = mark_all ms (snd (markMessageSeen mid seq m))"
  by (simp_all add: mark_all_def)

lemma mark_all_append: "mark_all (ms @ ms') m = mark_all ms' (mark_all ms m)"
  by (simp add: mark_all_def)

section \<open>The evicted entry\<close>

text \<open>The loop returns an entry of least number, unless every number is the start value.\<close>

lemma oldest_id_loop_cases:
  "(oldest_id_loop oid oseq m = oid \<and> (\<forall>v \<in> snd ` set m. oseq \<le> v)) \<or>
   (\<exists>v. (oldest_id_loop oid oseq m, v) \<in> set m \<and> v < oseq \<and> (\<forall>v' \<in> snd ` set m. v \<le> v'))"
proof (induction oid oseq m rule: oldest_id_loop.induct)
  case (2 oid oseq k v m)
  show ?case
  proof (cases "v < oseq")
    case True
    then show ?thesis using 2(1) [OF True] by (simp, elim disjE exE conjE) (auto intro: less_imp_le)
  next
    case False
    then show ?thesis using 2(2) [OF False] by (simp, elim disjE exE conjE) auto
  qed
qed simp

lemma oldest_id_loop_min:
  assumes "m \<noteq> []" and "\<forall>v \<in> snd ` set m. v < oseq"
  shows "\<exists>v. (oldest_id_loop oid oseq m, v) \<in> set m \<and> (\<forall>v' \<in> snd ` set m. v \<le> v')"
  using oldest_id_loop_cases [of oid oseq m] assms by (cases m) auto

lemma evict_seen_length:
  assumes "gm_ok m" and "\<forall>v \<in> snd ` set m. v < max_i64" and "length m \<le> maxSeenMsgIds"
  shows "length (evict_seen m) < maxSeenMsgIds"
proof (cases "maxSeenMsgIds \<le> length m")
  case True
  then have "m \<noteq> []" by (auto simp: maxSeenMsgIds_def)
  then obtain v where "(oldest_id_loop 0 max_i64 m, v) \<in> set m"
    using oldest_id_loop_min assms(2) by blast
  then have "oldest_id_loop 0 max_i64 m \<in> set (gm_keys m)" by (force simp: gm_keys_def)
  then show ?thesis
    using True assms(1,3) by (simp add: evict_seen_def length_gm_del maxSeenMsgIds_def)
qed (use assms(3) in \<open>simp add: evict_seen_def\<close>)

lemma evict_seen_ok [simp]: "gm_ok m \<Longrightarrow> gm_ok (evict_seen m)"
  by (simp add: evict_seen_def)

lemma set_gm_del_subset: "set (gm_del k m) \<subseteq> set m"
  by (simp add: AList.delete_eq)

lemma set_gm_put_subset: "set (gm_put k v m) \<subseteq> insert (k, v) (set m)"
  by (induction m) auto

lemma set_evict_seen_subset: "set (evict_seen m) \<subseteq> set m"
  by (simp add: evict_seen_def set_gm_del_subset)

lemma markMessageSeen_values:
  "snd ` set (snd (markMessageSeen mid seq m)) \<subseteq> insert seq (snd ` set m)"
proof -
  have "set (gm_put mid seq (evict_seen m)) \<subseteq> insert (mid, seq) (set m)"
    by (rule subset_trans [OF set_gm_put_subset insert_mono [OF set_evict_seen_subset]])
  then have "snd ` set (gm_put mid seq (evict_seen m)) \<subseteq> snd ` insert (mid, seq) (set m)"
    by (rule image_mono)
  then show ?thesis
    by (cases "map_of m mid") (simp_all add: markMessageSeen_def subset_insertI)
qed

lemma markMessageSeen_inv:
  fixes mid :: uuid
  assumes "gm_ok m" and "length m \<le> maxSeenMsgIds" and "\<forall>v \<in> snd ` set m. v < max_i64"
    and "seq < max_i64"
  defines "m' \<equiv> snd (markMessageSeen mid seq m)"
  shows "gm_ok m'" "length m' \<le> maxSeenMsgIds" "\<forall>v \<in> snd ` set m'. v < max_i64"
    "map_of m' mid \<noteq> None"
proof -
  show "gm_ok m'" using assms(1) by (simp add: m'_def markMessageSeen_def)
  show "length m' \<le> maxSeenMsgIds"
    using evict_seen_length [OF assms(1,3,2)] assms(2)
    by (simp add: m'_def markMessageSeen_def length_gm_put)
  show "\<forall>v \<in> snd ` set m'. v < max_i64"
    using markMessageSeen_values [of mid seq m] assms(3,4) unfolding m'_def by blast
  show "map_of m' mid \<noteq> None" by (simp add: m'_def markMessageSeen_def gm_put_get)
qed

lemma mark_all_inv:
  assumes "gm_ok m" and "length m \<le> maxSeenMsgIds" and "\<forall>v \<in> snd ` set m. v < max_i64"
    and "\<forall>(mid, seq) \<in> set ms. seq < max_i64"
  shows "gm_ok (mark_all ms m) \<and> length (mark_all ms m) \<le> maxSeenMsgIds
    \<and> (\<forall>v \<in> snd ` set (mark_all ms m). v < max_i64)"
  using assms
proof (induction ms arbitrary: m)
  case (Cons p ms)
  obtain mid seq where p: "p = (mid, seq)" by (cases p)
  show ?case
    using Cons.IH [OF markMessageSeen_inv(1-3) [of m seq mid]] Cons.prems by (simp add: p)
qed simp

section \<open>Properties\<close>

text \<open>
  The duplicate filter stays within its 1000 entries and always remembers the message just
  marked, so an immediate retransmission is reported as a duplicate, for every history of
  sequence numbers below the largest \<open>int64\<close>.
\<close>

lemma seen_bounded:
  assumes "\<forall>(mid, seq) \<in> set ms. seq < max_i64" and "seq < max_i64"
  shows "length (mark_all (ms @ [(mid, seq)]) []) \<le> 1000
    \<and> fst (markMessageSeen mid seq' (mark_all (ms @ [(mid, seq)]) []))"
proof -
  let ?m = "mark_all ms []"
  have i: "gm_ok ?m \<and> length ?m \<le> maxSeenMsgIds \<and> (\<forall>v \<in> snd ` set ?m. v < max_i64)"
    by (rule mark_all_inv) (use assms(1) in \<open>simp_all add: maxSeenMsgIds_def\<close>)
  then have "length (snd (markMessageSeen mid seq ?m)) \<le> maxSeenMsgIds"
    and "map_of (snd (markMessageSeen mid seq ?m)) mid \<noteq> None"
    using markMessageSeen_inv(2,4) [of ?m seq mid] assms(2) by blast+
  then show ?thesis
    by (simp add: mark_all_append markMessageSeen_def [of mid seq'] maxSeenMsgIds_def)
qed

lemma seen_bounded_witness:
  "fst (markMessageSeen 5 3 (mark_all ([(4, 2), (5, 3)] @ [(5, 3)]) []))"
  using seen_bounded [of "[(4, 2), (5, 3)]" 3 5 3] by simp

text \<open>
  The bound depends on the numbers the peer sends: if every message carries the largest
  \<open>int64\<close> as its number, the eviction loop never selects an entry, and the map grows by one
  entry per message without limit.
\<close>

lemma seen_unbounded:
  assumes "distinct ids" and "0 \<notin> set ids"
  shows "length (mark_all (map (\<lambda>i. (i, max_i64)) ids) []) = length ids"
proof -
  have "length (mark_all (map (\<lambda>i. (i, max_i64)) ids) m) = length m + length ids"
    if "snd ` set m \<subseteq> {max_i64}" and "set (gm_keys m) \<inter> set ids = {}" and "0 \<notin> set (gm_keys m)" for m
    using that assms
  proof (induction ids arbitrary: m)
    case (Cons i ids)
    have "oldest_id_loop 0 max_i64 m = 0"
      using oldest_id_loop_cases [of 0 max_i64 m] Cons.prems(1) by fastforce
    then have ev: "evict_seen m = m"
      using Cons.prems(3) by (simp add: evict_seen_def gm_del_absent)
    have new: "map_of m i = None" using Cons.prems(2) by (auto simp: gm_get_None_iff)
    let ?m = "gm_put i max_i64 m"
    have "snd ` set ?m \<subseteq> {max_i64}" using set_gm_put_subset [of i max_i64 m] Cons.prems(1) by force
    then have "length (mark_all (map (\<lambda>i. (i, max_i64)) ids) ?m) = length ?m + length ids"
      using Cons.prems(2-5) by (intro Cons.IH) auto
    moreover have "length ?m = Suc (length m)"
      using new by (simp add: length_gm_put gm_get_None_iff)
    ultimately show ?case by (simp add: markMessageSeen_def new ev)
  qed simp
  from this [of "[]"] show ?thesis by simp
qed

lemma unat_uuid_Suc: "i < 5000 \<Longrightarrow> unat (word_of_nat (Suc i) :: uuid) = Suc i"
  by (simp add: unat_of_nat del: of_nat_Suc)

theorem seen_unbounded_witness: "\<exists>ms. length ms = 5000 \<and> length (mark_all ms []) = 5000"
proof -
  let ?ids = "map (\<lambda>i. word_of_nat (Suc i) :: uuid) [0..<5000]"
  have "inj_on (\<lambda>i. word_of_nat (Suc i) :: uuid) (set [0..<5000])"
    by (rule inj_onI) (metis unat_uuid_Suc Suc_inject atLeastLessThan_iff set_upt)
  then have "distinct ?ids" by (simp only: distinct_map distinct_upt simp_thms)
  moreover have "(word_of_nat (Suc i) :: uuid) \<noteq> 0" if "i < 5000" for i
    using unat_uuid_Suc [OF that] by (metis nat.distinct(1) unsigned_0)
  then have "0 \<notin> set ?ids" by (force simp del: of_nat_Suc)
  ultimately have "length (mark_all (map (\<lambda>i. (i, max_i64)) ?ids) []) = length ?ids"
    by (rule seen_unbounded)
  then show ?thesis by (intro exI [of _ "map (\<lambda>i. (i, max_i64)) ?ids"]) simp
qed

end
