(* ===== verification/Adapter.thy ===== *)
theory Adapter
  imports Window Receiver Seen
begin

text \<open>
  The state of the protocol adapter and its atomic operations (\<open>internal/protocol/adapter.go\<close>
  and \<open>adapter_resume.go\<close>): construction, lifecycle, publication control, deadlines, and the
  WebSocket generations.  The reliability window, the receiver and the duplicate filter are
  the records of the theories \<open>Window\<close>, \<open>Receiver\<close> and \<open>Seen\<close>.

  A channel that is only ever closed is a number; \<open>closedChans\<close> holds the closed ones.  A
  WebSocket is a number too; \<open>closedConns\<close> holds those the adapter closed, and \<open>sent\<close> logs
  every frame written with the WebSocket it went to.  Mutexes have no counterpart: each
  definition here is a critical section, and theory \<open>AdapterIO\<close> says where goroutines
  interleave.
\<close>

section \<open>Constants\<close>

definition defaultStreamChunkSize :: int where "defaultStreamChunkSize = 1024"
definition minStreamChunkSize :: int where "minStreamChunkSize = 256"
definition maxStreamChunkSize :: int where "maxStreamChunkSize = 1024"
definition minMaxOutgoingUnackedBytes :: int where "minMaxOutgoingUnackedBytes = 64 * 1024"
definition maxMaxOutgoingUnackedBytes :: int where "maxMaxOutgoingUnackedBytes = 1024 * 1024 * 1024"
definition maxPauseTime :: nanos where "maxPauseTime = seconds 45"
definition writeWait :: nanos where "writeWait = seconds 10"
definition defaultResumeBudget :: nanos where "defaultResumeBudget = seconds 90"
definition ClientVersion :: string where "ClientVersion = ''1.2.0.0''"

lemmas adapter_consts = defaultStreamChunkSize_def minStreamChunkSize_def maxStreamChunkSize_def
  minMaxOutgoingUnackedBytes_def maxMaxOutgoingUnackedBytes_def maxPauseTime_def writeWait_def
  defaultResumeBudget_def

definition errAdapterClosedBeforeHandshake :: go_error where
  "errAdapterClosedBeforeHandshake = OtherError ''adapter closed before handshake completed''"
definition errChannelClosedByRemote :: go_error where
  "errChannelClosedByRemote = OtherError ''channel closed by remote''"
definition errPausePublicationTimedOut :: go_error where
  "errPausePublicationTimedOut = OtherError ''pause_publication exceeded limit''"
definition errResendAttemptsExceeded :: go_error where
  "errResendAttemptsExceeded = OtherError ''retransmission attempts exceeded limit''"
definition errResumeBudgetExhausted :: go_error where
  "errResumeBudgetExhausted = OtherError ''websocket resume budget exhausted''"
definition errStaleConn :: go_error where
  "errStaleConn = OtherError ''stale websocket generation''"

section \<open>State\<close>

type_synonym chan = nat
type_synonym ws = nat

text \<open>
  Where the goroutine of \<open>reconnectLoop\<close> is: not started or finished, asking for credentials
  and dialling until a deadline, or done installing a WebSocket and about to run its deferred
  function.
\<close>

datatype resume_loop = RLIdle | RLDialing nanos | RLInstalled

record adapter =
  conn :: "ws option"
  connGen :: nat
  closedConns :: "ws list"
  sent :: "(ws \<times> bytes) list"
  connWriteDeadline :: "nanos option"
  closedChans :: "chan list"
  nextChan :: chan
  seqNum :: int
  resumeFuncSet :: bool
  resumeDisabled :: bool
  resumeBudget :: nanos
  reconnecting :: bool
  reconnectGate :: "chan option"
  writeDeadline :: "nanos option"
  chunkSize :: int
  paused :: bool
  pauseCh :: "chan option"
  pausedSince :: "nanos option"
  win :: window
  rcv :: receiver
  handshakeComplete :: bool
  handshakeResponded :: bool
  lastHandshakeResponse :: "AgentMessage option"
  seenMsgIds :: seen
  doneClosed :: bool
  closeReason :: "go_error option"
  lastInboundUnixNano :: nanos
  clientId :: string
  opened :: "(ws \<times> bytes) list"
  resumeLoop :: resume_loop

text \<open>
  \<open>NewAdapter\<close>: the environment is the four variables it reads (\<open>strconv.ParseInt\<close> is
  \<open>parse_int64\<close>, which is also \<open>strconv.Atoi\<close> on a 64-bit platform; \<open>parse_duration\<close> is
  \<open>time.ParseDuration\<close>), the options are whether \<open>WithResume\<close> was given, \<open>dialed\<close> and
  \<open>openErr\<close> are the results of the dial and of writing the opening text frame.
\<close>

definition env_chunk_size :: "string \<Rightarrow> int" where
  "env_chunk_size v =
    (if v = [] then defaultStreamChunkSize
     else case parse_int64 v of
       Some n \<Rightarrow> if minStreamChunkSize \<le> n \<and> n \<le> maxStreamChunkSize then n
                 else defaultStreamChunkSize
     | None \<Rightarrow> defaultStreamChunkSize)"

definition env_max_unacked :: "string \<Rightarrow> int" where
  "env_max_unacked v =
    (if v = [] then defaultMaxOutgoingUnackedBytes
     else case parse_int64 v of
       Some n \<Rightarrow> if minMaxOutgoingUnackedBytes \<le> n \<and> n \<le> maxMaxOutgoingUnackedBytes then n
                 else defaultMaxOutgoingUnackedBytes
     | None \<Rightarrow> defaultMaxOutgoingUnackedBytes)"

definition env_resume_budget :: "(string \<Rightarrow> nanos option) \<Rightarrow> string \<Rightarrow> nanos" where
  "env_resume_budget parse_duration v =
    (if v = [] then defaultResumeBudget
     else case parse_duration v of
       Some d \<Rightarrow> if d > 0 then d else defaultResumeBudget
     | None \<Rightarrow> defaultResumeBudget)"

record adapter_env =
  envChunkSize :: string
  envMaxUnacked :: string
  envResumeBudget :: string
  envResume :: string

definition open_data_channel :: "string \<Rightarrow> string \<Rightarrow> string \<Rightarrow> bytes" where
  "open_data_channel clientid requestId token =
    json_marshal (JObj
      [(str_bytes ''ClientId'', JStr (str_bytes clientid)),
       (str_bytes ''ClientVersion'', JStr (str_bytes ClientVersion)),
       (str_bytes ''MessageSchemaVersion'', JStr (str_bytes ''1.0'')),
       (str_bytes ''RequestId'', JStr (str_bytes requestId)),
       (str_bytes ''TokenValue'', JStr (str_bytes token))]) @ [10]"

definition initial_adapter ::
    "(string \<Rightarrow> nanos option) \<Rightarrow> adapter_env \<Rightarrow> bool \<Rightarrow> string \<Rightarrow> ws \<Rightarrow> adapter" where
  "initial_adapter parse_duration env withResume clientid c =
    \<lparr>conn = Some c, connGen = 1, closedConns = [], sent = [], connWriteDeadline = None,
     closedChans = [], nextChan = 0, seqNum = 0, resumeFuncSet = withResume,
     resumeDisabled = (envResume env = ''off''),
     resumeBudget = env_resume_budget parse_duration (envResumeBudget env),
     reconnecting = False, reconnectGate = None, writeDeadline = None,
     chunkSize = env_chunk_size (envChunkSize env),
     paused = False, pauseCh = None, pausedSince = None,
     win = new_window (env_max_unacked (envMaxUnacked env)), rcv = new_receiver,
     handshakeComplete = False, handshakeResponded = False, lastHandshakeResponse = None,
     seenMsgIds = [], doneClosed = False, closeReason = None, lastInboundUnixNano = 0,
     clientId = clientid, opened = [], resumeLoop = RLIdle\<rparr>"

definition NewAdapter ::
    "(string \<Rightarrow> nanos option) \<Rightarrow> adapter_env \<Rightarrow> bool \<Rightarrow> go_error + ws \<Rightarrow> go_error option
     \<Rightarrow> string \<Rightarrow> string \<Rightarrow> string \<Rightarrow> adapter outcome" where
  "NewAdapter parse_duration env withResume dialed openErr clientid requestId token =
    (case dialed of
       Inl e \<Rightarrow> Fail (Wrapped ''websocket dial failed: '' [e])
     | Inr c \<Rightarrow>
         (case openErr of
            Some e \<Rightarrow> Fail (Wrapped ''failed to send OpenDataChannel message: '' [e])
          | None \<Rightarrow> Ret ((initial_adapter parse_duration env withResume clientid c)
              \<lparr>opened := [(c, open_data_channel clientid requestId token)]\<rparr>)))"

text \<open>Channels.\<close>

definition make_chan :: "adapter \<Rightarrow> chan \<times> adapter" where
  "make_chan a = (nextChan a, a\<lparr>nextChan := Suc (nextChan a)\<rparr>)"

definition close_chan :: "chan \<Rightarrow> adapter \<Rightarrow> adapter" where
  "close_chan ch a = a\<lparr>closedChans := ch # closedChans a\<rparr>"

definition close_conn :: "ws \<Rightarrow> adapter \<Rightarrow> adapter" where
  "close_conn c a = a\<lparr>closedConns := c # closedConns a\<rparr>"

definition upd_win :: "(window \<Rightarrow> window) \<Rightarrow> adapter \<Rightarrow> adapter" where
  "upd_win f a = a\<lparr>win := f (win a)\<rparr>"

definition upd_rcv :: "(receiver \<Rightarrow> receiver) \<Rightarrow> adapter \<Rightarrow> adapter" where
  "upd_rcv f a = a\<lparr>rcv := f (rcv a)\<rparr>"

definition close_stream :: "adapter \<Rightarrow> adapter" where
  "close_stream = upd_rcv (\<lambda>r. r\<lparr>streamClosed := True\<rparr>)"

lemmas adapter_prims = make_chan_def close_chan_def close_conn_def upd_win_def upd_rcv_def
  close_stream_def

section \<open>Sequence numbers, publication, handshake flag\<close>

definition nextSeq :: "adapter \<Rightarrow> int \<times> adapter" where
  "nextSeq a = (seqNum a, a\<lparr>seqNum := to_i64 (seqNum a + 1)\<rparr>)"

definition pausePublication :: "nanos \<Rightarrow> adapter \<Rightarrow> adapter" where
  "pausePublication now a =
    (if paused a then a
     else
       let a1 = (if pauseCh a = None
                 then (let (ch, a') = make_chan a in a'\<lparr>pauseCh := Some ch\<rparr>) else a)
       in a1\<lparr>paused := True, pausedSince := Some now\<rparr>)"

definition resumePublication :: "adapter \<Rightarrow> adapter" where
  "resumePublication a =
    (if \<not> paused a then a
     else
       let a1 = a\<lparr>paused := False\<rparr> in
       case pauseCh a1 of
         Some ch \<Rightarrow> (close_chan ch a1)\<lparr>pauseCh := None\<rparr>
       | None \<Rightarrow> a1)"

definition clearPauseForReconnect :: "adapter \<Rightarrow> adapter" where
  "clearPauseForReconnect a =
    (if \<not> paused a then a
     else
       let a1 = a\<lparr>paused := False, pausedSince := None\<rparr> in
       case pauseCh a1 of
         Some ch \<Rightarrow> (close_chan ch a1)\<lparr>pauseCh := None\<rparr>
       | None \<Rightarrow> a1)"

definition markHandshakeComplete :: "adapter \<Rightarrow> bool \<times> adapter" where
  "markHandshakeComplete a = (\<not> handshakeComplete a, a\<lparr>handshakeComplete := True\<rparr>)"

section \<open>Close\<close>

definition setCloseReason :: "go_error option \<Rightarrow> adapter \<Rightarrow> adapter" where
  "setCloseReason err a =
    (case err of
       None \<Rightarrow> a
     | Some e \<Rightarrow> if closeReason a = None then a\<lparr>closeReason := Some e\<rparr> else a)"

definition Close :: "adapter \<Rightarrow> adapter" where
  "Close a =
    (if doneClosed a then a
     else
       let a1 = a\<lparr>doneClosed := True\<rparr>;
           a2 = (if reconnecting a1 then
                   (case reconnectGate a1 of
                      Some g \<Rightarrow> (close_chan g a1)\<lparr>reconnectGate := None\<rparr>
                    | None \<Rightarrow> a1)
                 else a1);
           a3 = a2\<lparr>reconnecting := False\<rparr>;
           a4 = upd_win close_window a3;
           a5 = close_stream a4
       in (case conn a5 of
             Some c \<Rightarrow> (close_conn c a5)\<lparr>conn := None\<rparr>
           | None \<Rightarrow> a5))"

definition closeWithError :: "go_error \<Rightarrow> adapter \<Rightarrow> adapter" where
  "closeWithError e a = Close (setCloseReason (Some e) a)"

section \<open>Deadlines\<close>

definition SetWriteDeadline :: "nanos option \<Rightarrow> adapter \<Rightarrow> adapter" where
  "SetWriteDeadline dl a =
    (let a1 = upd_win outgoing_broadcast (a\<lparr>writeDeadline := dl\<rparr>) in
     case conn a1 of
       None \<Rightarrow> a1
     | Some c \<Rightarrow> a1\<lparr>connWriteDeadline := dl\<rparr>)"

definition writeDeadlineExceeded :: "nanos \<Rightarrow> adapter \<Rightarrow> bool" where
  "writeDeadlineExceeded now a = deadline_passed now (writeDeadline a)"

definition writeDeadlineWait :: "nanos \<Rightarrow> adapter \<Rightarrow> nanos option" where
  "writeDeadlineWait now a =
    (case writeDeadline a of
       None \<Rightarrow> None
     | Some t \<Rightarrow> if t - now \<le> 0 then None else Some (t - now))"

definition effectiveWriteDeadline :: "nanos \<Rightarrow> adapter \<Rightarrow> nanos" where
  "effectiveWriteDeadline now a =
    (case writeDeadline a of
       None \<Rightarrow> now + writeWait
     | Some dl \<Rightarrow> if now + writeWait < dl then now + writeWait else dl)"

section \<open>Generations and reconnect\<close>

definition resumeEnabled :: "adapter \<Rightarrow> bool" where
  "resumeEnabled a \<longleftrightarrow> resumeFuncSet a \<and> \<not> resumeDisabled a"

definition connGenerationStale :: "nat \<Rightarrow> adapter \<Rightarrow> bool" where
  "connGenerationStale gen a \<longleftrightarrow> connGen a \<noteq> gen"

definition swapConn :: "ws \<Rightarrow> adapter \<Rightarrow> adapter" where
  "swapConn c a =
    (let a1 = (case conn a of Some old \<Rightarrow> close_conn old a | None \<Rightarrow> a)
     in a1\<lparr>conn := Some c, connGen := Suc (connGen a1)\<rparr>)"

definition ForceCloseTransport :: "adapter \<Rightarrow> adapter" where
  "ForceCloseTransport a = (case conn a of Some c \<Rightarrow> close_conn c a | None \<Rightarrow> a)"

text \<open>\<open>startReconnect\<close>, with the goroutine it starts: \<open>reconnectLoop\<close> sets its deadline first.\<close>

definition startReconnect :: "nanos \<Rightarrow> adapter \<Rightarrow> adapter" where
  "startReconnect now a =
    (if doneClosed a then a
     else if \<not> resumeEnabled a then a
     else if reconnecting a then a
     else let (g, a1) = make_chan a;
              budget = (if resumeBudget a1 \<le> 0 then defaultResumeBudget else resumeBudget a1)
          in a1\<lparr>reconnecting := True, reconnectGate := Some g, resumeLoop := RLDialing (now + budget)\<rparr>)"

text \<open>The result says whether the adapter is closing for good.\<close>

definition handleTransportFailure :: "nanos \<Rightarrow> go_error \<Rightarrow> adapter \<Rightarrow> bool \<times> adapter" where
  "handleTransportFailure now e a =
    (if doneClosed a then (True, a)
     else if \<not> resumeEnabled a then (True, closeWithError e (close_stream a))
     else (False, startReconnect now a))"

text \<open>The deferred function of \<open>reconnectLoop\<close>.\<close>

definition reconnect_done :: "adapter \<Rightarrow> adapter" where
  "reconnect_done a =
    (let a1 = a\<lparr>reconnecting := False, reconnectGate := None, resumeLoop := RLIdle\<rparr> in
     case reconnectGate a of
       Some g \<Rightarrow> if g \<in> set (closedChans a1) then a1 else close_chan g a1
     | None \<Rightarrow> a1)"

text \<open>
  What \<open>reconnectLoop\<close> does once a new WebSocket is open and its opening frame is written,
  and what it does when the loop is left without one.
\<close>

definition install_conn :: "nanos \<Rightarrow> ws \<Rightarrow> adapter \<Rightarrow> adapter" where
  "install_conn now c a =
    (let a1 = swapConn c a;
         a2 = upd_win (markOutgoingForRetransmit now) a1;
         a3 = clearPauseForReconnect a2;
         (_, a4) = markHandshakeComplete a3
     in a4\<lparr>resumeLoop := RLInstalled\<rparr>)"

definition resume_exhausted :: "adapter \<Rightarrow> adapter" where
  "resume_exhausted a =
    reconnect_done (closeWithError (Wrapped '': '' [errResumeBudgetExhausted]) (close_stream a))"

section \<open>What other goroutines may do\<close>

text \<open>
  One atomic action of another goroutine: the read loop processing an acknowledgement, a pause
  or a start, another writer taking a number or sending a chunk, the owner closing the adapter
  or moving the deadline, a loop reporting a transport failure, and the steps of
  \<open>reconnectLoop\<close>.  A move that is not possible in the state changes nothing.
\<close>

datatype move = MTick nat | MSeq | MWrite uuid bytes | MAck int uuid | MPause | MStart
  | MClose "go_error option" | MDeadline "nanos option" | MFail go_error | MForceClose
  | MInstall ws | MResumeDone | MResumeStop | MExhausted | MResend

definition other_write :: "nanos \<Rightarrow> uuid \<Rightarrow> bytes \<Rightarrow> adapter \<Rightarrow> adapter" where
  "other_write now uid frame a =
    (let (seq, a1) = nextSeq a in
     case conn a of
       None \<Rightarrow> a1
     | Some c \<Rightarrow>
         (case addOutgoing_step now (writeDeadline a) seq uid frame (win a1) of
            AddDone w \<Rightarrow> a1\<lparr>win := w, sent := sent a1 @ [(c, frame)]\<rparr>
          | _ \<Rightarrow> a1))"

definition adapter_move :: "nanos \<Rightarrow> move \<Rightarrow> adapter \<Rightarrow> adapter" where
  "adapter_move now m a =
    (case m of
       MTick d \<Rightarrow> a
     | MSeq \<Rightarrow> if seqNum a < max_i64 then snd (nextSeq a) else a
     | MWrite uid frame \<Rightarrow> if seqNum a < max_i64 then other_write now uid frame a else a
     | MAck seq mid \<Rightarrow> resumePublication (upd_win (ackOutgoing now seq mid) a)
     | MPause \<Rightarrow> pausePublication now a
     | MStart \<Rightarrow> resumePublication a
     | MClose e \<Rightarrow> Close (setCloseReason e a)
     | MDeadline dl \<Rightarrow> SetWriteDeadline dl a
     | MFail e \<Rightarrow> snd (handleTransportFailure now e a)
     | MForceClose \<Rightarrow> ForceCloseTransport a
     | MInstall c \<Rightarrow> (case resumeLoop a of RLDialing _ \<Rightarrow> install_conn now c a | _ \<Rightarrow> a)
     | MResumeDone \<Rightarrow> (if resumeLoop a = RLInstalled then reconnect_done a else a)
     | MResumeStop \<Rightarrow> (case resumeLoop a of
           RLDialing _ \<Rightarrow> if doneClosed a then reconnect_done a else a | _ \<Rightarrow> a)
     | MExhausted \<Rightarrow> (case resumeLoop a of RLDialing _ \<Rightarrow> resume_exhausted a | _ \<Rightarrow> a)
     | MResend \<Rightarrow> upd_win (\<lambda>w. snd (resend_window now w)) a)"

end
