(* ===== verification/AdapterInv.thy ===== *)
theory AdapterInv
  imports Adapter
begin

text \<open>
  The invariant of the protocol adapter under every interleaving of the atomic actions of
  theory \<open>Adapter\<close>: channels, reconnect state, closing and the reliability window stay
  consistent; closing is final and keeps its first reason; generations only grow.
\<close>

section \<open>The invariant\<close>

definition chan_inv :: "adapter \<Rightarrow> bool" where
  "chan_inv a \<longleftrightarrow>
     (reconnectGate a = None \<longleftrightarrow> \<not> reconnecting a) \<and>
     (pauseCh a = None \<longleftrightarrow> \<not> paused a) \<and> (paused a \<longrightarrow> pausedSince a \<noteq> None) \<and>
     (\<forall>g. reconnectGate a = Some g \<longrightarrow> g < nextChan a \<and> g \<notin> set (closedChans a)) \<and>
     (\<forall>c. pauseCh a = Some c \<longrightarrow> c < nextChan a \<and> c \<notin> set (closedChans a)) \<and>
     (\<forall>g. reconnectGate a = Some g \<longrightarrow> pauseCh a \<noteq> Some g) \<and>
     (\<forall>c \<in> set (closedChans a). c < nextChan a)"

definition life_inv :: "adapter \<Rightarrow> bool" where
  "life_inv a \<longleftrightarrow>
     (reconnecting a \<longleftrightarrow> resumeLoop a \<noteq> RLIdle \<and> \<not> doneClosed a) \<and>
     outgoingClosed (win a) = doneClosed a \<and> streamClosed (rcv a) = doneClosed a \<and>
     (\<not> doneClosed a \<longrightarrow> conn a \<noteq> None)"

definition flow_inv :: "adapter \<Rightarrow> bool" where
  "flow_inv a \<longleftrightarrow> window_inv (win a) \<and> 0 \<le> seqNum a \<and> seqNum a \<le> max_i64 \<and>
     (\<forall>k \<in> set (gm_keys (outgoing (win a))). k < seqNum a) \<and>
     outgoingBytes (win a) \<le> maxOutgoingUnackedBytes (win a)"

definition adapter_inv :: "adapter \<Rightarrow> bool" where
  "adapter_inv a \<longleftrightarrow> chan_inv a \<and> life_inv a \<and> flow_inv a"

lemmas adapter_inv_defs = adapter_inv_def chan_inv_def life_inv_def flow_inv_def

section \<open>Preservation\<close>

lemma flow_inv_win:
  assumes "flow_inv a" and "no_growth (win a) w" and "window_inv w"
  shows "flow_inv (a\<lparr>win := w\<rparr>)"
  using assms unfolding flow_inv_def no_growth_def by auto

lemma upd_win_inv:
  assumes "adapter_inv a" and "no_growth (win a) (f (win a))"
    and "window_inv (f (win a))" and "outgoingClosed (f (win a)) = outgoingClosed (win a)"
  shows "adapter_inv (upd_win f a)"
  using assms flow_inv_win [of a "f (win a)"]
  by (simp add: adapter_inv_def upd_win_def chan_inv_def life_inv_def)

lemma window_ops_closed [simp]:
  "window_inv w \<Longrightarrow> outgoingClosed (ackOutgoing now seq mid w) = outgoingClosed w"
  "window_inv w \<Longrightarrow> outgoingClosed (dropOutgoing seq mid w) = outgoingClosed w"
  "outgoingClosed (markOutgoingForRetransmit now w) = outgoingClosed w"
  "outgoingClosed (snd (resend_window now w)) = outgoingClosed w"
  "outgoingClosed (outgoing_broadcast w) = outgoingClosed w"
  by (auto simp: ackOutgoing_eq dropOutgoing_eq removed_def outgoing_broadcast_def
      markOutgoingForRetransmit_def resend_window_def Let_def split: option.splits)

lemma no_growth_broadcast: "no_growth w (outgoing_broadcast w)"
  by (simp add: no_growth_def outgoing_broadcast_def)

lemma adapter_window_inv: "adapter_inv a \<Longrightarrow> window_inv (win a)"
  by (simp add: adapter_inv_def flow_inv_def)

lemma ack_adapter_inv [inv_lemmas]: "adapter_inv a \<Longrightarrow> adapter_inv (upd_win (ackOutgoing now seq mid) a)"
  by (rule upd_win_inv) (simp_all add: adapter_window_inv no_growth_ops ackOutgoing_inv)

lemma drop_adapter_inv [inv_lemmas]: "adapter_inv a \<Longrightarrow> adapter_inv (upd_win (dropOutgoing seq mid) a)"
  by (rule upd_win_inv) (simp_all add: adapter_window_inv no_growth_ops dropOutgoing_inv)

lemma mark_adapter_inv [inv_lemmas]: "adapter_inv a \<Longrightarrow> adapter_inv (upd_win (markOutgoingForRetransmit now) a)"
  by (rule upd_win_inv) (simp_all add: adapter_window_inv no_growth_ops markOutgoing_inv)

lemma resend_adapter_inv [inv_lemmas]:
  "adapter_inv a \<Longrightarrow> adapter_inv (upd_win (\<lambda>w. snd (resend_window now w)) a)"
  by (rule upd_win_inv) (simp_all add: adapter_window_inv no_growth_ops resend_window_inv)

lemma deadline_adapter_inv [inv_lemmas]: "adapter_inv a \<Longrightarrow> adapter_inv (SetWriteDeadline dl a)"
  using upd_win_inv [of "a\<lparr>writeDeadline := dl\<rparr>" outgoing_broadcast]
  by (auto simp: SetWriteDeadline_def Let_def adapter_inv_defs no_growth_broadcast split: option.splits)

lemma pause_adapter_inv [inv_lemmas]: "adapter_inv a \<Longrightarrow> adapter_inv (pausePublication now a)"
  by (cases "paused a") (auto simp: pausePublication_def make_chan_def adapter_inv_defs)

lemma resume_adapter_inv [inv_lemmas]: "adapter_inv a \<Longrightarrow> adapter_inv (resumePublication a)"
  by (auto simp: resumePublication_def close_chan_def adapter_inv_defs split: option.splits)

lemma clearPause_adapter_inv [inv_lemmas]: "adapter_inv a \<Longrightarrow> adapter_inv (clearPauseForReconnect a)"
  by (auto simp: clearPauseForReconnect_def close_chan_def adapter_inv_defs split: option.splits)

lemma handshake_adapter_inv [inv_lemmas]: "adapter_inv a \<Longrightarrow> adapter_inv (snd (markHandshakeComplete a))"
  by (simp add: markHandshakeComplete_def adapter_inv_defs)

lemma reason_adapter_inv [inv_lemmas]: "adapter_inv a \<Longrightarrow> adapter_inv (setCloseReason e a)"
  by (simp add: setCloseReason_def adapter_inv_defs split: option.split)

lemma nextSeq_adapter_inv [inv_lemmas]:
  "adapter_inv a \<Longrightarrow> seqNum a < max_i64 \<Longrightarrow> adapter_inv (snd (nextSeq a))"
  by (fastforce simp: nextSeq_def adapter_inv_defs to_i64_def)

text \<open>\<open>Close\<close> as one update, and its effect.\<close>

lemma Close_fields [simp]:
  "doneClosed (Close a)" "closeReason (Close a) = closeReason a" "connGen (Close a) = connGen a"
  "seqNum (Close a) = seqNum a" "sent (Close a) = sent a"
  by (simp_all add: Close_def adapter_prims Let_def split: option.split)

lemma Close_done: "doneClosed a \<Longrightarrow> Close a = a"
  by (simp add: Close_def)

lemma reconnect_done_fields:
  "doneClosed (reconnect_done a) = doneClosed a" "conn (reconnect_done a) = conn a"
  "closedConns (reconnect_done a) = closedConns a" "resumeLoop (reconnect_done a) = RLIdle"
  "closeReason (reconnect_done a) = closeReason a"
  by (simp_all add: reconnect_done_def close_chan_def Let_def split: option.split)

lemma close_window_fields:
  "outgoing (close_window w) = outgoing w" "outgoingBytes (close_window w) = outgoingBytes w"
  "maxOutgoingUnackedBytes (close_window w) = maxOutgoingUnackedBytes w"
  "outgoingClosed (close_window w)"
  by (simp_all add: close_window_def outgoing_broadcast_def)

lemma Close_adapter_inv':
  assumes "chan_inv a" and "flow_inv a" and "\<not> doneClosed a"
    and "reconnecting a \<longleftrightarrow> resumeLoop a \<noteq> RLIdle"
  shows "adapter_inv (Close a)"
  using assms close_window_inv [of "win a"]
  by (auto simp: Close_def adapter_prims adapter_inv_defs Let_def close_window_fields split: option.splits)

lemma Close_adapter_inv [inv_lemmas]: "adapter_inv a \<Longrightarrow> adapter_inv (Close a)"
proof (cases "doneClosed a")
  case False
  moreover assume "adapter_inv a"
  ultimately show ?thesis by (intro Close_adapter_inv') (auto simp: adapter_inv_def life_inv_def)
qed (simp add: Close_def)

lemma closeWithError_adapter_inv [inv_lemmas]:
  "adapter_inv a \<Longrightarrow> adapter_inv (closeWithError e a)"
  by (simp add: closeWithError_def Close_adapter_inv reason_adapter_inv)

text \<open>Closing the stream first and then the adapter, as the failure paths do.\<close>

lemma close_stream_closeWithError:
  assumes "adapter_inv a"
  shows "adapter_inv (closeWithError e (close_stream a))"
proof (cases "doneClosed a")
  case True
  then show ?thesis
    using assms by (simp add: closeWithError_def Close_def close_stream_def upd_rcv_def
        setCloseReason_def adapter_inv_defs)
next
  case False
  then show ?thesis
    using assms unfolding closeWithError_def
    by (intro Close_adapter_inv')
      (auto simp: close_stream_def upd_rcv_def setCloseReason_def adapter_inv_defs)
qed

lemma force_adapter_inv [inv_lemmas]: "adapter_inv a \<Longrightarrow> adapter_inv (ForceCloseTransport a)"
  by (auto simp: ForceCloseTransport_def close_conn_def adapter_inv_defs split: option.splits)

lemma startReconnect_adapter_inv [inv_lemmas]: "adapter_inv a \<Longrightarrow> adapter_inv (startReconnect now a)"
  by (cases "reconnecting a") (auto simp: startReconnect_def make_chan_def Let_def adapter_inv_defs)

lemma failure_adapter_inv [inv_lemmas]:
  "adapter_inv a \<Longrightarrow> adapter_inv (snd (handleTransportFailure now e a))"
  by (simp add: handleTransportFailure_def close_stream_closeWithError startReconnect_adapter_inv)

lemma swapConn_adapter_inv [inv_lemmas]: "adapter_inv a \<Longrightarrow> adapter_inv (swapConn c a)"
  by (auto simp: swapConn_def close_conn_def Let_def adapter_inv_defs split: option.splits)

lemma reconnect_done_adapter_inv [inv_lemmas]: "adapter_inv a \<Longrightarrow> adapter_inv (reconnect_done a)"
  by (auto simp: reconnect_done_def close_chan_def Let_def adapter_inv_defs split: option.splits)

lemma ops_resumeLoop [simp]:
  "resumeLoop (swapConn c a) = resumeLoop a" "resumeLoop (upd_win f a) = resumeLoop a"
  "resumeLoop (clearPauseForReconnect a) = resumeLoop a"
  "resumeLoop (snd (markHandshakeComplete a)) = resumeLoop a"
  by (simp_all add: swapConn_def close_conn_def upd_win_def clearPauseForReconnect_def
      close_chan_def markHandshakeComplete_def Let_def split: option.split)

lemma install_conn_eq: "install_conn now c a =
    (snd (markHandshakeComplete (clearPauseForReconnect
      (upd_win (markOutgoingForRetransmit now) (swapConn c a)))))\<lparr>resumeLoop := RLInstalled\<rparr>"
  by (simp add: install_conn_def Let_def split_beta)

lemma install_conn_adapter_inv [inv_lemmas]:
  assumes "adapter_inv a" and "resumeLoop a \<noteq> RLIdle"
  shows "adapter_inv (install_conn now c a)"
proof -
  let ?b = "snd (markHandshakeComplete (clearPauseForReconnect
      (upd_win (markOutgoingForRetransmit now) (swapConn c a))))"
  have "adapter_inv ?b" and "resumeLoop ?b = resumeLoop a"
    using assms(1) by (simp_all add: inv_lemmas)
  then show ?thesis using assms(2) by (simp add: install_conn_eq adapter_inv_defs)
qed

lemma resume_exhausted_adapter_inv [inv_lemmas]: "adapter_inv a \<Longrightarrow> adapter_inv (resume_exhausted a)"
  by (simp add: resume_exhausted_def reconnect_done_adapter_inv close_stream_closeWithError)

lemma add_frame_inv:
  assumes "adapter_inv a" and "0 \<le> seq" and "seq < seqNum a"
    and "seq \<notin> set (gm_keys (outgoing (win a)))"
    and "addOutgoing_step now dl seq mid frame (win a) = AddDone w"
  shows "adapter_inv (a\<lparr>win := w\<rparr>)"
proof -
  have "window_inv w" "outgoingBytes w \<le> maxOutgoingUnackedBytes w"
    using addOutgoing_inv [OF assms(5)] assms(1-4) by (auto simp: adapter_inv_def flow_inv_def)
  then show ?thesis
    using assms(1-3) addOutgoing_fields [OF assms(5)]
    by (auto simp: adapter_inv_defs insert_outgoing_def)
qed

lemma other_write_adapter_inv [inv_lemmas]:
  assumes "adapter_inv a" and "seqNum a < max_i64"
  shows "adapter_inv (other_write now uid frame a)"
proof -
  let ?a = "snd (nextSeq a)"
  have i: "adapter_inv ?a" using nextSeq_adapter_inv [OF assms] .
  have f: "fst (nextSeq a) = seqNum a" "seqNum ?a = seqNum a + 1" "win ?a = win a" "conn ?a = conn a"
    using assms by (auto simp: nextSeq_def to_i64_def adapter_inv_def flow_inv_def)
  have "adapter_inv (?a\<lparr>win := w\<rparr>)"
    if "addOutgoing_step now (writeDeadline a) (seqNum a) uid frame (win ?a) = AddDone w" for w
    using assms f by (intro add_frame_inv [OF i _ _ _ that]) (auto simp: adapter_inv_def flow_inv_def)
  then have "adapter_inv (?a\<lparr>win := w, sent := l\<rparr>)"
    if "addOutgoing_step now (writeDeadline a) (seqNum a) uid frame (win ?a) = AddDone w" for w l
    using that by (simp add: adapter_inv_defs)
  then show ?thesis
    using i f by (auto simp: other_write_def split_beta split: option.splits add_result.splits)
qed

lemma adapter_move_inv: "adapter_inv a \<Longrightarrow> adapter_inv (adapter_move now m a)"
  by (cases m) (auto simp: adapter_move_def inv_lemmas split: resume_loop.splits)

lemma initial_adapter_inv: "adapter_inv (initial_adapter pd env wr cid c)"
proof -
  have "0 \<le> env_max_unacked v" for v
    by (simp add: env_max_unacked_def adapter_consts window_consts split: option.split)
  then show ?thesis
    using new_window_inv
    by (simp add: adapter_inv_defs initial_adapter_def new_receiver_def) (simp add: new_window_def)
qed

section \<open>Histories\<close>

definition run_moves :: "(nanos \<times> move) list \<Rightarrow> adapter \<Rightarrow> adapter" where
  "run_moves ms a = fold (\<lambda>(now, m). adapter_move now m) ms a"

lemma run_moves_simps [simp]:
  "run_moves [] a = a" "run_moves ((now, m) # ms) a = run_moves ms (adapter_move now m a)"
  by (simp_all add: run_moves_def)

lemma run_moves_induct:
  assumes "P a" and "\<And>now m a. P a \<Longrightarrow> P (adapter_move now m a)"
  shows "P (run_moves ms a)"
  using assms(1)
proof (induction ms arbitrary: a)
  case (Cons p ms)
  then show ?case by (cases p) (simp add: assms(2))
qed simp

lemma run_moves_inv [inv_lemmas]: "adapter_inv a \<Longrightarrow> adapter_inv (run_moves ms a)"
  by (rule run_moves_induct) (simp_all add: adapter_move_inv)

text \<open>What no move changes or undoes.\<close>

definition later :: "adapter \<Rightarrow> adapter \<Rightarrow> bool" where
  "later a b \<longleftrightarrow> (doneClosed a \<longrightarrow> doneClosed b) \<and> (closeReason a \<noteq> None \<longrightarrow> closeReason b = closeReason a)
     \<and> connGen a \<le> connGen b \<and> chunkSize b = chunkSize a
     \<and> maxOutgoingUnackedBytes (win b) = maxOutgoingUnackedBytes (win a)
     \<and> (handshakeComplete a \<longrightarrow> handshakeComplete b) \<and> set (closedConns a) \<subseteq> set (closedConns b)"

lemma later_refl [simp]: "later a a"
  by (simp add: later_def)

lemma later_trans: "later a b \<Longrightarrow> later b c \<Longrightarrow> later a c"
  unfolding later_def by auto

lemma later_upd_win:
  "maxOutgoingUnackedBytes (f (win a)) = maxOutgoingUnackedBytes (win a) \<Longrightarrow> later a (upd_win f a)"
  by (simp add: later_def upd_win_def)

lemma later_win_ops:
  "later a (upd_win (markOutgoingForRetransmit now) a)"
  "later a (upd_win (\<lambda>w. snd (resend_window now w)) a)"
  by (auto intro!: later_upd_win simp: markOutgoingForRetransmit_def outgoing_broadcast_def
      resend_window_def Let_def split: option.splits)

lemma later_ack: "later a (upd_win (ackOutgoing now seq mid) a)"
  by (rule later_upd_win)
    (simp add: ackOutgoing_def Let_def outgoing_broadcast_def split: option.splits)

lemma later_small:
  "later a (pausePublication now a)" "later a (resumePublication a)"
  "later a (clearPauseForReconnect a)" "later a (setCloseReason e a)"
  "later a (SetWriteDeadline dl a)" "later a (snd (nextSeq a))" "later a (swapConn c a)"
  "later a (ForceCloseTransport a)" "later a (startReconnect now a)" "later a (reconnect_done a)"
  "later a (snd (markHandshakeComplete a))" "later a (close_stream a)"
  by (auto simp: later_def pausePublication_def resumePublication_def clearPauseForReconnect_def
      setCloseReason_def SetWriteDeadline_def nextSeq_def swapConn_def ForceCloseTransport_def
      startReconnect_def reconnect_done_def markHandshakeComplete_def adapter_prims Let_def
      outgoing_broadcast_def split: option.splits)

lemma later_Close: "later a (Close a)"
  by (auto simp: later_def Close_def adapter_prims Let_def close_window_def outgoing_broadcast_def
      split: option.splits)

lemma later_closeWithError: "later a (closeWithError e a)"
  unfolding closeWithError_def by (rule later_trans [OF later_small(4) later_Close])

lemma later_failure: "later a (snd (handleTransportFailure now e a))"
  unfolding handleTransportFailure_def
  by (auto intro: later_small later_trans [OF later_small(12) later_closeWithError])

lemma later_install: "later a (install_conn now c a)"
proof -
  have "later a (snd (markHandshakeComplete (clearPauseForReconnect
      (upd_win (markOutgoingForRetransmit now) (swapConn c a)))))"
    by (rule later_trans [OF later_small(7) later_trans [OF later_win_ops(1)
          later_trans [OF later_small(3) later_small(11)]]])
  then show ?thesis by (simp add: install_conn_eq later_def)
qed

lemma later_other_write: "later a (other_write now uid frame a)"
proof -
  have "later (snd (nextSeq a)) (other_write now uid frame a)"
    by (auto simp: other_write_def split_beta later_def dest: addOutgoing_fields(2)
        split: option.split add_result.split)
  then show ?thesis by (rule later_trans [OF later_small(6)])
qed

lemma later_move: "later a (adapter_move now m a)"
proof (cases m)
  case (MAck seq mid)
  then show ?thesis
    by (simp add: adapter_move_def later_trans [OF later_ack later_small(2)])
next
  case (MClose e)
  then show ?thesis
    by (simp add: adapter_move_def later_trans [OF later_small(4) later_Close])
next
  case MExhausted
  have "later a (resume_exhausted a)"
    unfolding resume_exhausted_def
    by (rule later_trans [OF later_trans [OF later_small(12) later_closeWithError] later_small(10)])
  then show ?thesis using MExhausted by (auto simp: adapter_move_def split: resume_loop.split)
qed (auto simp: adapter_move_def later_small later_win_ops later_failure later_install
    later_other_write split: resume_loop.split)

lemma later_run: "later a (run_moves ms a)"
  by (rule run_moves_induct) (auto intro: later_trans later_move)

section \<open>Properties\<close>

lemma initial_fields:
  "maxOutgoingUnackedBytes (win (initial_adapter pd env wr cid c)) = env_max_unacked (envMaxUnacked env)"
  "chunkSize (initial_adapter pd env wr cid c) = env_chunk_size (envChunkSize env)"
  by (simp_all add: initial_adapter_def new_window_def)

lemma env_ranges:
  "256 \<le> env_chunk_size v" "env_chunk_size v \<le> 1024"
  "65536 \<le> env_max_unacked v" "env_max_unacked v \<le> 1073741824"
  by (auto simp: env_chunk_size_def env_max_unacked_def adapter_consts window_consts
      split: option.split)


text \<open>
  C8. Closing is final: whatever the other goroutines do afterwards, the adapter stays closed,
  the first recorded reason is kept, a completed handshake stays completed and the WebSocket
  generation never goes back.
\<close>

theorem close_is_final:
  fixes a e ms
  defines "b \<equiv> run_moves ms (closeWithError e a)"
  shows "doneClosed b \<and> closeReason b = (case closeReason a of None \<Rightarrow> Some e | Some e0 \<Rightarrow> Some e0)
    \<and> (if handshakeComplete a then handshakeComplete b else True) \<and> connGen a \<le> connGen b"
proof -
  have "later (closeWithError e a) b" "later a (closeWithError e a)"
    unfolding b_def by (rule later_run, rule later_closeWithError)
  moreover have "doneClosed (closeWithError e a)"
    and "closeReason (closeWithError e a) = (case closeReason a of None \<Rightarrow> Some e | Some e0 \<Rightarrow> Some e0)"
    by (auto simp: closeWithError_def setCloseReason_def split: option.split)
  ultimately show ?thesis unfolding later_def by (auto split: option.splits)
qed

text \<open>
  C7. A resumed transport keeps the session: installing a new WebSocket leaves the next
  sequence number, the outstanding frames, the received stream and the duplicate filter as
  they were, closes the old WebSocket, starts a new generation and lifts a pause; the oldest
  outstanding frame is retransmitted by the first pass at least 800 ms later.
\<close>

theorem install_keeps_session:
  fixes c :: ws
  assumes "adapter_inv a" and "outgoing (win a) \<noteq> []" and "now + millis 800 \<le> t"
  defines "b \<equiv> install_conn now c a"
  shows "seqNum b = seqNum a \<and> window_unacked (win b) = window_unacked (win a) \<and> rcv b = rcv a
    \<and> seenMsgIds b = seenMsgIds a \<and> conn b = Some c \<and> connGen b = Suc (connGen a)
    \<and> set (closedConns b) = set_option (conn a) \<union> set (closedConns a) \<and> \<not> paused b
    \<and> (\<exists>f w'. resend_window t (win b) = (ResendFrame (Min (set (gm_keys (outgoing (win a))))) f, w'))"
proof -
  have w: "win b = markOutgoingForRetransmit now (win a)"
    by (simp add: b_def install_conn_eq markHandshakeComplete_def clearPauseForReconnect_def
        adapter_prims swapConn_def Let_def split: option.split)
  have f: "seqNum b = seqNum a \<and> rcv b = rcv a \<and> seenMsgIds b = seenMsgIds a \<and> conn b = Some c
      \<and> connGen b = Suc (connGen a) \<and> set (closedConns b) = set_option (conn a) \<union> set (closedConns a)
      \<and> \<not> paused b"
    by (simp add: b_def install_conn_eq markHandshakeComplete_def clearPauseForReconnect_def
        adapter_prims swapConn_def Let_def split: option.split)
  have i: "window_inv (win a)" by (rule adapter_window_inv [OF assms(1)])
  obtain om where om: "map_of (outgoing (win a)) (outgoingOldestSeq (win a)) = Some om"
    using window_oldest_get [OF i assms(2)] by blast
  have old: "outgoingOldestSeq (win a) = Min (set (gm_keys (outgoing (win a))))"
    and r: "rto (win a) \<le> seconds 1" "0 < rto (win a)" and k: "seq_keys (outgoing (win a))"
    using i assms(2) by (auto simp: window_inv_def oldest_of_def window_consts)
  have ne: "outgoingOldestSeq (win a) \<noteq> -1" using seq_key_nonneg [OF k om] by linarith
  have "\<exists>f w'. resend_window t (win b) = (ResendFrame (outgoingOldestSeq (win a)) f, w')"
    using om ne r assms(2,3)
    by (auto simp: w resend_window_def markOutgoingForRetransmit_def Let_def outgoing_broadcast_def
        gm_get_map elapsed_over_def resend_rto_def window_consts)
  then show ?thesis using f w by (simp add: mark_unacked old)
qed

definition busy_adapter :: adapter where
  "busy_adapter = run_moves [(0, MWrite 5 [1, 2]), (0, MWrite 6 [3]), (1, MPause)]
     (initial_adapter (\<lambda>_. None) \<lparr>envChunkSize = [], envMaxUnacked = [], envResumeBudget = [],
        envResume = []\<rparr> True ''c'' 7)"

lemma busy_adapter_inv: "adapter_inv busy_adapter"
  unfolding busy_adapter_def by (rule run_moves_inv [OF initial_adapter_inv])

lemmas busy_adapter_simps = busy_adapter_def adapter_move_def other_write_def nextSeq_def
  initial_adapter_def addOutgoing_step_def insert_outgoing_def new_window_def new_receiver_def
  env_max_unacked_def env_chunk_size_def env_resume_budget_def pausePublication_def
  adapter_consts window_consts adapter_prims to_i64_def

lemma busy_adapter_fields:
  "seqNum busy_adapter = 2" "conn busy_adapter = Some 7" "closedConns busy_adapter = []"
  "\<not> doneClosed busy_adapter" "\<not> reconnecting busy_adapter" "resumeFuncSet busy_adapter"
  "\<not> resumeDisabled busy_adapter" "resumeBudget busy_adapter = seconds 90"
  "closeReason busy_adapter = None" "outgoing (win busy_adapter) \<noteq> []"
  by (simp_all add: busy_adapter_simps Let_def)

theorem install_keeps_session_witness:
  "seqNum (install_conn 10 8 busy_adapter) = 2 \<and> \<not> paused (install_conn 10 8 busy_adapter)
    \<and> set (closedConns (install_conn 10 8 busy_adapter)) = {7}"
  using install_keeps_session [OF busy_adapter_inv busy_adapter_fields(10), of 10 "10 + millis 800" 8]
  by (simp add: busy_adapter_fields)

lemma failing_adapter_fields:
  "\<not> doneClosed (adapter_move 1 (MFail IoEOF) busy_adapter)"
  "resumeLoop (adapter_move 1 (MFail IoEOF) busy_adapter) = RLDialing (1 + seconds 90)"
  "9 \<notin> set (closedConns (adapter_move 1 (MFail IoEOF) busy_adapter))"
  "conn (adapter_move 1 (MFail IoEOF) busy_adapter) \<noteq> Some 9"
  "closeReason (adapter_move 1 (MFail IoEOF) busy_adapter) = None"
  by (simp_all add: adapter_move_def handleTransportFailure_def startReconnect_def
      resumeEnabled_def make_chan_def Let_def busy_adapter_fields)

text \<open>
  A WebSocket can outlive the adapter: when the adapter is closed while a resume is
  dialling, the resume still installs the WebSocket it obtained; the adapter is then closed but
  holds an open WebSocket, and closing it again does not help.
\<close>

lemma close_during_resume_leaks:
  fixes t1 t2 t3 t4 :: nanos
  assumes "adapter_inv a" and "\<not> doneClosed a" and "resumeLoop a = RLDialing dl"
    and "c \<notin> set (closedConns a)" and "conn a \<noteq> Some c"
  defines "b \<equiv> run_moves [(t1, MClose None), (t2, MInstall c), (t3, MResumeDone), (t4, MClose None)] a"
  shows "doneClosed b \<and> conn b = Some c \<and> c \<notin> set (closedConns b) \<and> resumeLoop b = RLIdle"
proof -
  let ?a1 = "Close a"
  have a1: "doneClosed ?a1" "resumeLoop ?a1 = RLDialing dl" "conn ?a1 = None"
    "set (closedConns ?a1) = set_option (conn a) \<union> set (closedConns a)"
    using assms(2,3) by (auto simp: Close_def adapter_prims Let_def split: option.split)
  let ?a2 = "install_conn t2 c ?a1"
  have a2: "doneClosed ?a2" "resumeLoop ?a2 = RLInstalled" "conn ?a2 = Some c"
    "c \<notin> set (closedConns ?a2)"
    using a1 assms(4,5)
    by (auto simp: install_conn_eq markHandshakeComplete_def clearPauseForReconnect_def
        adapter_prims swapConn_def Let_def split: option.split)
  have "b = Close (reconnect_done ?a2)"
    using a1 a2 by (simp add: b_def adapter_move_def setCloseReason_def)
  then show ?thesis
    using a2 by (simp add: Close_done reconnect_done_fields)
qed

theorem close_during_resume_leaks_witness:
  "conn (run_moves [(2, MClose None), (3, MInstall 9), (4, MResumeDone), (5, MClose None)]
     (adapter_move 1 (MFail IoEOF) busy_adapter)) = Some 9"
  by (rule close_during_resume_leaks [OF adapter_move_inv [OF busy_adapter_inv]
        failing_adapter_fields(1-4), THEN conjunct2, THEN conjunct1])

text \<open>
  A deliberate close can be reported as a failure: \<open>sleepResumeBackoff\<close> also stops when the
  adapter is closed, and the loop then ends as if its budget were spent; the recorded reason of
  an adapter that its owner closed without any error becomes the exhausted budget.
\<close>

lemma close_during_backoff_reason:
  assumes "closeReason a = None" and "resumeLoop a = RLDialing dl"
  shows "closeReason (run_moves [(t1, MClose None), (t2, MExhausted)] a)
    = Some (Wrapped '': '' [errResumeBudgetExhausted])"
proof -
  have "resumeLoop (Close a) = RLDialing dl"
    using assms(2) by (auto simp: Close_def adapter_prims Let_def split: option.split)
  then show ?thesis
    using assms(1) by (simp add: reconnect_done_fields adapter_move_def setCloseReason_def resume_exhausted_def
        closeWithError_def close_stream_def upd_rcv_def)
qed

theorem close_during_backoff_reason_witness:
  "closeReason (run_moves [(2, MClose None), (3, MExhausted)] (adapter_move 1 (MFail IoEOF) busy_adapter))
    = Some (Wrapped '': '' [errResumeBudgetExhausted])"
  by (rule close_during_backoff_reason [OF failing_adapter_fields(5,2)])

end
