(* ===== verification/AdapterIO.thy ===== *)
theory AdapterIO
  imports AdapterInv
begin

text \<open>
  The blocking operations of the protocol adapter (\<open>adapter.go\<close>, \<open>adapter_resume.go\<close>): waiting
  for the transport, for publication, for room in the window and for a deadline; \<open>writeRaw\<close>
  with its retries across a resume; \<open>Write\<close>.

  A goroutine runs against a script of what the rest of the program does: \<open>sched\<close> lists the
  batches of moves that happen at its scheduling points (\<open>yield\<close>, and \<open>block\<close> where it has to
  wait), \<open>wouts\<close> the results of its calls of \<open>conn.WriteMessage\<close> (success when the list is
  used up), \<open>choices\<close> the case a \<open>select\<close> takes when several are ready, \<open>uuids\<close> the results of
  \<open>uuid.New\<close>.  Time passes by \<open>MTick\<close> only.  An operation returns \<open>None\<close> when it does not
  return: it still waits when the script ends, or retries for ever.
\<close>

section \<open>The world of one goroutine\<close>

record sys =
  ad :: adapter
  clock :: nanos
  sched :: "move list list"
  wouts :: "go_error option list"
  choices :: "nat list"
  uuids :: "uuid list"

definition upd :: "(adapter \<Rightarrow> adapter) \<Rightarrow> sys \<Rightarrow> sys" where
  "upd f s = s\<lparr>ad := f (ad s)\<rparr>"

definition do_move :: "move \<Rightarrow> sys \<Rightarrow> sys" where
  "do_move m s = s\<lparr>ad := adapter_move (clock s) m (ad s),
     clock := clock s + (case m of MTick d \<Rightarrow> int d | _ \<Rightarrow> 0)\<rparr>"

definition yield :: "sys \<Rightarrow> sys" where
  "yield s = (case sched s of [] \<Rightarrow> s | ms # rest \<Rightarrow> fold do_move ms (s\<lparr>sched := rest\<rparr>))"

definition block :: "sys \<Rightarrow> sys option" where
  "block s = (case sched s of [] \<Rightarrow> None | ms # rest \<Rightarrow> Some (fold do_move ms (s\<lparr>sched := rest\<rparr>)))"

datatype ready = RCh | RDone | RTimer

definition pick_ready :: "ready list \<Rightarrow> sys \<Rightarrow> ready \<times> sys" where
  "pick_ready rs s =
    (case choices s of
       [] \<Rightarrow> (hd rs, s)
     | c # cs \<Rightarrow> (rs ! (c mod length rs), s\<lparr>choices := cs\<rparr>))"

definition new_uuid :: "sys \<Rightarrow> uuid \<times> sys" where
  "new_uuid s = (case uuids s of [] \<Rightarrow> (0, s) | u # us \<Rightarrow> (u, s\<lparr>uuids := us\<rparr>))"

definition unix_milli :: "nanos \<Rightarrow> u64" where
  "unix_milli t = word_of_int (t div 1000000)"

section \<open>Waiting\<close>

definition ready_cases :: "chan option \<Rightarrow> nanos option \<Rightarrow> sys \<Rightarrow> ready list" where
  "ready_cases ch tm s =
    (case ch of Some c \<Rightarrow> if c \<in> set (closedChans (ad s)) then [RCh] else [] | None \<Rightarrow> [])
    @ (if doneClosed (ad s) then [RDone] else [])
    @ (if deadline_passed (clock s) tm then [RTimer] else [])"

partial_function (option) wait_select :: "chan option \<Rightarrow> nanos option \<Rightarrow> sys \<Rightarrow> (ready \<times> sys) option" where
  "wait_select ch tm s =
    (if ready_cases ch tm s = [] then Option.bind (block s) (\<lambda>s1. wait_select ch tm s1)
     else Some (pick_ready (ready_cases ch tm s) s))"

definition waitWithWriteDeadline :: "chan \<Rightarrow> sys \<Rightarrow> (go_error option \<times> sys) option" where
  "waitWithWriteDeadline ch s =
    (if writeDeadlineExceeded (clock s) (ad s) then Some (Some TimeoutError, s)
     else
       let tm = map_option (\<lambda>d. clock s + d) (writeDeadlineWait (clock s) (ad s)) in
       do { (r, s1) \<leftarrow> wait_select (Some ch) tm s;
            Some (case r of RCh \<Rightarrow> None | RDone \<Rightarrow> Some IoErrClosedPipe | RTimer \<Rightarrow> Some TimeoutError, s1) })"

definition sleepWithWriteDeadline :: "nanos \<Rightarrow> sys \<Rightarrow> (go_error option \<times> sys) option" where
  "sleepWithWriteDeadline d s =
    (if writeDeadlineExceeded (clock s) (ad s) then Some (Some TimeoutError, s)
     else
       let wait = (case writeDeadlineWait (clock s) (ad s) of Some w \<Rightarrow> min d w | None \<Rightarrow> d) in
       if wait \<le> 0 then Some (Some TimeoutError, s)
       else
         do { (r, s1) \<leftarrow> wait_select None (Some (clock s + wait)) s;
              Some (case r of
                  RDone \<Rightarrow> Some IoErrClosedPipe
                | _ \<Rightarrow> if writeDeadlineExceeded (clock s1) (ad s1) then Some TimeoutError else None, s1) })"

partial_function (option) waitForPublication :: "sys \<Rightarrow> (go_error option \<times> sys) option" where
  "waitForPublication s =
    (let s0 = yield s in
     if \<not> paused (ad s0) then Some (None, s0)
     else
       do { (e, s1) \<leftarrow> (case pauseCh (ad s0) of
                None \<Rightarrow> sleepWithWriteDeadline (millis 10) s0
              | Some ch \<Rightarrow> waitWithWriteDeadline ch s0);
            (case e of Some err \<Rightarrow> Some (Some err, s1) | None \<Rightarrow> waitForPublication s1) })"

partial_function (option) waitUntilConnected :: "sys \<Rightarrow> (go_error option \<times> sys) option" where
  "waitUntilConnected s =
    (let s0 = yield s in
     if doneClosed (ad s0) then Some (Some IoErrClosedPipe, s0)
     else if \<not> reconnecting (ad s0) then Some (None, s0)
     else
       do { (e, s1) \<leftarrow> (case reconnectGate (ad s0) of
                None \<Rightarrow> sleepWithWriteDeadline (millis 10) s0
              | Some g \<Rightarrow> waitWithWriteDeadline g s0);
            (case e of Some err \<Rightarrow> Some (Some err, s1) | None \<Rightarrow> waitUntilConnected s1) })"

section \<open>Writing to the transport\<close>

text \<open>
  \<open>conn.WriteMessage\<close> with the deadline set before it.  Other goroutines run while the write is
  in progress; a WebSocket that has been closed by then fails the write.
\<close>

definition write_outcome :: "ws \<Rightarrow> sys \<Rightarrow> go_error option \<times> sys" where
  "write_outcome c s =
    (let (err, s1) = (case wouts s of [] \<Rightarrow> (None, s) | e # es \<Rightarrow> (e, s\<lparr>wouts := es\<rparr>))
     in (if err = None \<and> c \<in> set (closedConns (ad s1)) then Some NetErrClosed else err, s1))"

definition conn_write :: "ws \<Rightarrow> bytes \<Rightarrow> sys \<Rightarrow> go_error option \<times> sys" where
  "conn_write c frame s =
    (let s1 = yield (upd (\<lambda>a. a\<lparr>connWriteDeadline := Some (effectiveWriteDeadline (clock s) a)\<rparr>) s);
         (err, s2) = write_outcome c s1
     in (err, if err = None then upd (\<lambda>a. a\<lparr>sent := sent a @ [(c, frame)]\<rparr>) s2 else s2))"

text \<open>One round of the loop of \<open>writeRaw\<close> after the transport was found up.\<close>

datatype attempt = Returned "go_error option" sys | Again sys

definition writeRaw_attempt :: "bytes \<Rightarrow> sys \<Rightarrow> attempt" where
  "writeRaw_attempt frame s =
    (let s1 = yield s in
     if reconnecting (ad s1) then Again s1
     else (case conn (ad s1) of
       None \<Rightarrow> Returned (Some IoErrClosedPipe) s1
     | Some c \<Rightarrow>
         (case conn_write c frame s1 of
            (None, s2) \<Rightarrow> Returned None s2
          | (Some err, s2) \<Rightarrow>
              (case handleTransportFailure (clock s2) err (ad s2) of
                 (closing, a) \<Rightarrow>
                   if closing then Returned (Some err) (s2\<lparr>ad := a\<rparr>) else Again (s2\<lparr>ad := a\<rparr>)))))"

partial_function (option) writeRaw :: "bytes \<Rightarrow> sys \<Rightarrow> (go_error option \<times> sys) option" where
  "writeRaw frame s =
    do { (e, s1) \<leftarrow> waitUntilConnected s;
         (case e of
            Some err \<Rightarrow> Some (Some err, s1)
          | None \<Rightarrow>
              (case writeRaw_attempt frame s1 of
                 Returned r s2 \<Rightarrow> Some (r, s2)
               | Again s2 \<Rightarrow> writeRaw frame s2)) }"

definition writeMessage :: "AgentMessage \<Rightarrow> sys \<Rightarrow> (go_error option \<times> sys) option" where
  "writeMessage msg s = writeRaw (MarshalBinary msg) s"

section \<open>Room in the window\<close>

text \<open>
  \<open>addOutgoing\<close> waits on the condition variable; a timer made on the first wait broadcasts once
  when the deadline seen then is reached (\<open>ensureWriteDeadlineWake\<close>).
\<close>

datatype wake_timer = NoTimer | Armed nanos | Fired

definition ensureWriteDeadlineWake :: "nanos \<Rightarrow> adapter \<Rightarrow> wake_timer \<Rightarrow> wake_timer" where
  "ensureWriteDeadlineWake now a t =
    (if t \<noteq> NoTimer then t
     else case writeDeadlineWait now a of None \<Rightarrow> NoTimer | Some d \<Rightarrow> Armed (now + d))"

partial_function (option) cond_wait :: "nat \<Rightarrow> wake_timer \<Rightarrow> sys \<Rightarrow> (wake_timer \<times> sys) option" where
  "cond_wait b t s =
    (if broadcasts (win (ad s)) \<noteq> b then Some (t, s)
     else if (case t of Armed at \<Rightarrow> at \<le> clock s | _ \<Rightarrow> False)
     then Some (Fired, upd (upd_win outgoing_broadcast) s)
     else Option.bind (block s) (\<lambda>s1. cond_wait b t s1))"

partial_function (option) addOutgoing_loop ::
    "int \<Rightarrow> uuid \<Rightarrow> bytes \<Rightarrow> wake_timer \<Rightarrow> sys \<Rightarrow> (go_error option \<times> sys) option" where
  "addOutgoing_loop seq mid frame t s =
    (case addOutgoing_step (clock s) (writeDeadline (ad s)) seq mid frame (win (ad s)) of
       AddFail e \<Rightarrow> Some (Some e, s)
     | AddDone w \<Rightarrow> Some (None, upd (upd_win (\<lambda>_. w)) s)
     | AddWait \<Rightarrow>
         do { (t1, s1) \<leftarrow> cond_wait (broadcasts (win (ad s))) (ensureWriteDeadlineWake (clock s) (ad s) t) s;
              addOutgoing_loop seq mid frame t1 s1 })"

definition addOutgoing :: "int \<Rightarrow> uuid \<Rightarrow> bytes \<Rightarrow> sys \<Rightarrow> (go_error option \<times> sys) option" where
  "addOutgoing seq mid frame s = addOutgoing_loop seq mid frame NoTimer (yield s)"

section \<open>Write\<close>

text \<open>One chunk: tracked before it is sent, and dropped again when it cannot be sent.\<close>

definition Write_frame :: "int \<Rightarrow> uuid \<Rightarrow> bytes \<Rightarrow> sys \<Rightarrow> (go_error option \<times> sys) option" where
  "Write_frame seq mid frame s =
    do { (e, s1) \<leftarrow> addOutgoing seq mid frame s;
         (case e of
            Some err \<Rightarrow> Some (Some err, s1)
          | None \<Rightarrow>
              do { (e, s2) \<leftarrow> writeRaw frame s1;
                   (case e of
                      Some err \<Rightarrow> Some (Some err, upd (upd_win (dropOutgoing seq mid)) s2)
                    | None \<Rightarrow> Some (None, s2)) }) }"

definition Write_chunk :: "bytes \<Rightarrow> sys \<Rightarrow> (go_error option \<times> sys) option" where
  "Write_chunk payload s =
    do { (e, s1) \<leftarrow> waitForPublication s;
         (case e of
            Some err \<Rightarrow> Some (Some err, s1)
          | None \<Rightarrow>
              (let (seq, a) = nextSeq (ad s1);
                   (mid, s2) = new_uuid (s1\<lparr>ad := a\<rparr>)
               in Write_frame seq mid
                    (MarshalBinary (NewInputMessage (unix_milli (clock s2)) mid payload seq)) s2)) }"

definition send_len :: "int \<Rightarrow> bytes \<Rightarrow> nat" where
  "send_len cs b = (if int (length b) > cs then nat cs else length b)"

partial_function (option) Write_loop ::
    "int \<Rightarrow> bytes \<Rightarrow> nat \<Rightarrow> sys \<Rightarrow> ((nat \<times> go_error option) \<times> sys) option" where
  "Write_loop cs b n s =
    (if b = [] then Some ((n, None), s)
     else
       do { (e, s1) \<leftarrow> Write_chunk (take (send_len cs b) b) s;
            (case e of
               Some err \<Rightarrow> Some ((n, Some err), s1)
             | None \<Rightarrow> Write_loop cs (drop (send_len cs b) b) (n + send_len cs b) s1) })"

definition Write :: "bytes \<Rightarrow> sys \<Rightarrow> ((nat \<times> go_error option) \<times> sys) option" where
  "Write b s =
    Write_loop (if chunkSize (ad s) \<le> 0 then defaultStreamChunkSize else chunkSize (ad s)) b 0 s"

end
