(* ===== verification/WriteInv.thy ===== *)
theory WriteInv
  imports AdapterIO "HOL-Library.Sublist"
begin

text \<open>
  What the blocking operations of theory \<open>AdapterIO\<close> keep, for every script of interference.
  The locale \<open>io_rel\<close> is the common contract: a relation between the states before and after
  that every scheduling point and every own step respects is respected by the operations.  Its
  interpretations give the invariant of the adapter, the frames sent, and the monotone facts.
\<close>

section \<open>The contract of a blocking operation\<close>

locale io_rel =
  fixes Q :: "sys \<Rightarrow> sys \<Rightarrow> bool"
  assumes Q_refl: "Q s s"
    and Q_trans: "Q s s1 \<Longrightarrow> Q s1 s2 \<Longrightarrow> Q s s2"
    and batch: "sched s = ms # rest \<Longrightarrow> Q s (fold do_move ms (s\<lparr>sched := rest\<rparr>))"
    and quiet: "Q s (s\<lparr>choices := cs\<rparr>)" "Q s (s\<lparr>wouts := ws\<rparr>)" "Q s (s\<lparr>uuids := us\<rparr>)"
    and deadline: "Q s (upd (\<lambda>a. a\<lparr>connWriteDeadline := d\<rparr>) s)"
    and send: "Q s (upd (\<lambda>a. a\<lparr>sent := sent a @ [(c, frame)]\<rparr>) s)"
    and wake: "Q s (upd (upd_win outgoing_broadcast) s)"
    and failure: "Q s (s\<lparr>ad := snd (handleTransportFailure (clock s) e (ad s))\<rparr>)"
begin

lemma yield_rel: "Q s (yield s)"
  by (simp add: yield_def Q_refl batch split: list.split)

lemma block_rel: "block s = Some s' \<Longrightarrow> Q s s'"
  by (auto simp: block_def batch split: list.splits)

lemma pick_rel: "Q s (snd (pick_ready rs s))"
  by (simp add: pick_ready_def Q_refl quiet split: list.split)

lemma wait_select_rel: "wait_select ch tm s = Some y \<Longrightarrow> Q s (snd y)"
proof (induction ch tm s y rule: wait_select.raw_induct [rotated 1, consumes 1])
  case (1 f ch tm s y)
  show ?case
  proof (cases "ready_cases ch tm s = []")
    case True
    then obtain s1 where "block s = Some s1" "f ch tm s1 = Some y"
      using 1(2) by (auto simp: bind_eq_Some_conv)
    then show ?thesis using Q_trans [OF block_rel 1(1)] by blast
  next
    case False
    then have "y = pick_ready (ready_cases ch tm s) s" using 1(2) by simp
    then show ?thesis by (simp add: pick_rel)
  qed
qed

lemma waitWithWriteDeadline_rel: "waitWithWriteDeadline ch s = Some (e, s') \<Longrightarrow> Q s s'"
  by (auto simp: waitWithWriteDeadline_def Let_def bind_eq_Some_conv Q_refl split: if_splits
      dest: wait_select_rel)

lemma sleepWithWriteDeadline_rel: "sleepWithWriteDeadline d s = Some (e, s') \<Longrightarrow> Q s s'"
  by (auto simp: sleepWithWriteDeadline_def Let_def bind_eq_Some_conv Q_refl split: if_splits
      dest: wait_select_rel)

text \<open>One round of a loop that waits for a channel: it returns, or goes round after a wait.\<close>

lemma wait_round:
  assumes "Option.bind (case ch of None \<Rightarrow> sleepWithWriteDeadline d s | Some g \<Rightarrow> waitWithWriteDeadline g s)
      (\<lambda>(e, s1). case e of Some err \<Rightarrow> Some (Some err, s1) | None \<Rightarrow> f s1) = Some y"
    and "\<And>s1. f s1 = Some y \<Longrightarrow> Q s1 (snd y)"
  shows "Q s (snd y)"
proof -
  obtain e s1 where w: "(case ch of None \<Rightarrow> sleepWithWriteDeadline d s | Some g \<Rightarrow> waitWithWriteDeadline g s)
      = Some (e, s1)" and r: "(case e of Some err \<Rightarrow> Some (Some err, s1) | None \<Rightarrow> f s1) = Some y"
    using assms(1) by (auto simp: bind_eq_Some_conv)
  have "Q s s1"
    using w by (auto split: option.splits dest: waitWithWriteDeadline_rel sleepWithWriteDeadline_rel)
  then show ?thesis
    using r assms(2) by (auto split: option.splits dest: Q_trans)
qed

lemma waitForPublication_rel: "waitForPublication s = Some y \<Longrightarrow> Q s (snd y)"
proof (induction s y rule: waitForPublication.raw_induct [rotated 1, consumes 1])
  case (1 f s y)
  show ?case
  proof (cases "paused (ad (yield s))")
    case True
    have "Q (yield s) (snd y)"
      using 1(2) True by (intro wait_round [OF _ 1(1)]) (simp add: Let_def)
    then show ?thesis by (rule Q_trans [OF yield_rel])
  next
    case False
    then have "y = (None, yield s)" using 1(2) by (simp add: Let_def)
    then show ?thesis by (simp add: yield_rel)
  qed
qed

lemma waitUntilConnected_rel: "waitUntilConnected s = Some y \<Longrightarrow> Q s (snd y)"
proof (induction s y rule: waitUntilConnected.raw_induct [rotated 1, consumes 1])
  case (1 f s y)
  show ?case
  proof (cases "\<not> doneClosed (ad (yield s)) \<and> reconnecting (ad (yield s))")
    case True
    have "Q (yield s) (snd y)"
      using 1(2) True by (intro wait_round [OF _ 1(1)]) (simp add: Let_def)
    then show ?thesis by (rule Q_trans [OF yield_rel])
  next
    case False
    then have "snd y = yield s" using 1(2) by (auto simp: Let_def split: if_splits)
    then show ?thesis by (simp add: yield_rel)
  qed
qed

lemma write_outcome_rel: "Q s (snd (write_outcome c s))"
  by (simp add: write_outcome_def Q_refl quiet split: list.split)

lemma conn_write_rel: "Q s (snd (conn_write c frame s))"
proof -
  define s1 where "s1 = yield (upd (\<lambda>a. a\<lparr>connWriteDeadline := Some (effectiveWriteDeadline (clock s) a)\<rparr>) s)"
  have 1: "Q s s1"
    unfolding s1_def
    using Q_trans [OF deadline yield_rel] by (simp add: upd_def)
  have 2: "Q s (snd (write_outcome c s1))" by (rule Q_trans [OF 1 write_outcome_rel])
  then have "Q s (upd (\<lambda>a. a\<lparr>sent := sent a @ [(c, frame)]\<rparr>) (snd (write_outcome c s1)))"
    by (rule Q_trans [OF _ send])
  then show ?thesis using 2 by (simp add: conn_write_def s1_def [symmetric] split_beta)
qed

lemma writeRaw_attempt_rel:
  "Q s (case writeRaw_attempt frame s of Returned e s2 \<Rightarrow> s2 | Again s2 \<Rightarrow> s2)"
proof (cases "\<not> reconnecting (ad (yield s)) \<and> conn (ad (yield s)) \<noteq> None")
  case True
  then obtain c where c: "\<not> reconnecting (ad (yield s))" "conn (ad (yield s)) = Some c" by auto
  let ?s3 = "snd (conn_write c frame (yield s))"
  have Q3: "Q s ?s3" by (rule Q_trans [OF yield_rel conn_write_rel])
  have "Q s (?s3\<lparr>ad := snd (handleTransportFailure (clock ?s3) err (ad ?s3))\<rparr>)" for err
    by (rule Q_trans [OF Q3 failure])
  then show ?thesis
    using c Q3 by (simp add: writeRaw_attempt_def Let_def split_beta split: option.split)
next
  case False
  then show ?thesis using yield_rel [of s] by (auto simp: writeRaw_attempt_def Let_def)
qed

lemma writeRaw_rel: "writeRaw frame s = Some y \<Longrightarrow> Q s (snd y)"
proof (induction frame s y rule: writeRaw.raw_induct [rotated 1, consumes 1])
  case (1 f frame s y)
  obtain e s1 where w: "waitUntilConnected s = Some (e, s1)"
    using 1(2) by (auto simp: bind_eq_Some_conv)
  have Q1: "Q s s1" using waitUntilConnected_rel [OF w] by simp
  show ?case
  proof (cases e)
    case (Some err)
    then show ?thesis using 1(2) w Q1 by auto
  next
    case None
    then have "(case writeRaw_attempt frame s1 of Returned e s2 \<Rightarrow> Some (e, s2) | Again s2 \<Rightarrow> f frame s2) = Some y"
      using 1(2) w by simp
    then have "Q s1 (snd y)"
      using writeRaw_attempt_rel [of s1 frame] 1(1) Q_trans
      by (cases "writeRaw_attempt frame s1") auto
    then show ?thesis by (rule Q_trans [OF Q1])
  qed
qed

lemma cond_wait_rel: "cond_wait b t s = Some y \<Longrightarrow> Q s (snd y)"
proof (induction b t s y rule: cond_wait.raw_induct [rotated 1, consumes 1])
  case (1 f b t s y)
  let ?fire = "case t of Armed at \<Rightarrow> at \<le> clock s | _ \<Rightarrow> False"
  show ?case
  proof (cases "broadcasts (win (ad s)) = b \<and> \<not> ?fire")
    case True
    then obtain s1 where "block s = Some s1" "f b t s1 = Some y"
      using 1(2) by (auto simp: bind_eq_Some_conv)
    then show ?thesis using Q_trans [OF block_rel 1(1)] by blast
  next
    case False
    then show ?thesis using 1(2) Q_refl wake by (auto split: if_splits)
  qed
qed

end

section \<open>The invariant, the numbers and the log\<close>

text \<open>
  Sequence numbers are \<open>int64\<close>: the invariant holds while the counter is below its end, with
  room for one number per move of the script and for \<open>k\<close> more.
\<close>

definition num_room :: "int \<Rightarrow> sys \<Rightarrow> bool" where
  "num_room k s \<longleftrightarrow> seqNum (ad s) + int (length (concat (sched s))) + k \<le> max_i64"

definition sys_inv :: "int \<Rightarrow> sys \<Rightarrow> bool" where
  "sys_inv k s \<longleftrightarrow> adapter_inv (ad s) \<and> num_room k s"

text \<open>A number handed out and not yet used for a frame.\<close>

definition pending_num :: "int \<Rightarrow> adapter \<Rightarrow> bool" where
  "pending_num seq a \<longleftrightarrow> 0 \<le> seq \<and> seq < seqNum a \<and> seq \<notin> set (gm_keys (outgoing (win a)))"

lemma seqNum_ops [simp]:
  "seqNum (resumePublication a) = seqNum a" "seqNum (pausePublication now a) = seqNum a"
  "seqNum (clearPauseForReconnect a) = seqNum a" "seqNum (setCloseReason e a) = seqNum a"
  "seqNum (SetWriteDeadline dl a) = seqNum a" "seqNum (swapConn c a) = seqNum a"
  "seqNum (ForceCloseTransport a) = seqNum a" "seqNum (startReconnect now a) = seqNum a"
  "seqNum (reconnect_done a) = seqNum a" "seqNum (snd (markHandshakeComplete a)) = seqNum a"
  "seqNum (upd_win f a) = seqNum a" "seqNum (close_stream a) = seqNum a"
  by (simp_all add: resumePublication_def pausePublication_def clearPauseForReconnect_def
      setCloseReason_def SetWriteDeadline_def swapConn_def ForceCloseTransport_def
      startReconnect_def reconnect_done_def markHandshakeComplete_def adapter_prims Let_def
      split: option.split)

lemma seqNum_ops2 [simp]:
  "seqNum (closeWithError e a) = seqNum a" "seqNum (install_conn now c a) = seqNum a"
  "seqNum (resume_exhausted a) = seqNum a" "seqNum (snd (handleTransportFailure now e a)) = seqNum a"
  by (simp_all add: closeWithError_def install_conn_eq resume_exhausted_def handleTransportFailure_def)

lemma keys_ops [simp]:
  "outgoing (win (resumePublication a)) = outgoing (win a)"
  "outgoing (win (pausePublication now a)) = outgoing (win a)"
  "outgoing (win (clearPauseForReconnect a)) = outgoing (win a)"
  "outgoing (win (setCloseReason e a)) = outgoing (win a)"
  "outgoing (win (SetWriteDeadline dl a)) = outgoing (win a)"
  "outgoing (win (swapConn c a)) = outgoing (win a)"
  "outgoing (win (ForceCloseTransport a)) = outgoing (win a)"
  "outgoing (win (startReconnect now a)) = outgoing (win a)"
  "outgoing (win (reconnect_done a)) = outgoing (win a)"
  "outgoing (win (snd (markHandshakeComplete a))) = outgoing (win a)"
  "outgoing (win (close_stream a)) = outgoing (win a)"
  "outgoing (win (upd_win f a)) = outgoing (f (win a))"
  "outgoing (win (Close a)) = outgoing (win a)"
  by (simp_all add: resumePublication_def pausePublication_def clearPauseForReconnect_def
      setCloseReason_def SetWriteDeadline_def swapConn_def ForceCloseTransport_def
      startReconnect_def reconnect_done_def markHandshakeComplete_def adapter_prims Let_def
      outgoing_broadcast_def Close_def close_window_def split: option.split)

lemma keys_ops2 [simp]:
  "outgoing (win (closeWithError e a)) = outgoing (win a)"
  "set (gm_keys (outgoing (win (install_conn now c a)))) = set (gm_keys (outgoing (win a)))"
  "outgoing (win (resume_exhausted a)) = outgoing (win a)"
  "outgoing (win (snd (handleTransportFailure now e a))) = outgoing (win a)"
  by (simp_all add: closeWithError_def install_conn_eq resume_exhausted_def handleTransportFailure_def
      markOutgoingForRetransmit_def outgoing_broadcast_def Let_def)

text \<open>A move adds at most one number, and a frame only under the number it takes.\<close>

lemma other_write_effect:
  assumes "adapter_inv a" and "seqNum a < max_i64"
  shows "seqNum (other_write now uid frame a) = seqNum a + 1"
    "set (gm_keys (outgoing (win (other_write now uid frame a))))
      \<subseteq> insert (seqNum a) (set (gm_keys (outgoing (win a))))"
proof -
  have f: "fst (nextSeq a) = seqNum a" "seqNum (snd (nextSeq a)) = seqNum a + 1"
    "win (snd (nextSeq a)) = win a"
    using assms by (auto simp: nextSeq_def to_i64_def adapter_inv_def flow_inv_def)
  show "seqNum (other_write now uid frame a) = seqNum a + 1"
    using f by (simp add: other_write_def split_beta split: option.split add_result.split)
  show "set (gm_keys (outgoing (win (other_write now uid frame a))))
      \<subseteq> insert (seqNum a) (set (gm_keys (outgoing (win a))))"
    using f by (auto simp: other_write_def split_beta dest: addOutgoing_fields(3)
        split: option.splits add_result.splits)
qed

lemma move_effect:
  assumes "adapter_inv a"
  shows "seqNum a \<le> seqNum (adapter_move now m a)" "seqNum (adapter_move now m a) \<le> seqNum a + 1"
    "set (gm_keys (outgoing (win (adapter_move now m a))))
      \<subseteq> insert (seqNum a) (set (gm_keys (outgoing (win a))))"
proof -
  let ?b = "adapter_move now m a" and ?K = "set (gm_keys (outgoing (win a)))"
  have wi: "window_inv (win a)" by (rule adapter_window_inv [OF assms])
  have ng: "set (gm_keys (outgoing w')) \<subseteq> insert (seqNum a) ?K" if "no_growth (win a) w'" for w'
    using that by (auto simp: no_growth_def)
  have s: "seqNum (snd (nextSeq a)) = seqNum a + 1" if "seqNum a < max_i64"
    using that assms by (simp add: nextSeq_def to_i64_def adapter_inv_def flow_inv_def)
  have w: "win (snd (nextSeq a)) = win a" by (simp add: nextSeq_def)
  have "seqNum a \<le> seqNum ?b \<and> seqNum ?b \<le> seqNum a + 1
      \<and> set (gm_keys (outgoing (win ?b))) \<subseteq> insert (seqNum a) ?K"
  proof (cases m)
    case (MWrite uid frame)
    then show ?thesis
      using other_write_effect [OF assms, of now uid frame] by (auto simp: adapter_move_def)
  qed (use ng no_growth_ops [OF wi] s w in
      \<open>auto simp: adapter_move_def subset_insertI split: resume_loop.split\<close>)
  then show "seqNum a \<le> seqNum ?b" "seqNum ?b \<le> seqNum a + 1"
    "set (gm_keys (outgoing (win ?b))) \<subseteq> insert (seqNum a) ?K" by blast+
qed

lemma batch_inv:
  assumes "adapter_inv (ad s)"
  shows "adapter_inv (ad (fold do_move ms s)) \<and>
    seqNum (ad s) \<le> seqNum (ad (fold do_move ms s)) \<and>
    seqNum (ad (fold do_move ms s)) \<le> seqNum (ad s) + int (length ms) \<and>
    sched (fold do_move ms s) = sched s \<and>
    (pending_num seq (ad s) \<longrightarrow> pending_num seq (ad (fold do_move ms s))) \<and>
    later (ad s) (ad (fold do_move ms s))"
  using assms
proof (induction ms arbitrary: s)
  case (Cons m ms)
  let ?s = "do_move m s"
  have i: "adapter_inv (ad ?s)" using Cons.prems by (simp add: do_move_def adapter_move_inv)
  have e: "seqNum (ad s) \<le> seqNum (ad ?s)" "seqNum (ad ?s) \<le> seqNum (ad s) + 1"
    "set (gm_keys (outgoing (win (ad ?s)))) \<subseteq> insert (seqNum (ad s)) (set (gm_keys (outgoing (win (ad s)))))"
    using move_effect [OF Cons.prems] by (simp_all add: do_move_def)
  have p: "pending_num seq (ad s) \<longrightarrow> pending_num seq (ad ?s)"
    using e by (auto simp: pending_num_def)
  have l: "later (ad s) (ad ?s)" by (simp add: do_move_def later_move)
  have "sched ?s = sched s" by (simp add: do_move_def)
  then show ?case
    using Cons.IH [OF i] e p later_trans [OF l] by auto
qed simp

definition keep_rel :: "int \<Rightarrow> int \<Rightarrow> sys \<Rightarrow> sys \<Rightarrow> bool" where
  "keep_rel k seq s s' \<longleftrightarrow> (sys_inv k s \<longrightarrow> sys_inv k s' \<and> later (ad s) (ad s')
     \<and> seqNum (ad s) \<le> seqNum (ad s') \<and> (pending_num seq (ad s) \<longrightarrow> pending_num seq (ad s')))"

lemma quiet_adapter_inv:
  "adapter_inv (a\<lparr>connWriteDeadline := d\<rparr>) = adapter_inv a" "adapter_inv (a\<lparr>sent := l\<rparr>) = adapter_inv a"
  by (simp_all add: adapter_inv_defs)

lemma wake_adapter_inv: "adapter_inv a \<Longrightarrow> adapter_inv (upd_win outgoing_broadcast a)"
  by (rule upd_win_inv) (simp_all add: no_growth_broadcast adapter_window_inv)

lemma later_quiet:
  "later a (a\<lparr>connWriteDeadline := d\<rparr>)" "later a (a\<lparr>sent := l\<rparr>)" "later a (upd_win outgoing_broadcast a)"
  by (simp_all add: later_def upd_win_def outgoing_broadcast_def)

interpretation kr: io_rel "keep_rel k seq" for k seq
proof unfold_locales
  show "keep_rel k seq s (fold do_move ms (s\<lparr>sched := rest\<rparr>))" if "sched s = ms # rest" for s ms rest
    using that batch_inv [of "s\<lparr>sched := rest\<rparr>" ms seq]
    by (auto simp: keep_rel_def sys_inv_def num_room_def)
  show "keep_rel k seq s s2" if "keep_rel k seq s s1" "keep_rel k seq s1 s2" for s s1 s2
    using that by (auto simp: keep_rel_def intro: later_trans)
qed (simp_all add: keep_rel_def sys_inv_def num_room_def upd_def pending_num_def quiet_adapter_inv
    wake_adapter_inv failure_adapter_inv later_quiet later_failure outgoing_broadcast_def)

lemma keep_rel_trans: "keep_rel k seq s s1 \<Longrightarrow> keep_rel k seq s1 s2 \<Longrightarrow> keep_rel k seq s s2"
  by (rule kr.Q_trans)

lemma addOutgoing_loop_inv:
  assumes "addOutgoing_loop seq mid frame t s = Some y" and "sys_inv k s" and "pending_num seq (ad s)"
  shows "sys_inv k (snd y) \<and> later (ad s) (ad (snd y)) \<and> seqNum (ad s) \<le> seqNum (ad (snd y))"
  using assms
proof (induction seq mid frame t s y rule: addOutgoing_loop.raw_induct [rotated 1, consumes 1])
  case (1 f seq mid frame t s y)
  show ?case
  proof (cases "addOutgoing_step (clock s) (writeDeadline (ad s)) seq mid frame (win (ad s))")
    case (AddDone w)
    have "adapter_inv ((ad s)\<lparr>win := w\<rparr>)"
      using add_frame_inv [OF _ _ _ _ AddDone] 1(3,4) by (auto simp: sys_inv_def pending_num_def)
    moreover have "later (ad s) ((ad s)\<lparr>win := w\<rparr>)"
      using addOutgoing_fields(2) [OF AddDone] by (simp add: later_def)
    ultimately show ?thesis
      using 1(2,3) AddDone by (auto simp: upd_def upd_win_def sys_inv_def num_room_def)
  next
    case AddWait
    then obtain t1 s1 where w: "cond_wait (broadcasts (win (ad s))) (ensureWriteDeadlineWake (clock s) (ad s) t) s = Some (t1, s1)"
      and r: "f seq mid frame t1 s1 = Some y"
      using 1(2) by (auto simp: bind_eq_Some_conv)
    have "keep_rel k seq s s1" using kr.cond_wait_rel [OF w] by simp
    then show ?thesis using 1(1) [OF r] 1(3,4) by (auto simp: keep_rel_def intro: later_trans)
  qed (use 1(2,3) in auto)
qed

lemma addOutgoing_inv_io:
  assumes "addOutgoing seq mid frame s = Some y" and "sys_inv k s" and "pending_num seq (ad s)"
  shows "sys_inv k (snd y) \<and> later (ad s) (ad (snd y)) \<and> seqNum (ad s) \<le> seqNum (ad (snd y))"
proof -
  have "keep_rel k seq s (yield s)" by (rule kr.yield_rel)
  then show ?thesis
    using addOutgoing_loop_inv [of seq mid frame NoTimer "yield s" y k] assms
    by (auto simp: addOutgoing_def keep_rel_def intro: later_trans)
qed

text \<open>Taking a number.\<close>

lemma nextSeq_sys:
  assumes "sys_inv (k + 1) s" and "0 \<le> k"
  shows "sys_inv k (s\<lparr>ad := snd (nextSeq (ad s))\<rparr>)" "pending_num (seqNum (ad s)) (snd (nextSeq (ad s)))"
    "fst (nextSeq (ad s)) = seqNum (ad s)" "seqNum (snd (nextSeq (ad s))) = seqNum (ad s) + 1"
    "later (ad s) (snd (nextSeq (ad s)))"
proof -
  have r: "seqNum (ad s) < max_i64" using assms by (auto simp: sys_inv_def num_room_def)
  then have n: "seqNum (snd (nextSeq (ad s))) = seqNum (ad s) + 1"
    using assms(1) by (simp add: nextSeq_def to_i64_def sys_inv_def adapter_inv_def flow_inv_def)
  then show "seqNum (snd (nextSeq (ad s))) = seqNum (ad s) + 1" .
  show "sys_inv k (s\<lparr>ad := snd (nextSeq (ad s))\<rparr>)"
    using assms n nextSeq_adapter_inv [OF _ r] by (simp add: sys_inv_def num_room_def)
  show "pending_num (seqNum (ad s)) (snd (nextSeq (ad s)))"
    using assms(1) n by (auto simp: pending_num_def sys_inv_def adapter_inv_def flow_inv_def nextSeq_def)
  show "fst (nextSeq (ad s)) = seqNum (ad s)" by (simp add: nextSeq_def)
  show "later (ad s) (snd (nextSeq (ad s)))" by (rule later_small)
qed

end
