(* ===== verification/WriteSpec.thy ===== *)
theory WriteSpec
  imports WriteInv
begin

text \<open>
  The contract of \<open>Adapter.Write\<close>: what it has sent when it returns, in every interleaving; that
  it returns and sends everything when nothing stands in the way; and that the frames it sends,
  however the transport reorders or repeats them, reassemble to what was written.
\<close>

section \<open>The log of frames\<close>

definition sent_rel :: "sys \<Rightarrow> sys \<Rightarrow> bool" where
  "sent_rel s s' \<longleftrightarrow> prefix (sent (ad s)) (sent (ad s'))"

lemma sent_ops [simp]:
  "sent (resumePublication a) = sent a" "sent (pausePublication now a) = sent a"
  "sent (clearPauseForReconnect a) = sent a" "sent (setCloseReason e a) = sent a"
  "sent (SetWriteDeadline dl a) = sent a" "sent (swapConn c a) = sent a"
  "sent (ForceCloseTransport a) = sent a" "sent (startReconnect now a) = sent a"
  "sent (reconnect_done a) = sent a" "sent (snd (markHandshakeComplete a)) = sent a"
  "sent (upd_win f a) = sent a" "sent (close_stream a) = sent a" "sent (snd (nextSeq a)) = sent a"
  by (simp_all add: resumePublication_def pausePublication_def clearPauseForReconnect_def
      setCloseReason_def SetWriteDeadline_def swapConn_def ForceCloseTransport_def nextSeq_def
      startReconnect_def reconnect_done_def markHandshakeComplete_def adapter_prims Let_def
      split: option.split)

lemma sent_ops2 [simp]:
  "sent (closeWithError e a) = sent a" "sent (install_conn now c a) = sent a"
  "sent (resume_exhausted a) = sent a" "sent (snd (handleTransportFailure now e a)) = sent a"
  by (simp_all add: closeWithError_def install_conn_eq resume_exhausted_def handleTransportFailure_def)

lemma move_sent: "prefix (sent a) (sent (adapter_move now m a))"
proof (cases m)
  case (MWrite uid frame)
  have "sent (snd (nextSeq a)) = sent a" by simp
  then show ?thesis
    by (auto simp: MWrite adapter_move_def other_write_def split_beta split: option.split add_result.split)
qed (auto simp: adapter_move_def split: resume_loop.split)

lemma batch_sent: "prefix (sent (ad s)) (sent (ad (fold do_move ms s)))"
proof (induction ms arbitrary: s)
  case (Cons m ms)
  have "prefix (sent (ad s)) (sent (ad (do_move m s)))" by (simp add: do_move_def move_sent)
  then show ?case using Cons.IH [of "do_move m s"] by (simp add: prefix_order.order_trans)
qed simp

interpretation sr: io_rel sent_rel
proof unfold_locales
  show "sent_rel s (fold do_move ms (s\<lparr>sched := rest\<rparr>))" for s ms rest
    using batch_sent [of "s\<lparr>sched := rest\<rparr>" ms] by (simp add: sent_rel_def)
qed (auto simp: sent_rel_def upd_def)

lemma addOutgoing_sent:
  assumes "addOutgoing_loop seq mid frame t s = Some y"
  shows "sent_rel s (snd y)"
  using assms
proof (induction seq mid frame t s y rule: addOutgoing_loop.raw_induct [rotated 1, consumes 1])
  case (1 f seq mid frame t s y)
  show ?case
  proof (cases "addOutgoing_step (clock s) (writeDeadline (ad s)) seq mid frame (win (ad s))")
    case AddWait
    then obtain t1 s1 where w: "cond_wait (broadcasts (win (ad s))) (ensureWriteDeadlineWake (clock s) (ad s) t) s = Some (t1, s1)"
      and r: "f seq mid frame t1 s1 = Some y"
      using 1(2) by (auto simp: bind_eq_Some_conv)
    show ?thesis using sr.Q_trans [OF sr.cond_wait_rel [OF w]] 1(1) [OF r] by simp
  qed (use 1(2) in \<open>auto simp: sent_rel_def upd_def\<close>)
qed

text \<open>A successful \<open>writeRaw\<close> ends by sending the frame.\<close>

lemma conn_write_sent:
  "conn_write c frame s = (None, s') \<Longrightarrow> \<exists>l. sent (ad s') = sent (ad s) @ l @ [(c, frame)]"
proof -
  assume w: "conn_write c frame s = (None, s')"
  let ?s1 = "yield (upd (\<lambda>a. a\<lparr>connWriteDeadline := Some (effectiveWriteDeadline (clock s) a)\<rparr>) s)"
  have "sent_rel (upd (\<lambda>a. a\<lparr>connWriteDeadline := Some (effectiveWriteDeadline (clock s) a)\<rparr>) s) ?s1"
    by (rule sr.yield_rel)
  then obtain l where "sent (ad ?s1) = sent (ad s) @ l" by (auto simp: sent_rel_def upd_def prefix_def)
  moreover have "sent (ad (snd (write_outcome c ?s1))) = sent (ad ?s1)"
    by (simp add: write_outcome_def split: list.split)
  ultimately show ?thesis
    using w by (auto simp: conn_write_def Let_def split_beta upd_def)
qed

lemma writeRaw_sent:
  assumes "writeRaw frame s = Some (None, s')"
  shows "\<exists>l c. sent (ad s') = sent (ad s) @ l @ [(c, frame)]"
proof -
  have "fst y = None \<longrightarrow> (\<exists>l c. sent (ad (snd y)) = sent (ad s) @ l @ [(c, frame)])"
    if "writeRaw frame s = Some y" for y
    using that
  proof (induction frame s y rule: writeRaw.raw_induct [rotated 1, consumes 1])
    case (1 f frame s y)
    obtain e s1 where w: "waitUntilConnected s = Some (e, s1)"
      using 1(2) by (auto simp: bind_eq_Some_conv)
    obtain l1 where l1: "sent (ad s1) = sent (ad s) @ l1"
      using sr.waitUntilConnected_rel [OF w] by (auto simp: sent_rel_def prefix_def)
    have att: "sent_rel s1 (case writeRaw_attempt frame s1 of Returned e s2 \<Rightarrow> s2 | Again s2 \<Rightarrow> s2)"
      by (rule sr.writeRaw_attempt_rel)
    show ?case
    proof (cases e)
      case None
      then have r: "(case writeRaw_attempt frame s1 of Returned e s2 \<Rightarrow> Some (e, s2) | Again s2 \<Rightarrow> f frame s2) = Some y"
        using 1(2) w by simp
      show ?thesis
      proof (cases "writeRaw_attempt frame s1")
        case (Again s2)
        then obtain l2 where "sent (ad s2) = sent (ad s1) @ l2"
          using att by (auto simp: sent_rel_def prefix_def)
        then show ?thesis using 1(1) [of frame s2 y] r Again l1 by auto
      next
        case (Returned e' s2)
        show ?thesis
        proof
          assume "fst y = None"
          then have "e' = None" "s2 = snd y" using r Returned by auto
          then obtain c where "conn_write c frame (yield s1) = (None, snd y)"
            using Returned by (auto simp: writeRaw_attempt_def Let_def
                split: if_splits option.splits prod.splits)
          then obtain l2 where l2: "sent (ad (snd y)) = sent (ad (yield s1)) @ l2 @ [(c, frame)]"
            using conn_write_sent by blast
          obtain l3 where "sent (ad (yield s1)) = sent (ad s1) @ l3"
            using sr.yield_rel [of s1] by (auto simp: sent_rel_def prefix_def)
          then show "\<exists>l c. sent (ad (snd y)) = sent (ad s) @ l @ [(c, frame)]"
            using l1 l2 by auto
        qed
      qed
    qed (use 1(2) w in auto)
  qed
  from this [OF assms] show ?thesis by simp
qed

section \<open>One chunk\<close>

definition data_frame :: "int \<Rightarrow> bytes \<Rightarrow> bytes \<Rightarrow> bool" where
  "data_frame seq p f \<longleftrightarrow> (\<exists>t u. f = MarshalBinary (NewInputMessage t u p seq))"

lemma new_uuid_ad [simp]:
  "ad (snd (new_uuid s)) = ad s" "sched (snd (new_uuid s)) = sched s" "clock (snd (new_uuid s)) = clock s"
  by (simp_all add: new_uuid_def split: list.split)

lemma sys_inv_new_uuid [simp]: "sys_inv k (snd (new_uuid s)) = sys_inv k s"
  by (simp add: sys_inv_def num_room_def)

lemma drop_sys_inv: "sys_inv k s \<Longrightarrow> sys_inv k (upd (upd_win (dropOutgoing seq mid)) s)"
  by (simp add: sys_inv_def num_room_def upd_def drop_adapter_inv)

lemma later_drop: "later a (upd_win (dropOutgoing seq mid) a)"
  by (rule later_upd_win)
    (simp add: dropOutgoing_def Let_def outgoing_broadcast_def split: option.splits)

lemma Write_frame_effect:
  assumes run: "Write_frame seq mid f s = Some (e, s')" and "sys_inv k s" and "pending_num seq (ad s)"
  shows "sys_inv k s' \<and> later (ad s) (ad s') \<and> seqNum (ad s) \<le> seqNum (ad s') \<and> sent_rel s s'
    \<and> (e = None \<longrightarrow> (\<exists>l c. sent (ad s') = sent (ad s) @ l @ [(c, f)]))"
proof -
  note run = run [unfolded Write_frame_def]
  obtain e1 s1 where a: "addOutgoing seq mid f s = Some (e1, s1)" using run by (auto simp: bind_eq_Some_conv)
  note i1 = addOutgoing_inv_io [OF a assms(2,3)]
  have p1: "sent_rel s s1"
    using sr.Q_trans [OF sr.yield_rel] addOutgoing_sent a by (force simp: addOutgoing_def)
  show ?thesis
  proof (cases e1)
    case (Some err)
    then show ?thesis using run a i1 p1 by auto
  next
    case None
    then obtain e2 s2 where r: "writeRaw f s1 = Some (e2, s2)" using run a by (auto simp: bind_eq_Some_conv)
    have i2: "sys_inv k s2" "later (ad s1) (ad s2)" "seqNum (ad s1) \<le> seqNum (ad s2)"
      using kr.writeRaw_rel [OF r, of k 0] i1 by (auto simp: keep_rel_def)
    have p2: "sent_rel s s2" using sr.Q_trans [OF p1 sr.writeRaw_rel [OF r]] by simp
    have l2: "later (ad s) (ad s2)" using later_trans [OF _ i2(2)] i1 by simp
    show ?thesis
    proof (cases e2)
      case (Some err)
      then have "s' = upd (upd_win (dropOutgoing seq mid)) s2 \<and> e = Some err" using run a None r by simp
      then show ?thesis
        using drop_sys_inv [OF i2(1)] later_trans [OF l2 later_drop] p2 i1 i2(3) by (auto simp: upd_def sent_rel_def)
    next
      case None
      obtain l c where "sent (ad s2) = sent (ad s1) @ l @ [(c, f)]" using writeRaw_sent r None by blast
      moreover obtain l' where "sent (ad s1) = sent (ad s) @ l'" using p1 by (auto simp: sent_rel_def prefix_def)
      moreover have "s' = s2" using run a \<open>e1 = None\<close> None r by simp
      ultimately show ?thesis using i1 i2 l2 p2 by fastforce
    qed
  qed
qed

lemma Write_chunk_effect:
  assumes "Write_chunk p s = Some (e, s')" and "sys_inv (k + 1) s" and "0 \<le> k"
  shows "sys_inv k s' \<and> later (ad s) (ad s') \<and> seqNum (ad s) \<le> seqNum (ad s') \<and> sent_rel s s'
    \<and> (e = None \<longrightarrow> (\<exists>l c f seq. sent (ad s') = sent (ad s) @ l @ [(c, f)] \<and> data_frame seq p f
          \<and> seqNum (ad s) \<le> seq \<and> seq < seqNum (ad s')))"
proof -
  obtain e1 s1 where w: "waitForPublication s = Some (e1, s1)"
    using assms(1) by (auto simp: Write_chunk_def bind_eq_Some_conv)
  have k1: "sys_inv (k + 1) s1" "later (ad s) (ad s1)" "seqNum (ad s) \<le> seqNum (ad s1)"
    using kr.waitForPublication_rel [OF w, of "k + 1" 0] assms(2) by (auto simp: keep_rel_def)
  have p1: "sent_rel s s1" using sr.waitForPublication_rel [OF w] by simp
  show ?thesis
  proof (cases e1)
    case (Some err)
    moreover have "sys_inv k s1" using k1(1) by (simp add: sys_inv_def num_room_def)
    ultimately show ?thesis using assms(1) w k1 p1 by (auto simp: Write_chunk_def)
  next
    case None
    let ?seq = "seqNum (ad s1)"
    define s2 where "s2 = s1\<lparr>ad := snd (nextSeq (ad s1))\<rparr>"
    define mid where "mid = fst (new_uuid s2)"
    define s3 where "s3 = snd (new_uuid s2)"
    define f where "f = MarshalBinary (NewInputMessage (unix_milli (clock s3)) mid p ?seq)"
    note n = nextSeq_sys [OF k1(1) assms(3)]
    have i3: "sys_inv k s3" "pending_num ?seq (ad s3)" "seqNum (ad s3) = ?seq + 1"
      "later (ad s1) (ad s3)" "sent (ad s3) = sent (ad s1)"
      using n by (simp_all add: s3_def s2_def)
    have "Write_frame ?seq mid f s3 = Some (e, s')"
      using assms(1) w None by (simp add: Write_chunk_def split_beta Let_def n(3) s2_def s3_def mid_def f_def)
    note fe = Write_frame_effect [OF this i3(1,2)]
    have "sent_rel s s'" using p1 fe i3(5) unfolding sent_rel_def by (metis prefix_order.order_trans)
    moreover have "later (ad s) (ad s')" using later_trans k1(2) i3(4) fe by blast
    moreover have "data_frame ?seq p f" unfolding data_frame_def f_def by blast
    moreover obtain l where "sent (ad s1) = sent (ad s) @ l" using p1 by (auto simp: sent_rel_def prefix_def)
    ultimately show ?thesis using fe i3(3,5) k1(3) by fastforce
  qed
qed

section \<open>Write in every interleaving\<close>

text \<open>The frames of one call: numbers, payloads and bytes.\<close>

definition own_frames :: "int \<Rightarrow> int \<Rightarrow> (int \<times> bytes \<times> bytes) list \<Rightarrow> bool" where
  "own_frames lo hi own \<longleftrightarrow> sorted_wrt (<) (map fst own)
     \<and> (\<forall>(seq, p, f) \<in> set own. data_frame seq p f \<and> lo \<le> seq \<and> seq < hi)"

lemma own_frames_Cons:
  assumes "data_frame seq p f" and "lo \<le> seq" and "seq < mid" and "mid \<le> hi" and "own_frames mid hi own"
  shows "own_frames lo hi ((seq, p, f) # own)"
proof -
  have "\<forall>x \<in> set own. seq < fst x" using assms(3,5) by (force simp: own_frames_def)
  moreover have "\<forall>(s, p, f) \<in> set own. data_frame s p f \<and> lo \<le> s \<and> s < hi"
    using assms(2,3,5) by (force simp: own_frames_def)
  ultimately show ?thesis using assms by (simp add: own_frames_def)
qed

lemma send_len_range:
  assumes "0 < cs" and "b \<noteq> []"
  shows "0 < send_len cs b" "send_len cs b \<le> length b" "int (send_len cs b) \<le> cs"
  using assms by (auto simp: send_len_def)

text \<open>
  What a call has done when it returns \<open>y\<close>: \<open>l\<close> is what the log gained, \<open>own\<close> the frames the
  call sent itself, among those of other writers; their payloads are the first part of \<open>b\<close>.
\<close>

definition loop_effect ::
    "int \<Rightarrow> bytes \<Rightarrow> nat \<Rightarrow> int \<Rightarrow> sys \<Rightarrow> (nat \<times> go_error option) \<times> sys
     \<Rightarrow> (ws \<times> bytes) list \<Rightarrow> (int \<times> bytes \<times> bytes) list \<Rightarrow> bool" where
  "loop_effect cs b n k s y l own \<longleftrightarrow>
     sent (ad (snd y)) = sent (ad s) @ l \<and> subseq (map (snd \<circ> snd) own) (map snd l)
     \<and> own_frames (seqNum (ad s)) (seqNum (ad (snd y))) own
     \<and> n \<le> fst (fst y) \<and> concat (map (fst \<circ> snd) own) = take (fst (fst y) - n) b
     \<and> (\<forall>x \<in> set own. 0 < length (fst (snd x)) \<and> int (length (fst (snd x))) \<le> cs)
     \<and> fst (fst y) \<le> n + length b \<and> (snd (fst y) = None \<longleftrightarrow> fst (fst y) = n + length b)
     \<and> sys_inv (k - int (length b)) (snd y) \<and> later (ad s) (ad (snd y))
     \<and> seqNum (ad s) \<le> seqNum (ad (snd y))"

lemma loop_effect_Cons:
  assumes ih: "loop_effect cs (drop m b) (n + m) (k - 1) s1 y l2 own" and m: "0 < m" "m \<le> length b" "int m \<le> cs"
    and l: "sent (ad s1) = sent (ad s) @ l @ [(c, fr)]" and fr: "data_frame seq (take m b) fr"
    and lo: "seqNum (ad s) \<le> seq" "seq < seqNum (ad s1)" and later: "later (ad s) (ad s1)"
  shows "loop_effect cs b n k s y (l @ (c, fr) # l2) ((seq, take m b, fr) # own)"
proof -
  let ?own = "(seq, take m b, fr) # own"
  note ih = ih [unfolded loop_effect_def]
  have "subseq (map (snd \<circ> snd) ?own) (map snd (l @ (c, fr) # l2))"
    using ih by (simp add: list_emb_append2)
  moreover have "concat (map (fst \<circ> snd) ?own) = take (fst (fst y) - n) b"
  proof -
    have "take m b @ take (fst (fst y) - (n + m)) (drop m b) = take (m + (fst (fst y) - (n + m))) b"
      by (simp add: take_add)
    moreover have "m + (fst (fst y) - (n + m)) = fst (fst y) - n" using ih by linarith
    ultimately show ?thesis using ih by simp
  qed
  moreover have "own_frames (seqNum (ad s)) (seqNum (ad (snd y))) ?own"
    by (rule own_frames_Cons [OF fr lo]) (use ih in blast)+
  moreover have "sys_inv (k - int (length b)) (snd y)" using ih m by (simp add: sys_inv_def num_room_def)
  moreover have "later (ad s) (ad (snd y))" using later ih later_trans by blast
  moreover have "n + m + length (drop m b) = n + length b" using m by simp
  ultimately show ?thesis unfolding loop_effect_def using l ih m fr lo by auto
qed

lemma Write_loop_effect:
  assumes "Write_loop cs b n s = Some y" and "sys_inv k s" and "int (length b) \<le> k" and "0 < cs"
  shows "\<exists>l own. loop_effect cs b n k s y l own"
  using assms
proof (induction cs b n s y arbitrary: k rule: Write_loop.raw_induct [rotated 1, consumes 1])
  case (1 f cs b n s y)
  show ?case
  proof (cases "b = []")
    case True
    then have "y = ((n, None), s)" using 1(2) by simp
    then have "loop_effect cs b n k s y [] []"
      using 1(3) True by (simp add: own_frames_def loop_effect_def)
    then show ?thesis by blast
  next
    case ne: False
    let ?m = "send_len cs b"
    note m = send_len_range [OF 1(5) ne]
    obtain e s1 where c: "Write_chunk (take ?m b) s = Some (e, s1)"
      using 1(2) ne by (auto simp: bind_eq_Some_conv)
    have b1: "1 \<le> int (length b)" using ne by (cases b) auto
    then have k: "sys_inv (k - 1 + 1) s" "0 \<le> k - 1" using 1(3,4) by auto
    note ce = Write_chunk_effect [OF c k]
    have weaken: "sys_inv j s1" if "j \<le> k - 1" for j
      using ce that by (auto simp: sys_inv_def num_room_def)
    show ?thesis
    proof (cases e)
      case (Some err)
      then have y: "y = ((n, Some err), s1)" using 1(2) ne c by simp
      obtain l where "sent (ad s1) = sent (ad s) @ l"
        using ce by (auto simp: sent_rel_def prefix_def)
      moreover have "sys_inv (k - int (length b)) s1" using b1 by (intro weaken) linarith
      ultimately have "loop_effect cs b n k s y l []"
        using ce ne y by (simp add: own_frames_def loop_effect_def)
      then show ?thesis by blast
    next
      case None
      then have r: "f cs (drop ?m b) (n + ?m) s1 = Some y" using 1(2) ne c by simp
      have len: "int (length (drop ?m b)) \<le> k - 1" using 1(4) m by simp
      obtain l2 own where "loop_effect cs (drop ?m b) (n + ?m) (k - 1) s1 y l2 own"
        using 1(1) [OF r weaken [OF order_refl] len 1(5)] by blast
      from loop_effect_Cons [OF this m] ce None show ?thesis by blast
    qed
  qed
qed

definition eff_chunk :: "adapter \<Rightarrow> int" where
  "eff_chunk a = (if chunkSize a \<le> 0 then defaultStreamChunkSize else chunkSize a)"

lemma eff_chunk_pos: "0 < eff_chunk a"
  by (simp add: eff_chunk_def adapter_consts)

lemma Write_eff: "Write b s = Write_loop (eff_chunk (ad s)) b 0 s"
  by (simp add: Write_def eff_chunk_def)

section \<open>Write when nothing stands in the way\<close>

definition quiet_sys :: "ws \<Rightarrow> sys \<Rightarrow> bool" where
  "quiet_sys c s \<longleftrightarrow> sched s = [] \<and> wouts s = [] \<and> \<not> doneClosed (ad s) \<and> \<not> paused (ad s)
     \<and> \<not> reconnecting (ad s) \<and> conn (ad s) = Some c \<and> c \<notin> set (closedConns (ad s))
     \<and> \<not> outgoingClosed (win (ad s))"

lemma length_MarshalBinary: "length (MarshalBinary m) = 120 + length (Payload m)"
  by (simp add: MarshalBinary_def TotalHeaderLen_def)

lemma quiet_yield: "sched s = [] \<Longrightarrow> yield s = s"
  by (simp add: yield_def)

lemma quiet_waits:
  assumes "quiet_sys c s"
  shows "waitForPublication s = Some (None, s)" "waitUntilConnected s = Some (None, s)"
  using assms by (simp_all add: waitForPublication.simps waitUntilConnected.simps quiet_sys_def quiet_yield)

lemma quiet_writeRaw:
  assumes "quiet_sys c s"
  shows "writeRaw f s = Some (None, upd (\<lambda>a. a\<lparr>connWriteDeadline := Some (effectiveWriteDeadline (clock s) (ad s)),
     sent := sent a @ [(c, f)]\<rparr>) s)"
proof -
  have "sched (upd g s) = []" "wouts (upd g s) = []" for g
    using assms by (simp_all add: quiet_sys_def upd_def)
  then show ?thesis
    using assms quiet_waits(2) [OF assms]
    by (subst writeRaw.simps)
      (simp add: writeRaw_attempt_def conn_write_def write_outcome_def Let_def quiet_sys_def
        quiet_yield upd_def)
qed

lemma quiet_addOutgoing:
  assumes "quiet_sys c s"
    and "outgoingBytes (win (ad s)) + int (length f) \<le> maxOutgoingUnackedBytes (win (ad s))"
  shows "addOutgoing seq mid f s = Some (None, upd (upd_win (insert_outgoing (clock s) seq mid f)) s)"
  using assms
  by (simp add: addOutgoing_def quiet_sys_def quiet_yield addOutgoing_loop.simps addOutgoing_step_def
      upd_def upd_win_def)

text \<open>What one chunk changes.\<close>

definition wrote_chunk :: "ws \<Rightarrow> bytes \<Rightarrow> sys \<Rightarrow> bytes \<Rightarrow> sys \<Rightarrow> bool" where
  "wrote_chunk c p s f s' \<longleftrightarrow> quiet_sys c s' \<and> data_frame (seqNum (ad s)) p f
     \<and> sent (ad s') = sent (ad s) @ [(c, f)] \<and> seqNum (ad s') = to_i64 (seqNum (ad s) + 1)
     \<and> outgoingBytes (win (ad s')) = outgoingBytes (win (ad s)) + 120 + int (length p)
     \<and> maxOutgoingUnackedBytes (win (ad s')) = maxOutgoingUnackedBytes (win (ad s))
     \<and> map_option snd (window_unacked (win (ad s')) (seqNum (ad s))) = Some f
     \<and> (\<forall>k. k \<noteq> seqNum (ad s) \<longrightarrow> window_unacked (win (ad s')) k = window_unacked (win (ad s)) k)
     \<and> rcv (ad s') = rcv (ad s) \<and> chunkSize (ad s') = chunkSize (ad s)"

lemma quiet_Write_chunk:
  assumes "quiet_sys c s"
    and "outgoingBytes (win (ad s)) + 120 + int (length p) \<le> maxOutgoingUnackedBytes (win (ad s))"
  shows "\<exists>f s'. Write_chunk p s = Some (None, s') \<and> wrote_chunk c p s f s'"
proof -
  define s1 where "s1 = s\<lparr>ad := snd (nextSeq (ad s))\<rparr>"
  define mid where "mid = fst (new_uuid s1)"
  define s2 where "s2 = snd (new_uuid s1)"
  define f where "f = MarshalBinary (NewInputMessage (unix_milli (clock s2)) mid p (seqNum (ad s)))"
  have len: "int (length f) = 120 + int (length p)"
    by (simp add: f_def length_MarshalBinary NewInputMessage_def)
  have w2: "wouts s2 = wouts s" by (simp add: s2_def s1_def new_uuid_def split: list.split)
  have q2: "quiet_sys c s2"
    using assms(1) w2 by (simp add: s2_def s1_def quiet_sys_def nextSeq_def)
  have a2: "ad s2 = (ad s)\<lparr>seqNum := to_i64 (seqNum (ad s) + 1)\<rparr>"
    by (simp add: s2_def s1_def nextSeq_def)
  define s3 where "s3 = upd (upd_win (insert_outgoing (clock s2) (seqNum (ad s)) mid f)) s2"
  have add: "addOutgoing (seqNum (ad s)) mid f s2 = Some (None, s3)"
    unfolding s3_def using assms(2) len by (intro quiet_addOutgoing [OF q2]) (simp add: a2)
  have q3: "quiet_sys c s3"
    using q2 by (simp add: s3_def quiet_sys_def upd_def upd_win_def insert_outgoing_def)
  define s4 where "s4 = upd (\<lambda>a. a\<lparr>connWriteDeadline := Some (effectiveWriteDeadline (clock s3) (ad s3)),
     sent := sent a @ [(c, f)]\<rparr>) s3"
  have raw: "writeRaw f s3 = Some (None, s4)" unfolding s4_def by (rule quiet_writeRaw [OF q3])
  have "fst (nextSeq (ad s)) = seqNum (ad s)" by (simp add: nextSeq_def)
  then have "Write_chunk p s = Write_frame (seqNum (ad s)) mid f s2"
    using quiet_waits(1) [OF assms(1)]
    by (simp add: Write_chunk_def split_beta Let_def s1_def s2_def mid_def f_def)
  also have "\<dots> = Some (None, s4)" by (simp add: Write_frame_def add raw)
  finally have w: "Write_chunk p s = Some (None, s4)" .
  have wn: "win (ad s4) = insert_outgoing (clock s2) (seqNum (ad s)) mid f (win (ad s))"
    by (simp add: s4_def s3_def upd_def upd_win_def a2)
  have d: "data_frame (seqNum (ad s)) p f" unfolding data_frame_def f_def by blast
  have "wrote_chunk c p s f s4"
    unfolding wrote_chunk_def wn insert_unacked
    using q3 len d
    by (simp add: quiet_sys_def s4_def s3_def upd_def upd_win_def a2 insert_outgoing_def)
  then show ?thesis using w by blast
qed

text \<open>The whole call: consecutive numbers, one frame per chunk, nothing else sent.\<close>

definition frames_of :: "int \<Rightarrow> bytes list \<Rightarrow> bytes list \<Rightarrow> bool" where
  "frames_of seq ps fs \<longleftrightarrow> list_all2 (\<lambda>(k, p) f. data_frame k p f) (zip [seq..seq + int (length ps) - 1] ps) fs"

lemma frames_of_Nil [simp]: "frames_of seq [] []"
  by (simp add: frames_of_def)

lemma frames_of_Cons:
  assumes "data_frame seq p f" and "frames_of (seq + 1) ps fs"
  shows "frames_of seq (p # ps) (f # fs)"
proof -
  have "[seq..seq + (1 + int (length ps)) - 1] = seq # [seq + 1..seq + 1 + int (length ps) - 1]"
    by (subst upto_rec1) (simp_all add: algebra_simps)
  then show ?thesis using assms by (simp add: frames_of_def)
qed

definition room_for :: "int \<Rightarrow> bytes \<Rightarrow> adapter \<Rightarrow> bool" where
  "room_for cs b a \<longleftrightarrow> outgoingBytes (win a) + int (length b) + 120 * (int (length b) div cs + 1)
     \<le> maxOutgoingUnackedBytes (win a)"

lemma room_for_chunk:
  assumes "room_for cs b a" and "0 < cs" and "b \<noteq> []"
  shows "outgoingBytes (win a) + 120 + int (length (take (send_len cs b) b)) \<le> maxOutgoingUnackedBytes (win a)"
    "outgoingBytes (win a') = outgoingBytes (win a) + 120 + int (length (take (send_len cs b) b)) \<Longrightarrow>
     maxOutgoingUnackedBytes (win a') = maxOutgoingUnackedBytes (win a) \<Longrightarrow>
     drop (send_len cs b) b = [] \<or> room_for cs (drop (send_len cs b) b) a'"
proof -
  have "0 \<le> int (length b) div cs" using assms(2) by (simp add: pos_imp_zdiv_nonneg_iff)
  then show "outgoingBytes (win a) + 120 + int (length (take (send_len cs b) b)) \<le> maxOutgoingUnackedBytes (win a)"
    using assms(1) send_len_range [OF assms(2,3)] by (simp add: room_for_def)
  assume a': "outgoingBytes (win a') = outgoingBytes (win a) + 120 + int (length (take (send_len cs b) b))"
    "maxOutgoingUnackedBytes (win a') = maxOutgoingUnackedBytes (win a)"
  show "drop (send_len cs b) b = [] \<or> room_for cs (drop (send_len cs b) b) a'"
  proof (cases "int (length b) > cs")
    case True
    then have "int (send_len cs b) = cs" using assms(2) by (simp add: send_len_def)
    moreover have "(int (length b) - cs) div cs = int (length b) div cs - 1"
      using assms(2) by (metis div_add_self2 diff_add_cancel add_diff_cancel order_less_irrefl)
    ultimately show ?thesis
      using assms(1) a' send_len_range [OF assms(2,3)]
      by (simp add: room_for_def of_nat_diff)
  qed (simp add: send_len_def)
qed

text \<open>What the loop leaves: the payloads \<open>ps\<close> and frames \<open>fs\<close> of the bytes it sent, all tracked.\<close>

definition wrote_all :: "ws \<Rightarrow> int \<Rightarrow> bytes \<Rightarrow> sys \<Rightarrow> bytes list \<Rightarrow> bytes list \<Rightarrow> sys \<Rightarrow> bool" where
  "wrote_all c cs b s ps fs s' \<longleftrightarrow> concat ps = b \<and> (\<forall>p \<in> set ps. 0 < length p \<and> int (length p) \<le> cs)
     \<and> frames_of (seqNum (ad s)) ps fs
     \<and> sent (ad s') = sent (ad s) @ map (Pair c) fs \<and> seqNum (ad s') = seqNum (ad s) + int (length ps)
     \<and> (\<forall>i < length fs. map_option snd (window_unacked (win (ad s')) (seqNum (ad s) + int i)) = Some (fs ! i))
     \<and> (\<forall>k < seqNum (ad s). window_unacked (win (ad s')) k = window_unacked (win (ad s)) k)
     \<and> quiet_sys c s'"

lemma wrote_all_Cons:
  assumes m: "0 < m" "m \<le> length b" "int m \<le> cs" and w: "wrote_chunk c (take m b) s f s1"
    and q1: "seqNum (ad s1) = seqNum (ad s) + 1" and ih: "wrote_all c cs (drop m b) s1 ps fs s'"
  shows "wrote_all c cs b s (take m b # ps) (f # fs) s'"
proof -
  let ?q = "seqNum (ad s)"
  note ih = ih [unfolded wrote_all_def q1]
  have "frames_of ?q (take m b # ps) (f # fs)"
    using w ih by (intro frames_of_Cons) (auto simp: wrote_chunk_def)
  moreover have "map_option snd (window_unacked (win (ad s')) (?q + int i)) = Some ((f # fs) ! i)"
    if "i < length (f # fs)" for i
  proof (cases i)
    case 0
    have "window_unacked (win (ad s')) ?q = window_unacked (win (ad s1)) ?q" using ih by simp
    then show ?thesis using 0 w by (simp add: wrote_chunk_def)
  next
    case (Suc j)
    then have "map_option snd (window_unacked (win (ad s')) (?q + 1 + int j)) = Some (fs ! j)" using ih that by simp
    then show ?thesis using Suc by (simp add: algebra_simps)
  qed
  moreover have "\<forall>k < ?q. window_unacked (win (ad s')) k = window_unacked (win (ad s)) k"
    using ih w by (simp add: wrote_chunk_def)
  moreover have "b \<noteq> []" using m by auto
  ultimately show ?thesis using ih w m by (simp add: wrote_all_def wrote_chunk_def)
qed

lemma quiet_Write_loop:
  assumes "quiet_sys c s" and "0 < cs" and "b = [] \<or> room_for cs b (ad s)"
    and "0 \<le> seqNum (ad s)" and "seqNum (ad s) + int (length b) \<le> max_i64"
  shows "\<exists>s' ps fs. Write_loop cs b n s = Some ((n + length b, None), s') \<and> wrote_all c cs b s ps fs s'"
  using assms
proof (induction "length b" arbitrary: b n s rule: less_induct)
  case less
  show ?case
  proof (cases "b = []")
    case True
    then show ?thesis using less.prems
      by (intro exI [of _ s] exI [of _ "[]"]) (simp add: Write_loop.simps wrote_all_def)
  next
    case False
    let ?m = "send_len cs b" and ?q = "seqNum (ad s)"
    note m = send_len_range [OF less.prems(2) False]
    have room: "room_for cs b (ad s)" using less.prems(3) False by simp
    obtain f s1 where c: "Write_chunk (take ?m b) s = Some (None, s1)"
      and w: "wrote_chunk c (take ?m b) s f s1"
      using quiet_Write_chunk [OF less.prems(1) room_for_chunk(1) [OF room less.prems(2) False]] by blast
    have "?q + 1 \<le> max_i64" using m less.prems(5) by linarith
    then have q1: "seqNum (ad s1) = ?q + 1"
      using w less.prems(4) by (simp add: wrote_chunk_def to_i64_def)
    have r1: "drop ?m b = [] \<or> room_for cs (drop ?m b) (ad s1)"
      using w by (intro room_for_chunk(2) [OF room less.prems(2) False]) (auto simp: wrote_chunk_def)
    have shorter: "length (drop ?m b) < length b" using m by (simp only: length_drop)
    have "quiet_sys c s1" using w by (simp add: wrote_chunk_def)
    then obtain s' ps fs where run: "Write_loop cs (drop ?m b) (n + ?m) s1 = Some ((n + ?m + length (drop ?m b), None), s')"
      and ih: "wrote_all c cs (drop ?m b) s1 ps fs s'"
      using less.hyps [OF shorter _ less.prems(2) r1, of "n + ?m"] m q1 less.prems(4,5) by auto
    have "Write_loop cs b n s = Some ((n + length b, None), s')"
      using False c run m by (subst Write_loop.simps) simp
    then show ?thesis using wrote_all_Cons [OF m w q1 ih] by blast
  qed
qed

section \<open>Decoding and reassembling\<close>

lemma data_frame_decode:
  assumes "data_frame k p f" and "0 \<le> k" and "k \<le> max_i64" and "length p < 2 ^ 31"
  shows "\<exists>m. UnmarshalMessage f = Ret m \<and> seq_of m = k \<and> stream_bytes m = p"
proof -
  obtain t u where f: "f = MarshalBinary (NewInputMessage t u p k)"
    using assms(1) by (auto simp: data_frame_def)
  have "sint (word_of_int k :: u64) = k"
    using assms(2,3) by (simp add: sint_sbintrunc' signed_take_bit_int_eq_self)
  then show ?thesis
    using unmarshal_marshal_eq [of "NewInputMessage t u p k"] assms(4)
    by (simp add: f NewInputMessage_def TotalHeaderLen_def valid_type_def msg_type_defs is_pad_def
        seq_of_def stream_bytes_def)
qed

lemma frames_of_nth:
  assumes "frames_of q ps fs"
  shows "length fs = length ps" "i < length ps \<Longrightarrow> data_frame (q + int i) (ps ! i) (fs ! i)"
proof -
  show l: "length fs = length ps"
    using assms by (auto simp: frames_of_def dest!: list_all2_lengthD)
  show "data_frame (q + int i) (ps ! i) (fs ! i)" if "i < length ps"
    using list_all2_nthD [OF assms [unfolded frames_of_def], of i] that by (simp add: nth_upto)
qed

text \<open>The frames of consecutive chunks, received in any order and any number of times.\<close>

lemma frames_reassemble:
  assumes "frames_of q ps fs" and "0 \<le> q" and "q + int (length ps) \<le> max_i64"
    and "\<forall>p \<in> set ps. length p < 2 ^ 31" and "set fs' = set fs" and "fresh_receiver q out r"
  shows "\<exists>ms. map UnmarshalMessage fs' = map Ret ms \<and> streamOut (fold deliver ms r) = out @ concat ps"
proof -
  note fr = frames_of_nth [OF assms(1)]
  define g where "g k = ps ! nat (k - q)" for k
  define dec where "dec f = (SOME m. UnmarshalMessage f = Ret m)" for f
  have d: "UnmarshalMessage (fs ! i) = Ret (dec (fs ! i)) \<and> seq_of (dec (fs ! i)) = q + int i
      \<and> stream_bytes (dec (fs ! i)) = ps ! i" if "i < length fs" for i
  proof -
    have "\<exists>m. UnmarshalMessage (fs ! i) = Ret m \<and> seq_of m = q + int i \<and> stream_bytes m = ps ! i"
      using that fr assms(2-4) by (intro data_frame_decode) auto
    then show ?thesis by (auto simp: dec_def)
  qed
  have mem: "\<exists>i < length fs. f = fs ! i" if "f \<in> set fs'" for f
    using that assms(5) by (auto simp: in_set_conv_nth)
  let ?ms = "map dec fs'"
  have cons: "\<forall>m \<in> set ?ms. stream_bytes m = g (seq_of m) \<and> seq_of m < max_i64"
    using mem d fr(1) assms(3) by (fastforce simp: g_def)
  have S: "seq_of ` set ?ms = {q..<q + int (length ps)}"
  proof
    show "seq_of ` set ?ms \<subseteq> {q..<q + int (length ps)}"
      using mem d fr(1) by fastforce
    show "{q..<q + int (length ps)} \<subseteq> seq_of ` set ?ms"
    proof
      fix k assume k: "k \<in> {q..<q + int (length ps)}"
      define i where "i = nat (k - q)"
      have i: "i < length fs" "k = q + int i" using k fr(1) by (auto simp: i_def)
      then have "fs ! i \<in> set fs'" using assms(5) by simp
      then show "k \<in> seq_of ` set ?ms" using d [OF i(1)] i(2) by (force simp: image_image)
    qed
  qed
  have i64: "is_i64 q" using assms(2,3) by (simp add: is_i64_def)
  have inv: "reorder_inv q out g (seq_of ` set ?ms \<union> {}) (fold deliver ?ms r)"
    by (rule deliver_all_inv [OF i64 cons fresh_reorder_inv [OF assms(6)]]) simp
  let ?e = "expectedSeqNum (fold deliver ?ms r)"
  have "q \<le> ?e" "{q..<?e} \<subseteq> {q..<q + int (length ps)}" "?e \<notin> {q..<q + int (length ps)}"
    using inv unfolding S reorder_inv_def pending_inv_def by auto
  then have e: "?e = q + int (length ps)" by (auto simp: atLeastLessThan_subset_iff)
  have "map g [q..?e - 1] = ps"
    by (rule nth_equalityI) (simp_all add: e g_def nth_upto)
  then have "streamOut (fold deliver ?ms r) = out @ concat ps"
    using inv by (simp add: reorder_inv_def pending_inv_def)
  moreover have "map UnmarshalMessage fs' = map Ret ?ms"
    using mem d by fastforce
  ultimately show ?thesis by blast
qed

section \<open>Properties\<close>

text \<open>
  C31. End to end: in an open, unpaused, connected adapter with room in its window, \<open>Write\<close>
  returns the full length and no error, and has put on the wire a sequence of frames that,
  received in any order and with any repetitions by a peer that runs the receiving side of this
  code, decode without error and reassemble to exactly the bytes written.
\<close>

theorem write_survives_reordering:
  assumes "quiet_sys c s" and "room_for (eff_chunk (ad s)) b (ad s)" and "eff_chunk (ad s) \<le> 1024"
    and "0 \<le> seqNum (ad s)" and "seqNum (ad s) + int (length b) \<le> max_i64"
  shows "\<exists>s' fs. Write b s = Some ((length b, None), s') \<and> sent (ad s') = sent (ad s) @ map (Pair c) fs
    \<and> (\<forall>fs' r out. set fs' = set fs \<and> fresh_receiver (seqNum (ad s)) out r \<longrightarrow>
         (\<exists>ms. map UnmarshalMessage fs' = map Ret ms \<and> streamOut (fold deliver ms r) = out @ b))"
proof -
  obtain s' ps fs where "Write_loop (eff_chunk (ad s)) b 0 s = Some ((0 + length b, None), s')"
    "wrote_all c (eff_chunk (ad s)) b s ps fs s'"
    using quiet_Write_loop [of c s "eff_chunk (ad s)" b 0] assms by (auto simp: eff_chunk_pos)
  then have w: "Write b s = Some ((length b, None), s')" "concat ps = b"
    "\<forall>p \<in> set ps. 0 < length p \<and> int (length p) \<le> eff_chunk (ad s)"
    "frames_of (seqNum (ad s)) ps fs" "sent (ad s') = sent (ad s) @ map (Pair c) fs"
    by (auto simp: Write_eff wrote_all_def)
  have "length ps \<le> length (concat ps)" using w(3)
  proof (induction ps)
    case (Cons p ps)
    then show ?case by (cases p) auto
  qed simp
  then have n: "seqNum (ad s) + int (length ps) \<le> max_i64" using assms(5) w(2) by simp
  have l: "\<forall>p \<in> set ps. length p < 2 ^ 31" using w(3) assms(3) by fastforce
  have "\<exists>ms. map UnmarshalMessage fs' = map Ret ms \<and> streamOut (fold deliver ms r) = out @ b"
    if "set fs' = set fs" "fresh_receiver (seqNum (ad s)) out r" for fs' r out
    using frames_reassemble [OF w(4) assms(4) n l that] w(2) by simp
  then show ?thesis using w(1,5) by blast
qed

definition fresh_sys :: sys where
  "fresh_sys = \<lparr>ad = initial_adapter (\<lambda>_. None) \<lparr>envChunkSize = [], envMaxUnacked = [],
       envResumeBudget = [], envResume = []\<rparr> True ''c'' 7,
     clock = 0, sched = [], wouts = [], choices = [], uuids = []\<rparr>"

lemmas fresh_sys_simps = fresh_sys_def initial_adapter_def new_window_def new_receiver_def
  env_max_unacked_def env_chunk_size_def env_resume_budget_def adapter_consts window_consts

theorem write_survives_reordering_witness:
  "\<exists>s' fs. Write (replicate 3000 1) fresh_sys = Some ((3000, None), s')
    \<and> sent (ad s') = map (Pair 7) fs
    \<and> (\<forall>fs' r out. set fs' = set fs \<and> fresh_receiver 0 out r \<longrightarrow>
         (\<exists>ms. map UnmarshalMessage fs' = map Ret ms
           \<and> streamOut (fold deliver ms r) = out @ replicate 3000 1))"
  using write_survives_reordering [of 7 fresh_sys "replicate 3000 1"]
  by (simp add: quiet_sys_def room_for_def eff_chunk_def fresh_sys_simps)

text \<open>
  C32. In every interleaving with other writers, acknowledgements, pauses, deadlines, transport
  failures, resumes and a close: when \<open>Write\<close> returns \<open>n\<close>, the log of sent frames contains, in
  order and under increasing fresh numbers, frames of this call whose payloads are exactly the
  first \<open>n\<close> bytes, each at most a chunk long; \<open>n\<close> is the full length exactly when there is no
  error; the log only grew, and the invariant of the adapter holds.
\<close>

theorem write_in_every_interleaving:
  assumes "Write b s = Some ((n, e), s')" and "adapter_inv (ad s)" and "num_room (int (length b)) s"
  shows "\<exists>l own. sent (ad s') = sent (ad s) @ l \<and> subseq (map (snd \<circ> snd) own) (map snd l)
    \<and> sorted_wrt (<) (map fst own)
    \<and> (\<forall>(seq, p, f) \<in> set own. data_frame seq p f \<and> seqNum (ad s) \<le> seq \<and> seq < seqNum (ad s')
         \<and> int (length p) \<le> eff_chunk (ad s))
    \<and> concat (map (fst \<circ> snd) own) = take n b \<and> n \<le> length b \<and> (e = None \<longleftrightarrow> n = length b)
    \<and> adapter_inv (ad s') \<and> later (ad s) (ad s')"
proof -
  have "sys_inv (int (length b)) s" using assms(2,3) by (simp add: sys_inv_def)
  then obtain l own where "loop_effect (eff_chunk (ad s)) b 0 (int (length b)) s ((n, e), s') l own"
    using Write_loop_effect [OF assms(1) [unfolded Write_eff] _ order_refl eff_chunk_pos] by blast
  then have "sent (ad s') = sent (ad s) @ l" "subseq (map (snd \<circ> snd) own) (map snd l)"
    "own_frames (seqNum (ad s)) (seqNum (ad s')) own" "concat (map (fst \<circ> snd) own) = take n b"
    "\<forall>x \<in> set own. int (length (fst (snd x))) \<le> eff_chunk (ad s)"
    "n \<le> length b" "e = None \<longleftrightarrow> n = length b" "adapter_inv (ad s')" "later (ad s) (ad s')"
    by (auto simp: loop_effect_def sys_inv_def)
  then show ?thesis unfolding own_frames_def
    by (intro exI [of _ l] exI [of _ own]) fastforce
qed

text \<open>A call that is overtaken by a close.\<close>

definition overtaken_sys :: sys where
  "overtaken_sys = fresh_sys\<lparr>sched := [[MAck 4 9, MClose None]]\<rparr>"

lemma initial_inv_fresh: "adapter_inv (ad fresh_sys)"
  by (simp add: fresh_sys_def initial_adapter_inv)

lemma overtaken_yield:
  "yield overtaken_sys = fresh_sys\<lparr>ad := Close (ad fresh_sys)\<rparr>"
  by (simp add: yield_def overtaken_sys_def do_move_def adapter_move_def fresh_sys_simps
      ackOutgoing_def upd_win_def resumePublication_def setCloseReason_def)

lemma closed_fresh:
  "\<not> paused (Close (ad fresh_sys))" "outgoingClosed (win (Close (ad fresh_sys)))"
  "maxOutgoingUnackedBytes (win (Close (ad fresh_sys))) = 262144"
  "outgoingBytes (win (Close (ad fresh_sys))) = 0" "seqNum (Close (ad fresh_sys)) = 0"
  by (simp_all add: Close_def adapter_prims Let_def close_window_def outgoing_broadcast_def fresh_sys_simps)

lemma overtaken_Write: "\<exists>s'. Write [1, 2, 3] overtaken_sys = Some ((0, Some IoErrClosedPipe), s')"
proof -
  have sch: "sched overtaken_sys \<noteq> []" by (simp add: overtaken_sys_def)
  have eff: "eff_chunk (ad overtaken_sys) = 1024"
    by (simp add: eff_chunk_def overtaken_sys_def fresh_sys_simps)
  let ?s = "fresh_sys\<lparr>ad := Close (ad fresh_sys)\<rparr>"
  have q: "sched ?s = []" by (simp add: fresh_sys_def)
  have wp: "waitForPublication overtaken_sys = Some (None, ?s)"
    by (simp add: waitForPublication.simps overtaken_yield closed_fresh)
  let ?s1 = "snd (new_uuid (?s\<lparr>ad := snd (nextSeq (Close (ad fresh_sys)))\<rparr>))"
  have w1: "win (ad ?s1) = win (Close (ad fresh_sys))" "sched ?s1 = []"
    using q by (simp_all add: nextSeq_def)
  have "addOutgoing seq mid f ?s1 = Some (Some IoErrClosedPipe, ?s1)" if "length f = 123" for seq mid f
    using w1 that closed_fresh
    by (simp add: addOutgoing_def quiet_yield addOutgoing_loop.simps addOutgoing_step_def)
  then have "Write_chunk [1, 2, 3] overtaken_sys = Some (Some IoErrClosedPipe, ?s1)"
    by (simp add: Write_chunk_def wp split_beta Let_def Write_frame_def length_MarshalBinary NewInputMessage_def)
  then show ?thesis
    by (simp add: Write_eff eff Write_loop.simps send_len_def)
qed

theorem write_in_every_interleaving_witness:
  "\<exists>s' l. Write [1, 2, 3] overtaken_sys = Some ((0, Some IoErrClosedPipe), s')
    \<and> sent (ad s') = sent (ad overtaken_sys) @ l \<and> adapter_inv (ad s')"
proof -
  obtain s' where w: "Write [1, 2, 3] overtaken_sys = Some ((0, Some IoErrClosedPipe), s')"
    using overtaken_Write by blast
  have "adapter_inv (ad overtaken_sys)" "num_room (int (length [1, 2, 3 :: byte])) overtaken_sys"
    by (simp_all add: overtaken_sys_def initial_inv_fresh num_room_def)
      (simp add: fresh_sys_simps)
  from write_in_every_interleaving [OF w this] show ?thesis using w by blast
qed

section \<open>Writes that fail\<close>

text \<open>
  C34. A \<open>Write\<close> that gives up on a full window after its deadline sends nothing and tracks
  nothing, but has consumed a sequence number: the peer then waits for a number that is never
  sent, and whatever arrives with later numbers is never delivered.
\<close>

theorem failed_write_burns_number:
  assumes "sched s = []" and "\<not> paused (ad s)" and "\<not> outgoingClosed (win (ad s))"
    and "writeDeadline (ad s) = Some d" and "d \<le> clock s" and "b \<noteq> []"
    and "outgoingBytes (win (ad s)) + 120 + int (send_len (eff_chunk (ad s)) b)
      > maxOutgoingUnackedBytes (win (ad s))"
  shows "\<exists>s'. Write b s = Some ((0, Some TimeoutError), s')
    \<and> seqNum (ad s') = to_i64 (seqNum (ad s) + 1) \<and> sent (ad s') = sent (ad s) \<and> win (ad s') = win (ad s)
    \<and> (\<forall>r out ms. fresh_receiver (seqNum (ad s)) out r \<and> (\<forall>m \<in> set ms. seqNum (ad s) < seq_of m)
         \<longrightarrow> streamOut (fold deliver ms r) = out)"
proof -
  let ?p = "take (send_len (eff_chunk (ad s)) b) b"
  define s1 where "s1 = snd (new_uuid (s\<lparr>ad := snd (nextSeq (ad s))\<rparr>))"
  have s1: "win (ad s1) = win (ad s)" "sched s1 = []" "clock s1 = clock s"
    "writeDeadline (ad s1) = Some d" "sent (ad s1) = sent (ad s)"
    "seqNum (ad s1) = to_i64 (seqNum (ad s) + 1)"
    using assms(1,4) by (simp_all add: s1_def nextSeq_def)
  have len: "length ?p = send_len (eff_chunk (ad s)) b"
    using send_len_range [OF eff_chunk_pos assms(6)] by simp
  have "addOutgoing seq mid f s1 = Some (Some TimeoutError, s1)" if "length f = 120 + length ?p" for seq mid f
    using s1 that assms(3,5,7) len
    by (simp add: addOutgoing_def quiet_yield addOutgoing_loop.simps addOutgoing_step_def)
  then have "Write_chunk ?p s = Some (Some TimeoutError, s1)"
    using assms(1,2)
    by (simp add: Write_chunk_def waitForPublication.simps quiet_yield split_beta Let_def s1_def
        Write_frame_def length_MarshalBinary NewInputMessage_def)
  then have w: "Write b s = Some ((0, Some TimeoutError), s1)"
    using assms(6) by (simp add: Write_eff Write_loop.simps)
  have "streamOut (fold deliver ms r) = out \<and> expectedSeqNum (fold deliver ms r) = seqNum (ad s)"
    if "streamOut r = out" "expectedSeqNum r = seqNum (ad s)" "\<forall>m \<in> set ms. seqNum (ad s) < seq_of m" for r out ms
    using that by (induction ms arbitrary: r) (simp_all add: deliver_def)
  then show ?thesis using w s1 by (intro exI [of _ s1]) (auto simp: fresh_receiver_def)
qed

definition full_sys :: sys where
  "full_sys = fresh_sys\<lparr>clock := 5,
     ad := (ad fresh_sys)\<lparr>writeDeadline := Some 3, win := new_window 100\<rparr>\<rparr>"

theorem failed_write_burns_number_witness:
  "\<exists>s'. Write [1, 2] full_sys = Some ((0, Some TimeoutError), s') \<and> seqNum (ad s') = 1 \<and> sent (ad s') = []"
  using failed_write_burns_number [of full_sys 3 "[1, 2]"]
  by (simp add: full_sys_def fresh_sys_simps eff_chunk_def send_len_def to_i64_def) blast

text \<open>
  A deadline that is moved while \<open>addOutgoing\<close> waits may never end the wait: its wake-up
  timer is made once, for the deadline seen on the first wait; once that timer has fired and the
  deadline has been moved, the passing of time alone does not wake the writer, however far past
  the new deadline the clock goes.
\<close>

lemma moved_deadline_not_honoured:
  assumes "outgoingBytes (win (ad s)) + int (length f) > maxOutgoingUnackedBytes (win (ad s))"
    and "\<not> outgoingClosed (win (ad s))" and "writeDeadline (ad s) = Some d" and "clock s < d"
    and "sched s = map (\<lambda>t. [MTick t]) ticks"
  shows "addOutgoing_loop seq mid f Fired s = None"
proof -
  have wait: "cond_wait (broadcasts (win (ad s))) Fired s = None"
    if "sched s = map (\<lambda>t. [MTick t]) ticks" for s :: sys and ticks
    using that
  proof (induction ticks arbitrary: s)
    case Nil
    then show ?case by (subst cond_wait.simps) (simp add: block_def)
  next
    case (Cons t ticks)
    let ?s = "do_move (MTick t) (s\<lparr>sched := map (\<lambda>t. [MTick t]) ticks\<rparr>)"
    have "cond_wait (broadcasts (win (ad ?s))) Fired ?s = None"
      by (rule Cons.IH) (simp add: do_move_def)
    then show ?case
      using Cons.prems by (subst cond_wait.simps) (simp add: block_def do_move_def adapter_move_def)
  qed
  have "addOutgoing_step (clock s) (writeDeadline (ad s)) seq mid f (win (ad s)) = AddWait"
    using assms(1-4) by (simp add: addOutgoing_step_def)
  then show ?thesis
    using wait [OF assms(5)] by (subst addOutgoing_loop.simps) (simp add: ensureWriteDeadlineWake_def)
qed

theorem moved_deadline_not_honoured_witness:
  "addOutgoing_loop 0 9 [1] Fired (full_sys\<lparr>ad := (ad full_sys)\<lparr>writeDeadline := Some 50, win := new_window 0\<rparr>,
     sched := [[MTick 40], [MTick 900]]\<rparr>) = None"
  by (rule moved_deadline_not_honoured [where ticks = "[40, 900]" and d = 50])
    (simp_all add: full_sys_def new_window_def)

end
