(* ===== verification/Handlers.thy ===== *)
theory Handlers
  imports WriteSpec
begin

text \<open>
  The goroutines of the protocol adapter (\<open>adapter.go\<close>, \<open>adapter_resume.go\<close>): the handlers
  behind \<open>dispatchMessage\<close>, \<open>WaitForHandshake\<close>, one tick of the resend and ping loops, the read
  loop and \<open>reconnectLoop\<close>.  The \<open>String\<close> method and \<open>Parse\<close> function of the uuid package are
  the parameters \<open>us\<close> and \<open>up\<close>.

  Handlers of incoming messages run one at a time under \<open>incomingMsgBufMu\<close> or in the single read
  loop, so the receiver changes only here; all other state may change at every scheduling point.
\<close>

section \<open>Acknowledgements\<close>

definition sendAck :: "(uuid \<Rightarrow> string) \<Rightarrow> AgentMessage \<Rightarrow> sys \<Rightarrow> (go_error option \<times> sys) option" where
  "sendAck us orig s =
    (let (mid, s1) = new_uuid s in
     writeMessage (NewAcknowledgeMessage us (unix_milli (clock s1)) mid
        (MessageType (Header orig)) (MessageId (Header orig)) (SequenceNumber (Header orig))) s1)"

definition handleAcknowledge :: "(string \<Rightarrow> uuid option) \<Rightarrow> nanos \<Rightarrow> AgentMessage \<Rightarrow> adapter \<Rightarrow> adapter" where
  "handleAcknowledge up now msg a =
    (case ack_unmarshal (Payload msg) of
       None \<Rightarrow> resumePublication a
     | Some ack \<Rightarrow>
         if AckMessageType ack \<noteq> MsgTypeInputStreamData then resumePublication a
         else (case up (AckMessageId ack) of
             None \<Rightarrow> resumePublication a
           | Some ackID \<Rightarrow>
               resumePublication (upd_win (ackOutgoing now (AckSequenceNumber ack) ackID) a)))"

section \<open>Handshake and data messages\<close>

definition close_wrapped :: "string \<Rightarrow> go_error \<Rightarrow> sys \<Rightarrow> sys" where
  "close_wrapped txt e s = upd (closeWithError (Wrapped txt [e])) s"

definition handleHandshakeRequest :: "(uuid \<Rightarrow> string) \<Rightarrow> AgentMessage \<Rightarrow> sys \<Rightarrow> (go_error option \<times> sys) option" where
  "handleHandshakeRequest us orig s =
    do { (e, s1) \<leftarrow> sendAck us orig (upd (\<lambda>a. a\<lparr>handshakeResponded := True\<rparr>) s);
         (case e of
            Some err \<Rightarrow> Some (Some err, s1)
          | None \<Rightarrow>
              (let (seq, a) = nextSeq (ad s1);
                   (mid, s2) = new_uuid (s1\<lparr>ad := a\<rparr>);
                   responseMsg = NewHandshakeResponseMessage (unix_milli (clock s2)) mid seq ClientVersion
                     [\<lparr>ActionType = ''SessionType'', ActionStatus = 1, ActionResult = None, ActionError = []\<rparr>]
               in writeMessage responseMsg (upd (\<lambda>a. a\<lparr>lastHandshakeResponse := Some responseMsg\<rparr>) s2))) }"

definition resendHandshakeResponse :: "sys \<Rightarrow> (go_error option \<times> sys) option" where
  "resendHandshakeResponse s =
    (case lastHandshakeResponse (ad s) of
       None \<Rightarrow> Some (None, s)
     | Some m \<Rightarrow> writeMessage m s)"

definition handleHandshakeRequestPayload ::
    "(uuid \<Rightarrow> string) \<Rightarrow> AgentMessage \<Rightarrow> bool \<Rightarrow> sys \<Rightarrow> sys option" where
  "handleHandshakeRequestPayload us msg isDuplicate s =
    (if isDuplicate \<or> handshakeResponded (ad s) then
       do { (e, s1) \<leftarrow> sendAck us msg s;
            (case e of
               Some err \<Rightarrow> Some (close_wrapped ''send duplicate handshake ack: '' err s1)
             | None \<Rightarrow>
                 do { (e, s2) \<leftarrow> resendHandshakeResponse s1;
                      Some (case e of Some err \<Rightarrow> close_wrapped ''resend handshake response: '' err s2
                            | None \<Rightarrow> s2) }) }
     else
       do { (e, s1) \<leftarrow> handleHandshakeRequest us msg s;
            Some (case e of
                Some err \<Rightarrow> close_wrapped ''handle handshake request: '' err s1
              | None \<Rightarrow> upd (upd_rcv (updateExpectedSeqNum msg)) s1) })"

definition handleHandshakeCompletePayload :: "(uuid \<Rightarrow> string) \<Rightarrow> AgentMessage \<Rightarrow> sys \<Rightarrow> sys option" where
  "handleHandshakeCompletePayload us msg s =
    (let (first, a) = markHandshakeComplete (ad s);
         s1 = s\<lparr>ad := (if first then upd_rcv (updateExpectedSeqNum msg) a else a)\<rparr>
     in do { (e, s2) \<leftarrow> sendAck us msg s1;
             Some (case e of Some err \<Rightarrow> close_wrapped ''send handshake complete ack: '' err s2
                   | None \<Rightarrow> s2) })"

definition handleDataMessage :: "(uuid \<Rightarrow> string) \<Rightarrow> AgentMessage \<Rightarrow> sys \<Rightarrow> sys option" where
  "handleDataMessage us msg s =
    do { (e, s1) \<leftarrow> sendAck us msg s;
         Some (case e of
             Some err \<Rightarrow> close_wrapped ''send data ack: '' err s1
           | None \<Rightarrow> upd (upd_rcv (deliver msg)) s1) }"

definition handleOutputStream :: "(uuid \<Rightarrow> string) \<Rightarrow> AgentMessage \<Rightarrow> bool \<Rightarrow> sys \<Rightarrow> sys option" where
  "handleOutputStream us msg isDuplicate s =
    (if PayloadType (Header msg) = PayloadTypeHandshakeRequest
     then handleHandshakeRequestPayload us msg isDuplicate s
     else if PayloadType (Header msg) = PayloadTypeHandshakeComplete
     then handleHandshakeCompletePayload us msg s
     else handleDataMessage us msg s)"

text \<open>The result is false when the remote side closed the channel.\<close>

definition dispatchMessage ::
    "(uuid \<Rightarrow> string) \<Rightarrow> (string \<Rightarrow> uuid option) \<Rightarrow> AgentMessage \<Rightarrow> sys \<Rightarrow> (bool \<times> sys) option" where
  "dispatchMessage us up msg s =
    (let (isDuplicate, seen) = markMessageSeen (MessageId (Header msg)) (seq_of msg) (seenMsgIds (ad s));
         s1 = upd (\<lambda>a. a\<lparr>lastInboundUnixNano := clock s, seenMsgIds := seen\<rparr>) s;
         ty = MessageType (Header msg)
     in if ty = MsgTypeOutputStreamData then map_option (Pair True) (handleOutputStream us msg isDuplicate s1)
        else if ty = MsgTypeAcknowledge then Some (True, upd (handleAcknowledge up (clock s1) msg) s1)
        else if ty = MsgTypePausePublication then Some (True, upd (pausePublication (clock s1)) s1)
        else if ty = MsgTypeStartPublication then Some (True, upd resumePublication s1)
        else if ty = MsgTypeChannelClosed
        then Some (False, upd (\<lambda>a. closeWithError errChannelClosedByRemote (close_stream a)) s1)
        else Some (True, s1))"

section \<open>Waiting for the handshake\<close>

text \<open>A context ends at a time, with an error (\<open>None\<close>: it never ends).\<close>

type_synonym ctx = "(nanos \<times> go_error) option"

definition handshake_ready :: "ctx \<Rightarrow> sys \<Rightarrow> ready list" where
  "handshake_ready ctx s =
    (if handshakeComplete (ad s) then [RCh] else []) @ (if doneClosed (ad s) then [RDone] else [])
    @ (if deadline_passed (clock s) (map_option fst ctx) then [RTimer] else [])"

partial_function (option) wait_handshake :: "ctx \<Rightarrow> sys \<Rightarrow> (ready \<times> sys) option" where
  "wait_handshake ctx s =
    (if handshake_ready ctx s = [] then Option.bind (block s) (\<lambda>s1. wait_handshake ctx s1)
     else Some (pick_ready (handshake_ready ctx s) s))"

definition WaitForHandshake :: "ctx \<Rightarrow> sys \<Rightarrow> (go_error option \<times> sys) option" where
  "WaitForHandshake ctx s =
    (if handshakeComplete (ad s) then Some (None, s)
     else
       do { (r, s1) \<leftarrow> wait_handshake ctx s;
            Some (case r of
                RCh \<Rightarrow> None
              | RDone \<Rightarrow>
                  if handshakeComplete (ad s1) then None
                  else (case closeReason (ad s1) of
                      Some err \<Rightarrow> Some (Wrapped '': '' [errAdapterClosedBeforeHandshake, err])
                    | None \<Rightarrow> Some errAdapterClosedBeforeHandshake)
              | RTimer \<Rightarrow> map_option snd ctx, s1) })"

section \<open>The loops\<close>

text \<open>One tick of \<open>resendLoop\<close>; the result says whether the loop goes on.\<close>

definition resendLoop_tick :: "sys \<Rightarrow> (bool \<times> sys) option" where
  "resendLoop_tick s =
    (if doneClosed (ad s) then Some (False, s)
     else if reconnecting (ad s) then Some (True, s)
     else if paused (ad s) then
       (case pausedSince (ad s) of
          Some t \<Rightarrow> if clock s - t > maxPauseTime
                     then Some (False, upd (closeWithError errPausePublicationTimedOut) s)
                     else Some (True, s)
        | None \<Rightarrow> Some (True, s))
     else
       (case resend_window (clock s) (win (ad s)) of
          (ResendIdle, w) \<Rightarrow> Some (True, upd (upd_win (\<lambda>_. w)) s)
        | (ResendGiveUp seq, w) \<Rightarrow>
            Some (False, upd (closeWithError errResendAttemptsExceeded) (upd (upd_win (\<lambda>_. w)) s))
        | (ResendFrame seq frame, w) \<Rightarrow>
            do { (e, s1) \<leftarrow> writeRaw frame (upd (upd_win (\<lambda>_. w)) s);
                 Some (e = None, s1) }))"

definition sendPingForGen :: "nat \<Rightarrow> go_error option \<Rightarrow> sys \<Rightarrow> go_error option" where
  "sendPingForGen gen out s =
    (case conn (ad s) of
       None \<Rightarrow> Some IoErrClosedPipe
     | Some c \<Rightarrow>
         if connGen (ad s) \<noteq> gen then Some errStaleConn
         else if out = None \<and> c \<in> set (closedConns (ad s)) then Some NetErrClosed else out)"

text \<open>One tick of \<open>pingLoopForGen\<close>, for the results of its two possible control writes.\<close>

definition pingLoop_tick :: "nat \<Rightarrow> go_error option \<Rightarrow> go_error option \<Rightarrow> sys \<Rightarrow> (bool \<times> sys) option" where
  "pingLoop_tick gen out1 out2 s =
    (if doneClosed (ad s) then Some (False, s)
     else if connGenerationStale gen (ad s) then Some (False, s)
     else (case sendPingForGen gen out1 s of
       None \<Rightarrow> Some (True, s)
     | Some err \<Rightarrow>
         if connGenerationStale gen (ad s) then Some (False, s)
         else
           do { (e, s1) \<leftarrow> sleepWithWriteDeadline (millis 500) s;
                (case e of
                   Some _ \<Rightarrow> Some (False, upd (\<lambda>a. snd (handleTransportFailure (clock s1)
                       (Wrapped ''websocket ping failed before retry: '' [err]) a)) s1)
                 | None \<Rightarrow>
                     (case sendPingForGen gen out2 s1 of
                        None \<Rightarrow> Some (True, s1)
                      | Some err2 \<Rightarrow>
                          if connGenerationStale gen (ad s1) then Some (False, s1)
                          else Some (False, upd (\<lambda>a. snd (handleTransportFailure (clock s1)
                              (Wrapped ''websocket ping failed after retry: '' [err2]) a)) s1))) }))"

text \<open>
  \<open>readLoopForGen\<close> against the results of \<open>conn.ReadMessage\<close>; other goroutines run while it
  reads.  A panic in \<open>UnmarshalMessage\<close> ends the process.
\<close>

datatype read_end = ReadReturned sys | ReadPanicked sys

fun readLoopForGen ::
    "(uuid \<Rightarrow> string) \<Rightarrow> (string \<Rightarrow> uuid option) \<Rightarrow> nat \<Rightarrow> (go_error + bytes) list \<Rightarrow> sys \<Rightarrow> read_end option" where
  "readLoopForGen us up gen reads s =
    (if connGenerationStale gen (ad s) then Some (ReadReturned s)
     else if conn (ad s) = None then
       Some (ReadReturned (upd (\<lambda>a. snd (handleTransportFailure (clock s) IoErrClosedPipe a)) s))
     else (case reads of
       [] \<Rightarrow> None
     | Inl err # _ \<Rightarrow>
         (let s1 = yield s in
          if connGenerationStale gen (ad s1) then Some (ReadReturned s1)
          else Some (ReadReturned (upd (\<lambda>a. snd (handleTransportFailure (clock s1) err a)) s1)))
     | Inr bytes # rest \<Rightarrow>
         (let s1 = yield s in
          case UnmarshalMessage bytes of
            Panic _ \<Rightarrow> Some (ReadPanicked s1)
          | Fail _ \<Rightarrow> readLoopForGen us up gen rest s1
          | Ret msg \<Rightarrow>
              (case dispatchMessage us up msg s1 of
                 None \<Rightarrow> None
               | Some (go_on, s2) \<Rightarrow>
                   if go_on then readLoopForGen us up gen rest s2 else Some (ReadReturned s2)))))"

declare readLoopForGen.simps [simp del]

text \<open>
  \<open>reconnectLoop\<close> against the results of its attempts: of \<open>resumeFunc\<close>, of the dial, of the
  opening frame, and the delay the retryer picks.  The script must provide an attempt for each
  round; \<open>None\<close> is the result when it does not.
\<close>

record resume_attempt =
  raResume :: "go_error + string"
  raDial :: "go_error + ws"
  raOpen :: "go_error option"
  raRequestId :: string
  raDelay :: nanos

definition sleepResumeBackoff :: "nanos \<Rightarrow> nanos \<Rightarrow> sys \<Rightarrow> (bool \<times> sys) option" where
  "sleepResumeBackoff delay dl s =
    (let d = (if delay > dl - clock s then dl - clock s else delay) in
     if d \<le> 0 then Some (False, s)
     else
       do { (r, s1) \<leftarrow> wait_select None (Some (clock s + d)) s;
            Some (r \<noteq> RDone, s1) })"

text \<open>One attempt: a WebSocket with its opening frame written, or a failure to be retried.\<close>

definition try_resume :: "resume_attempt \<Rightarrow> sys \<Rightarrow> ws option \<times> sys" where
  "try_resume r s =
    (let s1 = yield s in
     case raResume r of
       Inl _ \<Rightarrow> (None, s1)
     | Inr token \<Rightarrow>
         (let s2 = yield s1 in
          case raDial r of
            Inl _ \<Rightarrow> (None, s2)
          | Inr c \<Rightarrow>
              (let s3 = yield s2 in
               case raOpen r of
                 Some _ \<Rightarrow> (None, upd (close_conn c) s3)
               | None \<Rightarrow> (Some c, upd (\<lambda>a. a\<lparr>opened := opened a @
                   [(c, open_data_channel (clientId a) (raRequestId r) token)]\<rparr>) s3))))"

fun reconnectLoop :: "nanos \<Rightarrow> resume_attempt list \<Rightarrow> sys \<Rightarrow> sys option" where
  "reconnectLoop dl attempts s =
    (if \<not> clock s < dl then Some (upd resume_exhausted s)
     else if doneClosed (ad s) then Some (upd reconnect_done s)
     else (case attempts of
       [] \<Rightarrow> None
     | r # rest \<Rightarrow>
         (case try_resume r s of
            (Some c, s1) \<Rightarrow> Some (upd (\<lambda>a. reconnect_done (install_conn (clock s1) c a)) s1)
          | (None, s1) \<Rightarrow>
              (case sleepResumeBackoff (raDelay r) dl s1 of
                 None \<Rightarrow> None
               | Some (go_on, s2) \<Rightarrow>
                   if go_on then reconnectLoop dl rest s2 else Some (upd resume_exhausted s2)))))"

declare reconnectLoop.simps [simp del]

end
