(* ===== verification/HandlerSpec.thy ===== *)
theory HandlerSpec
  imports Handlers
begin

text \<open>
  The adapter's goroutines in every interleaving: every handler keeps the invariant; a data message is
  acknowledged and delivered.
\<close>

section \<open>Sending an acknowledgement\<close>

context io_rel
begin

lemma new_uuid_rel: "Q s (snd (new_uuid s))"
  by (simp add: new_uuid_def Q_refl quiet split: list.split)

lemma sendAck_rel: "sendAck us orig s = Some y \<Longrightarrow> Q s (snd y)"
  unfolding sendAck_def writeMessage_def Let_def split_beta
  by (rule Q_trans [OF new_uuid_rel writeRaw_rel])

lemma resendHandshakeResponse_rel: "resendHandshakeResponse s = Some y \<Longrightarrow> Q s (snd y)"
  by (auto simp: resendHandshakeResponse_def writeMessage_def Q_refl split: option.splits
      dest: writeRaw_rel)

end

text \<open>The frames an acknowledgement of \<open>orig\<close> may be.\<close>

definition ack_frame :: "(uuid \<Rightarrow> string) \<Rightarrow> AgentMessage \<Rightarrow> bytes \<Rightarrow> bool" where
  "ack_frame us orig f \<longleftrightarrow> (\<exists>t u. f = MarshalBinary (NewAcknowledgeMessage us t u
     (MessageType (Header orig)) (MessageId (Header orig)) (SequenceNumber (Header orig))))"

lemma sendAck_sent:
  assumes "sendAck us orig s = Some (None, s')"
  shows "\<exists>l c f. sent (ad s') = sent (ad s) @ l @ [(c, f)] \<and> ack_frame us orig f"
proof -
  let ?f = "MarshalBinary (NewAcknowledgeMessage us (unix_milli (clock (snd (new_uuid s)))) (fst (new_uuid s))
      (MessageType (Header orig)) (MessageId (Header orig)) (SequenceNumber (Header orig)))"
  have "writeRaw ?f (snd (new_uuid s)) = Some (None, s')"
    using assms by (simp add: sendAck_def split_beta writeMessage_def)
  then obtain l c where "sent (ad s') = sent (ad s) @ l @ [(c, ?f)]"
    using writeRaw_sent by fastforce
  moreover have "ack_frame us orig ?f" unfolding ack_frame_def by blast
  ultimately show ?thesis by blast
qed

section \<open>The invariant\<close>

lemma processBufferedMessages_closed [simp]:
  "streamClosed (processBufferedMessages r) = streamClosed r"
proof (induction r rule: processBufferedMessages.induct)
  case (1 r)
  then show ?case
    by (cases "map_of (incomingMsgBuffer r) (expectedSeqNum r)")
      (simp_all add: processBuffered_None processBuffered_Some)
qed

lemma deliver_closed [simp]: "streamClosed (deliver m r) = streamClosed r"
  by (simp add: deliver_def Let_def)

lemma rcv_adapter_inv:
  "adapter_inv a \<Longrightarrow> streamClosed (f (rcv a)) = streamClosed (rcv a) \<Longrightarrow> adapter_inv (upd_rcv f a)"
  by (simp add: upd_rcv_def adapter_inv_defs)

lemma later_rcv: "later a (upd_rcv f a)"
  by (simp add: later_def upd_rcv_def)

definition step_ok :: "int \<Rightarrow> sys \<Rightarrow> sys \<Rightarrow> bool" where
  "step_ok k s s' \<longleftrightarrow> sys_inv k s' \<and> later (ad s) (ad s')"

lemma step_ok_refl: "sys_inv k s \<Longrightarrow> step_ok k s s"
  by (simp add: step_ok_def)

lemma step_ok_trans: "step_ok k s s1 \<Longrightarrow> step_ok k s1 s2 \<Longrightarrow> step_ok k s s2"
  by (auto simp: step_ok_def intro: later_trans)

lemma step_ok_upd:
  "sys_inv k s \<Longrightarrow> adapter_inv (f (ad s)) \<Longrightarrow> seqNum (f (ad s)) = seqNum (ad s) \<Longrightarrow> later (ad s) (f (ad s))
   \<Longrightarrow> step_ok k s (upd f s)"
  by (simp add: step_ok_def sys_inv_def num_room_def upd_def)

lemma sendAck_ok: "sendAck us m s = Some (e, s') \<Longrightarrow> sys_inv k s \<Longrightarrow> step_ok k s s'"
  using kr.sendAck_rel [of us m s "(e, s')" k 0] by (simp add: keep_rel_def step_ok_def)

lemma writeMessage_ok: "writeMessage m s = Some (e, s') \<Longrightarrow> sys_inv k s \<Longrightarrow> step_ok k s s'"
  using kr.writeRaw_rel [of "MarshalBinary m" s "(e, s')" k 0]
  by (simp add: keep_rel_def step_ok_def writeMessage_def)

lemma resendHandshakeResponse_ok:
  "resendHandshakeResponse s = Some (e, s') \<Longrightarrow> sys_inv k s \<Longrightarrow> step_ok k s s'"
  using kr.resendHandshakeResponse_rel [of s "(e, s')" k 0] by (simp add: keep_rel_def step_ok_def)

lemma close_wrapped_ok: "sys_inv k s \<Longrightarrow> step_ok k s (close_wrapped txt e s)"
  unfolding close_wrapped_def
  by (rule step_ok_upd)
    (simp_all add: closeWithError_adapter_inv later_closeWithError sys_inv_def)

lemma rcv_ok:
  "sys_inv k s \<Longrightarrow> streamClosed (f (rcv (ad s))) = streamClosed (rcv (ad s)) \<Longrightarrow> step_ok k s (upd (upd_rcv f) s)"
  by (rule step_ok_upd) (simp_all add: rcv_adapter_inv later_rcv sys_inv_def, simp add: upd_rcv_def)

lemma flag_adapter_inv:
  "adapter_inv (a\<lparr>handshakeResponded := b\<rparr>) = adapter_inv a"
  "adapter_inv (a\<lparr>lastHandshakeResponse := m\<rparr>) = adapter_inv a"
  "adapter_inv (a\<lparr>lastInboundUnixNano := t, seenMsgIds := sn\<rparr>) = adapter_inv a"
  by (simp_all add: adapter_inv_defs)

lemma later_flags:
  "later a (a\<lparr>handshakeResponded := b\<rparr>)" "later a (a\<lparr>lastHandshakeResponse := m\<rparr>)"
  "later a (a\<lparr>lastInboundUnixNano := t, seenMsgIds := sn\<rparr>)"
  by (simp_all add: later_def)

lemma flags_ok:
  "sys_inv k s \<Longrightarrow> step_ok k s (upd (\<lambda>a. a\<lparr>handshakeResponded := b\<rparr>) s)"
  "sys_inv k s \<Longrightarrow> step_ok k s (upd (\<lambda>a. a\<lparr>lastHandshakeResponse := m\<rparr>) s)"
  "sys_inv k s \<Longrightarrow> step_ok k s (upd (\<lambda>a. a\<lparr>lastInboundUnixNano := t, seenMsgIds := sn\<rparr>) s)"
  by (rule step_ok_upd; simp add: flag_adapter_inv later_flags sys_inv_def)+

lemma sys_inv_weaken: "sys_inv (k + 1) s \<Longrightarrow> sys_inv k s"
  by (simp add: sys_inv_def num_room_def)

lemma step_ok_weaken: "step_ok (k + 1) s s' \<Longrightarrow> step_ok k s s'"
  by (simp add: step_ok_def sys_inv_weaken)

lemma ok_inv: "step_ok k s s' \<Longrightarrow> sys_inv k s'"
  by (simp add: step_ok_def)

lemma handleHandshakeRequest_ok:
  assumes "handleHandshakeRequest us m s = Some (e, s')" and "sys_inv (k + 1) s" and "0 \<le> k"
  shows "step_ok k s s'"
proof -
  let ?s0 = "upd (\<lambda>a. a\<lparr>handshakeResponded := True\<rparr>) s"
  obtain e1 s1 where a: "sendAck us m ?s0 = Some (e1, s1)"
    using assms(1) by (auto simp: handleHandshakeRequest_def bind_eq_Some_conv)
  have o0: "step_ok (k + 1) s ?s0" by (rule flags_ok(1) [OF assms(2)])
  have o1: "step_ok (k + 1) s s1" by (rule step_ok_trans [OF o0 sendAck_ok [OF a ok_inv [OF o0]]])
  show ?thesis
  proof (cases e1)
    case (Some err)
    then show ?thesis using assms(1) a step_ok_weaken [OF o1] by (simp add: handleHandshakeRequest_def)
  next
    case None
    note n = nextSeq_sys [OF ok_inv [OF o1] assms(3)]
    let ?s2 = "snd (new_uuid (s1\<lparr>ad := snd (nextSeq (ad s1))\<rparr>))"
    have o2: "step_ok k s ?s2"
      using o1 n(1,5) later_trans by (auto simp: step_ok_def)
    obtain msg where w: "writeMessage msg (upd (\<lambda>a. a\<lparr>lastHandshakeResponse := Some msg\<rparr>) ?s2) = Some (e, s')"
      using assms(1) a None by (auto simp: handleHandshakeRequest_def split_beta Let_def)
    have o3: "step_ok k ?s2 (upd (\<lambda>a. a\<lparr>lastHandshakeResponse := Some msg\<rparr>) ?s2)"
      by (rule flags_ok(2) [OF ok_inv [OF o2]])
    show ?thesis
      by (rule step_ok_trans [OF o2 step_ok_trans [OF o3 writeMessage_ok [OF w ok_inv [OF o3]]]])
  qed
qed

text \<open>Closing after an error keeps the invariant too.\<close>

lemma closing_ok:
  "step_ok k s s1 \<Longrightarrow> step_ok k s (case e of Some err \<Rightarrow> close_wrapped txt err s1 | None \<Rightarrow> s1)"
  by (cases e) (auto intro: step_ok_trans close_wrapped_ok dest: ok_inv)

lemma handleHandshakeRequestPayload_ok:
  assumes "handleHandshakeRequestPayload us m d s = Some s'" and "sys_inv (k + 1) s" and "0 \<le> k"
  shows "step_ok k s s'"
proof (cases "d \<or> handshakeResponded (ad s)")
  case True
  then obtain e1 s1 where a: "sendAck us m s = Some (e1, s1)"
    using assms(1) by (auto simp: handleHandshakeRequestPayload_def bind_eq_Some_conv)
  have o1: "step_ok k s s1" by (rule sendAck_ok [OF a sys_inv_weaken [OF assms(2)]])
  show ?thesis
  proof (cases e1)
    case (Some err)
    then show ?thesis
      using assms(1) True a closing_ok [OF o1, where e = e1]
      by (auto simp: handleHandshakeRequestPayload_def)
  next
    case None
    then obtain e2 s2 where b: "resendHandshakeResponse s1 = Some (e2, s2)"
      "s' = (case e2 of Some err \<Rightarrow> close_wrapped ''resend handshake response: '' err s2 | None \<Rightarrow> s2)"
      using assms(1) True a by (auto simp: handleHandshakeRequestPayload_def bind_eq_Some_conv)
    show ?thesis
      unfolding b(2)
      by (rule closing_ok [OF step_ok_trans [OF o1 resendHandshakeResponse_ok [OF b(1) ok_inv [OF o1]]]])
  qed
next
  case False
  then obtain e1 s1 where a: "handleHandshakeRequest us m s = Some (e1, s1)"
    and s': "s' = (case e1 of Some err \<Rightarrow> close_wrapped ''handle handshake request: '' err s1
       | None \<Rightarrow> upd (upd_rcv (updateExpectedSeqNum m)) s1)"
    using assms(1) by (auto simp: handleHandshakeRequestPayload_def bind_eq_Some_conv)
  have o1: "step_ok k s s1" by (rule handleHandshakeRequest_ok [OF a assms(2,3)])
  have "step_ok k s1 (upd (upd_rcv (updateExpectedSeqNum m)) s1)"
    by (rule rcv_ok [OF ok_inv [OF o1]]) (simp add: updateExpectedSeqNum_def)
  then show ?thesis
    using closing_ok [OF o1, where e = e1] o1 step_ok_trans s' by (cases e1) auto
qed

lemma handleHandshakeCompletePayload_ok:
  assumes "handleHandshakeCompletePayload us m s = Some s'" and "sys_inv k s"
  shows "step_ok k s s'"
proof -
  let ?a = "snd (markHandshakeComplete (ad s))"
  let ?b = "if fst (markHandshakeComplete (ad s)) then upd_rcv (updateExpectedSeqNum m) ?a else ?a"
  have i: "adapter_inv ?a" using assms(2) by (simp add: sys_inv_def handshake_adapter_inv)
  have "adapter_inv ?b"
    using i by (simp add: rcv_adapter_inv updateExpectedSeqNum_def)
  moreover have "later (ad s) ?b" using later_small(11) later_rcv later_trans by (smt (verit))
  moreover have "seqNum ?b = seqNum (ad s)" by (simp add: upd_rcv_def)
  ultimately have o0: "step_ok k s (s\<lparr>ad := ?b\<rparr>)"
    using assms(2) by (simp add: step_ok_def sys_inv_def num_room_def)
  obtain r where a: "sendAck us m (s\<lparr>ad := ?b\<rparr>) = Some (fst r, snd r)"
    and s': "s' = (case fst r of Some err \<Rightarrow> close_wrapped ''send handshake complete ack: '' err (snd r)
        | None \<Rightarrow> snd r)"
    using assms(1) by (auto simp: handleHandshakeCompletePayload_def split_beta Let_def bind_eq_Some_conv)
  show ?thesis
    unfolding s' by (rule closing_ok [OF step_ok_trans [OF o0 sendAck_ok [OF a ok_inv [OF o0]]]])
qed

lemma handleDataMessage_ok:
  assumes "handleDataMessage us m s = Some s'" and "sys_inv k s"
  shows "step_ok k s s'"
proof -
  obtain e s1 where a: "sendAck us m s = Some (e, s1)"
    and s': "s' = (case e of Some err \<Rightarrow> close_wrapped ''send data ack: '' err s1
        | None \<Rightarrow> upd (upd_rcv (deliver m)) s1)"
    using assms(1) by (auto simp: handleDataMessage_def bind_eq_Some_conv)
  have o1: "step_ok k s s1" by (rule sendAck_ok [OF a assms(2)])
  have "step_ok k s1 (upd (upd_rcv (deliver m)) s1)" by (rule rcv_ok [OF ok_inv [OF o1]]) simp
  then show ?thesis
    using closing_ok [OF o1, where e = e] o1 step_ok_trans s' by (cases e) auto
qed

lemma handleAcknowledge_ok: "sys_inv k s \<Longrightarrow> step_ok k s (upd (handleAcknowledge up now m) s)"
proof (rule step_ok_upd)
  assume "sys_inv k s"
  then have i: "adapter_inv (ad s)" by (simp add: sys_inv_def)
  show "adapter_inv (handleAcknowledge up now m (ad s))"
    using i by (simp add: handleAcknowledge_def ack_adapter_inv resume_adapter_inv split: option.split)
  show "later (ad s) (handleAcknowledge up now m (ad s))"
    by (auto simp: handleAcknowledge_def later_small split: option.split
        intro: later_trans [OF later_ack later_small(2)])
qed (simp_all add: handleAcknowledge_def split: option.split)

lemma dispatchMessage_ok:
  assumes "dispatchMessage us up m s = Some (b, s')" and "sys_inv (k + 1) s" and "0 \<le> k"
  shows "step_ok k s s' \<and> (b \<or> doneClosed (ad s'))"
proof -
  define s1 where "s1 = upd (\<lambda>a. a\<lparr>lastInboundUnixNano := clock s,
      seenMsgIds := snd (markMessageSeen (MessageId (Header m)) (seq_of m) (seenMsgIds (ad s)))\<rparr>) s"
  have o1: "step_ok (k + 1) s s1" unfolding s1_def by (rule flags_ok(3) [OF assms(2)])
  have i1: "sys_inv (k + 1) s1" "sys_inv k s1" "adapter_inv (ad s1)"
    using o1 sys_inv_weaken by (auto simp: step_ok_def sys_inv_def num_room_def)
  have s1k: "step_ok k s s1" by (rule step_ok_weaken [OF o1])
  have out: "step_ok k s1 s2" if "handleOutputStream us m d s1 = Some s2" for d s2
    using that i1 handleHandshakeRequestPayload_ok [OF _ i1(1) assms(3)]
      handleHandshakeCompletePayload_ok [OF _ i1(2)] handleDataMessage_ok [OF _ i1(2)]
    by (auto simp: handleOutputStream_def split: if_splits)
  have pp: "step_ok k s1 (upd (pausePublication (clock s1)) s1)" "step_ok k s1 (upd resumePublication s1)"
    by (rule step_ok_upd; simp add: i1 pause_adapter_inv resume_adapter_inv later_small)+
  have cl: "step_ok k s1 (upd (\<lambda>a. closeWithError errChannelClosedByRemote (close_stream a)) s1)"
    by (rule step_ok_upd) (simp_all add: i1 close_stream_closeWithError
        later_trans [OF later_small(12) later_closeWithError])
  have dn: "doneClosed (ad (upd (\<lambda>a. closeWithError e (close_stream a)) s1))" for e
    by (simp add: upd_def closeWithError_def)
  have "step_ok k s1 s' \<and> (b \<or> doneClosed (ad s'))"
    using assms(1) out pp cl handleAcknowledge_ok [OF i1(2)] step_ok_refl [OF i1(2)] dn
    by (auto simp: dispatchMessage_def split_beta Let_def s1_def [symmetric] split: if_splits)
  then show ?thesis using step_ok_trans [OF s1k] by blast
qed

lemma failure_ok: "sys_inv k s \<Longrightarrow> step_ok k s (upd (\<lambda>a. snd (handleTransportFailure now e a)) s)"
  by (rule step_ok_upd) (simp_all add: failure_adapter_inv later_failure sys_inv_def)

lemma yield_ok: "sys_inv k s \<Longrightarrow> step_ok k s (yield s)"
  using kr.yield_rel [of k 0 s] by (simp add: keep_rel_def step_ok_def)

fun read_end_sys :: "read_end \<Rightarrow> sys" where
  "read_end_sys (ReadReturned s) = s"
| "read_end_sys (ReadPanicked s) = s"

text \<open>One round of the read loop on its own connection.\<close>

definition gen_live :: "nat \<Rightarrow> sys \<Rightarrow> bool" where
  "gen_live gen s \<longleftrightarrow> \<not> connGenerationStale gen (ad s) \<and> conn (ad s) \<noteq> None"

lemma readLoop_Inl:
  "gen_live gen s \<Longrightarrow> readLoopForGen us up gen (Inl err # reads) s =
    (if connGenerationStale gen (ad (yield s)) then Some (ReadReturned (yield s))
     else Some (ReadReturned
       (upd (\<lambda>a. snd (handleTransportFailure (clock (yield s)) err a)) (yield s))))"
  by (subst readLoopForGen.simps) (auto simp: gen_live_def Let_def)

lemma readLoop_Inr:
  "gen_live gen s \<Longrightarrow> readLoopForGen us up gen (Inr bs # reads) s =
    (case UnmarshalMessage bs of
       Panic _ \<Rightarrow> Some (ReadPanicked (yield s))
     | Fail _ \<Rightarrow> readLoopForGen us up gen reads (yield s)
     | Ret msg \<Rightarrow>
         (case dispatchMessage us up msg (yield s) of
            None \<Rightarrow> None
          | Some (go_on, s2) \<Rightarrow>
              if go_on then readLoopForGen us up gen reads s2 else Some (ReadReturned s2)))"
  by (subst readLoopForGen.simps) (auto simp: gen_live_def Let_def)

lemmas readLoop_round = readLoop_Inl readLoop_Inr

lemma readLoop_frame:
  assumes "gen_live gen s" and "readLoopForGen us up gen (Inr bs # reads) s = Some r"
  obtains (panicked) "r = ReadPanicked (yield s)"
    | (skipped) "readLoopForGen us up gen reads (yield s) = Some r"
    | (handled) msg s2 where "dispatchMessage us up msg (yield s) = Some (True, s2)"
        "readLoopForGen us up gen reads s2 = Some r"
    | (stopped) msg s2 where "dispatchMessage us up msg (yield s) = Some (False, s2)" "r = ReadReturned s2"
proof (cases "UnmarshalMessage bs")
  case (Ret msg)
  obtain go_on s2 where d: "dispatchMessage us up msg (yield s) = Some (go_on, s2)"
    using assms(2) by (auto simp: readLoop_Inr [OF assms(1)] Ret split: option.splits)
  then show ?thesis using assms(2) handled stopped by (cases go_on) (simp_all add: readLoop_Inr [OF assms(1)] Ret)
qed (use assms(2) panicked skipped in \<open>simp_all add: readLoop_Inr [OF assms(1)]\<close>)

lemma step_ok_zero: "\<lbrakk>step_ok k s s'; 0 \<le> k\<rbrakk> \<Longrightarrow> step_ok 0 s s'"
  by (simp add: step_ok_def sys_inv_def num_room_def)

lemma readLoop_ok:
  assumes "readLoopForGen us up gen reads s = Some r" and "sys_inv (int (length reads)) s"
  shows "step_ok 0 s (read_end_sys r)"
  using assms
proof (induction reads arbitrary: s)
  case Nil
  then have i: "sys_inv 0 s" by simp
  show ?case
    using Nil(1) step_ok_refl [OF i] failure_ok [OF i]
    by (auto simp: readLoopForGen.simps split: if_splits)
next
  case (Cons x reads)
  have k: "sys_inv (int (length reads) + 1) s" using Cons.prems(2) by (simp add: algebra_simps)
  then have i0: "sys_inv 0 s" by (simp add: sys_inv_def num_room_def)
  note y = yield_ok [OF k]
  have y0: "step_ok 0 s (yield s)" by (rule step_ok_zero [OF y]) simp
  show ?case
  proof (cases "gen_live gen s")
    case False
    then show ?thesis
      using Cons.prems(1) step_ok_refl [OF i0] failure_ok [OF i0]
      by (auto simp: gen_live_def readLoopForGen.simps split: if_splits)
  next
    case live: True
    have dispatched: "step_ok (int (length reads)) (yield s) s2 \<and> step_ok 0 s s2"
      if "dispatchMessage us up msg (yield s) = Some (go_on, s2)" for msg go_on s2
    proof -
      have "step_ok (int (length reads)) (yield s) s2" using dispatchMessage_ok [OF that ok_inv [OF y]] by simp
      then show ?thesis using step_ok_trans [OF y0] step_ok_zero by simp
    qed
    show ?thesis
    proof (cases x)
      case (Inl err)
      then show ?thesis
        using Cons.prems(1) live y0 step_ok_trans [OF y0 failure_ok [OF ok_inv [OF y0]]]
        by (auto simp: readLoop_round split: if_splits)
    next
      case (Inr bs)
      from live Cons.prems(1) [unfolded Inr] show ?thesis
      proof (cases rule: readLoop_frame)
        case skipped
        from Cons.IH [OF this] ok_inv [OF step_ok_weaken [OF y]] show ?thesis using step_ok_trans [OF y0] by blast
      next
        case (handled msg s2)
        from Cons.IH [OF this(2)] dispatched [OF this(1)] show ?thesis using ok_inv step_ok_trans by blast
      qed (use y0 dispatched in auto)
    qed
  qed
qed

section \<open>What the handlers leave alone\<close>

text \<open>Nothing but a handler, and the closing of the stream, changes the receiver.\<close>

definition rcv_rel :: "sys \<Rightarrow> sys \<Rightarrow> bool" where
  "rcv_rel s s' \<longleftrightarrow> (rcv (ad s'))\<lparr>streamClosed := False\<rparr> = (rcv (ad s))\<lparr>streamClosed := False\<rparr>"

lemma rcv_ops [simp]:
  "rcv (resumePublication a) = rcv a" "rcv (pausePublication now a) = rcv a"
  "rcv (clearPauseForReconnect a) = rcv a" "rcv (setCloseReason e a) = rcv a"
  "rcv (SetWriteDeadline dl a) = rcv a" "rcv (swapConn c a) = rcv a"
  "rcv (ForceCloseTransport a) = rcv a" "rcv (startReconnect now a) = rcv a"
  "rcv (reconnect_done a) = rcv a" "rcv (snd (markHandshakeComplete a)) = rcv a"
  "rcv (upd_win f a) = rcv a" "rcv (snd (nextSeq a)) = rcv a"
  by (simp_all add: resumePublication_def pausePublication_def clearPauseForReconnect_def
      setCloseReason_def SetWriteDeadline_def swapConn_def ForceCloseTransport_def nextSeq_def
      startReconnect_def reconnect_done_def markHandshakeComplete_def adapter_prims Let_def
      split: option.split)

lemma rcv_closing:
  "(rcv (close_stream a))\<lparr>streamClosed := False\<rparr> = (rcv a)\<lparr>streamClosed := False\<rparr>"
  "(rcv (Close a))\<lparr>streamClosed := False\<rparr> = (rcv a)\<lparr>streamClosed := False\<rparr>"
  by (simp_all add: Close_def adapter_prims Let_def split: option.split)

lemma rcv_move:
  "(rcv (adapter_move now m a))\<lparr>streamClosed := False\<rparr> = (rcv a)\<lparr>streamClosed := False\<rparr>"
proof (cases m)
  case (MWrite uid frame)
  have "rcv (snd (nextSeq a)) = rcv a" by simp
  then show ?thesis
    by (simp add: MWrite adapter_move_def other_write_def split_beta split: option.split add_result.split)
qed (auto simp: adapter_move_def closeWithError_def install_conn_eq resume_exhausted_def
    handleTransportFailure_def rcv_closing split: resume_loop.split)

interpretation rr: io_rel rcv_rel
proof unfold_locales
  show "rcv_rel s (fold do_move ms (s\<lparr>sched := rest\<rparr>))" for s ms rest
  proof -
    have "rcv_rel s (fold do_move ms s)" for s
    proof (induction ms arbitrary: s)
      case (Cons m ms)
      show ?case
        using Cons.IH [of "do_move m s"] by (simp add: rcv_rel_def do_move_def rcv_move)
    qed (simp add: rcv_rel_def)
    from this [of "s\<lparr>sched := rest\<rparr>"] show ?thesis by (simp add: rcv_rel_def)
  qed
qed (simp_all add: rcv_rel_def upd_def closeWithError_def handleTransportFailure_def rcv_closing)

lemma rcv_rel_open:
  assumes "rcv_rel s s'" and "adapter_inv (ad s)" and "adapter_inv (ad s')" and "later (ad s) (ad s')"
    and "\<not> doneClosed (ad s')"
  shows "rcv (ad s') = rcv (ad s)"
proof -
  have "streamClosed (rcv (ad s')) = streamClosed (rcv (ad s))"
    using assms(2-5) by (auto simp: later_def adapter_inv_def life_inv_def)
  then show ?thesis
    using assms(1) by (cases "rcv (ad s')"; cases "rcv (ad s)") (simp add: rcv_rel_def)
qed

section \<open>Properties\<close>

lemma read_loop_inv:
  assumes "readLoopForGen us up gen reads s = Some r"
    and "adapter_inv (ad s)" and "num_room (int (length reads)) s"
  shows "adapter_inv (ad (read_end_sys r)) \<and> later (ad s) (ad (read_end_sys r))"
  using readLoop_ok [OF assms(1)] assms(2,3) by (simp add: sys_inv_def step_ok_def)

definition crash_bytes :: bytes where
  "crash_bytes = put_header ((Header (test_msg 0 []))\<lparr>HeaderLength := 116, PayloadLength := 0xFFFFFFFF\<rparr>)"

lemma crash_bytes_panic: "\<exists>p. UnmarshalMessage crash_bytes = Panic p"
proof -
  let ?h = "(Header (test_msg 0 []))\<lparr>HeaderLength := 116, PayloadLength := 0xFFFFFFFF\<rparr>"
  have "valid_type (MessageType ?h)"
    by (simp add: test_msg_def valid_type_def msg_type_defs is_pad_def)
  then have "unmarshal_header (put_header ?h) = Some (?h, [])"
    using unmarshal_put_header [of ?h "[]"] by simp
  from UnmarshalMessage_cases [OF _ this] show ?thesis
    by (simp add: TotalHeaderLen_def crash_bytes_def)
qed

lemma data_message_effect:
  assumes "handleDataMessage us msg s = Some s'" and "adapter_inv (ad s)" and "num_room 0 s"
    and "\<not> doneClosed (ad s')"
  shows "rcv (ad s') = deliver msg (rcv (ad s))
    \<and> (\<exists>l c f. sent (ad s') = sent (ad s) @ l @ [(c, f)] \<and> ack_frame us msg f)"
proof -
  obtain e s1 where a: "sendAck us msg s = Some (e, s1)"
    and s': "s' = (case e of Some err \<Rightarrow> close_wrapped ''send data ack: '' err s1
        | None \<Rightarrow> upd (upd_rcv (deliver msg)) s1)"
    using assms(1) by (auto simp: handleDataMessage_def bind_eq_Some_conv)
  have e: "e = None"
    using assms(4) s' by (cases e) (auto simp: close_wrapped_def upd_def closeWithError_def)
  have "sys_inv 0 s" using assms(2,3) by (simp add: sys_inv_def)
  then have o: "step_ok 0 s s1" by (rule sendAck_ok [OF a])
  have "\<not> doneClosed (ad s1)" using assms(4) s' e by (simp add: upd_def upd_rcv_def)
  then have "rcv (ad s1) = rcv (ad s)"
    using rcv_rel_open [OF _ assms(2)] rr.sendAck_rel [OF a] o by (simp add: step_ok_def sys_inv_def)
  then show ?thesis
    using sendAck_sent [of us msg s s1] a e s' by (simp add: upd_def upd_rcv_def)
qed

lemma quiet_new_uuid: "quiet_sys c s \<Longrightarrow> quiet_sys c (snd (new_uuid s))"
  by (simp add: quiet_sys_def new_uuid_def split: list.split)

text \<open>Sending when nothing stands in the way.\<close>

definition pushed :: "sys \<Rightarrow> ws \<Rightarrow> bytes \<Rightarrow> sys \<Rightarrow> bool" where
  "pushed s c f s' \<longleftrightarrow> sched s' = [] \<and> wouts s' = [] \<and> clock s' = clock s \<and>
     ad s' = (ad s)\<lparr>connWriteDeadline := Some (effectiveWriteDeadline (clock s) (ad s)),
       sent := sent (ad s) @ [(c, f)]\<rparr>"

lemma pushed_quiet: "pushed s c f s' \<Longrightarrow> quiet_sys c s \<Longrightarrow> quiet_sys c s'"
  by (simp add: pushed_def quiet_sys_def)

lemma quiet_writeMessage:
  assumes "quiet_sys c s"
  shows "\<exists>s'. writeMessage m s = Some (None, s') \<and> pushed s c (MarshalBinary m) s'"
  using quiet_writeRaw [OF assms, of "MarshalBinary m"] assms
  by (simp add: writeMessage_def pushed_def upd_def quiet_sys_def)

lemma quiet_sendAck:
  assumes "quiet_sys c s"
  shows "\<exists>s' f. sendAck us m s = Some (None, s') \<and> ack_frame us m f \<and> pushed s c f s'"
proof -
  let ?m = "NewAcknowledgeMessage us (unix_milli (clock (snd (new_uuid s)))) (fst (new_uuid s))
      (MessageType (Header m)) (MessageId (Header m)) (SequenceNumber (Header m))"
  obtain s' where "writeMessage ?m (snd (new_uuid s)) = Some (None, s')"
    "pushed (snd (new_uuid s)) c (MarshalBinary ?m) s'"
    using quiet_writeMessage [OF quiet_new_uuid [OF assms]] by blast
  then show ?thesis
    by (auto simp: sendAck_def split_beta ack_frame_def pushed_def)
qed

end
