(* ===== verification/Schedule.thy ===== *)
theory Schedule
  imports Handlers
begin

text \<open>
  Progress of the blocking operations of the adapter: an operation that waits for an event returns
  when the script of the other goroutines brings the event about.  \<open>play_all\<close> runs the
  whole script; the waits are then shown to return by induction on what is left of it, and
  \<open>reconnectLoop\<close> to end when the script reaches its deadline, because every round lets time pass.
\<close>

section \<open>The end of the script\<close>

definition play_all :: "sys \<Rightarrow> sys" where
  "play_all s = fold do_move (concat (sched s)) (s\<lparr>sched := []\<rparr>)"

definition ticks :: "move \<Rightarrow> int" where
  "ticks m = (case m of MTick d \<Rightarrow> int d | _ \<Rightarrow> 0)"

lemma ticks_nonneg: "0 \<le> ticks m"
  by (cases m) (simp_all add: ticks_def)

lemma clock_do_move: "clock (do_move m s) = clock s + ticks m"
  by (simp add: do_move_def ticks_def)

lemma clock_moves: "clock (fold do_move ms s) = clock s + sum_list (map ticks ms)"
  by (induction ms arbitrary: s) (simp_all add: clock_do_move)

lemma sched_moves [simp]: "sched (fold do_move ms s) = sched s"
  by (induction ms arbitrary: s) (simp_all add: do_move_def)

lemma sum_ticks_nonneg: "0 \<le> sum_list (map ticks ms)"
  by (induction ms) (simp_all add: ticks_nonneg add_nonneg_nonneg)

lemma moves_sched: "fold do_move ms (s\<lparr>sched := x\<rparr>) = (fold do_move ms s)\<lparr>sched := x\<rparr>"
proof (induction ms arbitrary: s)
  case (Cons m ms)
  have "do_move m (s\<lparr>sched := x\<rparr>) = (do_move m s)\<lparr>sched := x\<rparr>" by (simp add: do_move_def)
  then show ?case using Cons.IH [of "do_move m s"] by simp
qed simp

lemma play_all_nil: "sched s = [] \<Longrightarrow> play_all s = s"
  by (cases s) (simp add: play_all_def)

lemma play_all_batch:
  assumes "sched s = ms # rest"
  shows "play_all (fold do_move ms (s\<lparr>sched := rest\<rparr>)) = play_all s"
  by (simp add: play_all_def assms moves_sched)

lemma play_all_yield: "play_all (yield s) = play_all s"
  by (cases "sched s") (simp_all add: yield_def play_all_batch)

lemma clock_play_all: "clock (play_all s) = clock s + sum_list (map ticks (concat (sched s)))"
  by (simp add: play_all_def clock_moves)

text \<open>A later point of the same run: time has passed, the script ends at the same time.\<close>

definition after :: "sys \<Rightarrow> sys \<Rightarrow> bool" where
  "after s s' \<longleftrightarrow> clock s \<le> clock s' \<and> clock (play_all s') = clock (play_all s)"

lemma after_refl: "after s s"
  by (simp add: after_def)

lemma after_trans: "after s s' \<Longrightarrow> after s' s'' \<Longrightarrow> after s s''"
  by (simp add: after_def)

lemma after_batch: "sched s = ms # rest \<Longrightarrow> after s (fold do_move ms (s\<lparr>sched := rest\<rparr>))"
  by (simp add: after_def play_all_batch clock_moves sum_ticks_nonneg)

lemma after_yield: "after s (yield s)"
  by (cases "sched s") (simp_all add: yield_def after_refl after_batch)

lemma after_upd: "after s s' \<Longrightarrow> after s (upd f s')"
  by (simp add: after_def clock_play_all upd_def)

lemma after_pick: "after s (snd (pick_ready rs s))"
  by (simp add: after_def clock_play_all pick_ready_def split: list.split)

lemma pick_ready_ok:
  assumes "rs \<noteq> []"
  shows "fst (pick_ready rs s) \<in> set rs" "ad (snd (pick_ready rs s)) = ad s"
    "clock (snd (pick_ready rs s)) = clock s"
  using assms by (simp_all add: pick_ready_def split: list.split)

section \<open>Waits that end\<close>

lemma wait_handshake_returns:
  assumes "handshake_ready ctx (play_all s) \<noteq> []"
  shows "\<exists>y. wait_handshake ctx s = Some y"
  using assms
proof (induction "sched s" arbitrary: s)
  case Nil
  then show ?case by (subst wait_handshake.simps) (simp add: play_all_nil)
next
  case (Cons ms rest)
  let ?t = "fold do_move ms (s\<lparr>sched := rest\<rparr>)"
  have "\<exists>y. wait_handshake ctx ?t = Some y"
    using Cons(1) [of ?t] Cons(3) play_all_batch [OF Cons(2) [symmetric]] by simp
  then show ?case
    by (subst wait_handshake.simps) (simp add: block_def Cons(2) [symmetric])
qed

lemma timer_wait_returns:
  assumes "tm \<le> clock (play_all s)"
  shows "\<exists>r s'. wait_select None (Some tm) s = Some (r, s') \<and> after s s' \<and> (r = RDone \<or> tm \<le> clock s')"
  using assms
proof (induction "sched s" arbitrary: s)
  case Nil
  have n: "ready_cases None (Some tm) s \<noteq> []"
    using Nil by (simp add: ready_cases_def play_all_nil)
  let ?p = "pick_ready (ready_cases None (Some tm) s) s"
  have "wait_select None (Some tm) s = Some (fst ?p, snd ?p)"
    using n by (subst wait_select.simps) simp
  moreover have "tm \<le> clock (snd ?p)"
    using Nil pick_ready_ok(3) [OF n, of s] by (simp add: play_all_nil)
  ultimately show ?case using after_pick by blast
next
  case (Cons ms rest)
  show ?case
  proof (cases "ready_cases None (Some tm) s = []")
    case True
    let ?t = "fold do_move ms (s\<lparr>sched := rest\<rparr>)"
    have t: "after s ?t" by (rule after_batch [OF Cons(2) [symmetric]])
    have "tm \<le> clock (play_all ?t)"
      using Cons(3) play_all_batch [OF Cons(2) [symmetric]] by simp
    then obtain r s' where "wait_select None (Some tm) ?t = Some (r, s')" "after ?t s'"
        "r = RDone \<or> tm \<le> clock s'"
      using Cons(1) [of ?t] by auto
    then show ?thesis
      using True after_trans [OF t]
      by (subst wait_select.simps) (auto simp: block_def Cons(2) [symmetric])
  next
    case False
    let ?p = "pick_ready (ready_cases None (Some tm) s) s"
    have "fst ?p = RDone \<or> tm \<le> clock (snd ?p)"
      using pick_ready_ok(1,3) [OF False, of s] by (auto simp: ready_cases_def split: if_splits)
    moreover have "wait_select None (Some tm) s = Some (fst ?p, snd ?p)"
      using False by (subst wait_select.simps) simp
    ultimately show ?thesis using after_pick by blast
  qed
qed

section \<open>The reconnect loop\<close>

lemma after_try: "after s (snd (try_resume r s))"
proof -
  have "after s (yield (yield s))" "after s (yield (yield (yield s)))"
    by (blast intro: after_trans after_yield)+
  then show ?thesis
    using after_yield [of s]
    by (simp add: try_resume_def Let_def after_upd split: sum.split option.split)
qed

lemma backoff_returns:
  assumes "dl \<le> clock (play_all s)"
  shows "\<exists>go s'. sleepResumeBackoff d dl s = Some (go, s') \<and> after s s'
    \<and> (go \<longrightarrow> dl \<le> clock s' \<or> clock s + d \<le> clock s')"
proof (cases "min d (dl - clock s) \<le> 0")
  case True
  then show ?thesis
    by (auto simp: sleepResumeBackoff_def Let_def after_refl split: if_splits)
next
  case False
  have "clock s + min d (dl - clock s) \<le> clock (play_all s)" using assms by simp
  then obtain r s' where "wait_select None (Some (clock s + min d (dl - clock s))) s = Some (r, s')"
      "after s s'" "r = RDone \<or> clock s + min d (dl - clock s) \<le> clock s'"
    using timer_wait_returns by blast
  moreover have "(if d > dl - clock s then dl - clock s else d) = min d (dl - clock s)" by simp
  ultimately show ?thesis
    using False by (auto simp: sleepResumeBackoff_def Let_def min_def split: if_splits)
qed

lemma reconnectLoop_returns:
  assumes "0 < step" and "\<forall>r \<in> set attempts. step \<le> raDelay r"
    and "dl \<le> clock (play_all s)" and "dl - clock s \<le> step * int (length attempts)"
  shows "\<exists>s'. reconnectLoop dl attempts s = Some s'"
  using assms
proof (induction attempts arbitrary: s)
  case Nil
  then show ?case by (subst reconnectLoop.simps) simp
next
  case (Cons r rest)
  obtain o1 s1 where t: "try_resume r s = (o1, s1)" by fastforce
  have l1: "after s s1" using after_try [of s r] t by simp
  have d1: "dl \<le> clock (play_all s1)" using Cons.prems(3) l1 by (simp add: after_def)
  obtain go s2 where b: "sleepResumeBackoff (raDelay r) dl s1 = Some (go, s2)" "after s1 s2"
      "go \<longrightarrow> dl \<le> clock s2 \<or> clock s1 + raDelay r \<le> clock s2"
    using backoff_returns [OF d1] by blast
  have rec: "\<exists>s'. reconnectLoop dl rest s2 = Some s'" if go
  proof (cases "dl \<le> clock s2")
    case True
    then show ?thesis by (subst reconnectLoop.simps) simp
  next
    case False
    then have "clock s + step \<le> clock s2"
      using b that l1 Cons.prems(2) by (simp add: after_def)
    then have "dl - clock s2 \<le> step * int (length rest)"
      using Cons.prems(4) by (simp add: algebra_simps)
    moreover have "dl \<le> clock (play_all s2)" using d1 b(2) by (simp add: after_def)
    ultimately show ?thesis using Cons.IH Cons.prems(1,2) by simp
  qed
  show ?case
    using rec b(1) t by (subst reconnectLoop.simps) (cases o1; auto)
qed

end
