(* ===== verification/SessionSpec.thy ===== *)
theory SessionSpec
  imports HandlerSpec Schedule
begin

text \<open>
  The protocol conversations of the adapter: the handshake and its repetition, acknowledgements
  made by the peer, the ends of \<open>WaitForHandshake\<close> and of \<open>reconnectLoop\<close>, and the ways in which a
  write deadline or an old WebSocket interferes with a resume.
\<close>

section \<open>Acknowledgements from the peer\<close>

lemma length_NewAck:
  "length (Payload (NewAcknowledgeMessage us t u ty mid seq)) = length (ack_marshal
     \<lparr>AckMessageType = ty, AckMessageId = us mid, AckSequenceNumber = sint seq, AckIsSequential = True\<rparr>)"
  by (simp add: NewAcknowledgeMessage_def Let_def)

lemma NewAck_decode:
  assumes "TotalHeaderLen + length (Payload (NewAcknowledgeMessage us t u ty mid seq)) < 2 ^ 32"
  shows "\<exists>m. UnmarshalMessage (MarshalBinary (NewAcknowledgeMessage us t u ty mid seq)) = Ret m
    \<and> MessageType (Header m) = MsgTypeAcknowledge
    \<and> Payload m = ack_marshal \<lparr>AckMessageType = ty, AckMessageId = us mid,
        AckSequenceNumber = sint seq, AckIsSequential = True\<rparr>"
  using unmarshal_marshal_eq [OF _ _ assms]
  by (simp add: NewAcknowledgeMessage_def Let_def valid_type_def msg_type_defs is_pad_def)

lemma sint_word_of_int: "0 \<le> k \<Longrightarrow> k \<le> max_i64 \<Longrightarrow> sint (word_of_int k :: u64) = k"
  by (simp add: sint_sbintrunc' signed_take_bit_int_eq_self)

text \<open>
  C37. The two ends agree on acknowledgements: the frame that this code builds to acknowledge
  an outstanding message decodes at its sender into a message whose dispatch removes exactly
  that frame from the window and lifts a pause.  Of the uuid package it relies on \<open>Parse\<close>
  undoing \<open>String\<close> and on \<open>String\<close> being short ASCII text.
\<close>

theorem ack_clears_frame:
  assumes "up (us mid) = Some mid" and "ascii (str_bytes (us mid))"
    and "TotalHeaderLen + length (Payload (NewAcknowledgeMessage us t u MsgTypeInputStreamData mid (word_of_int seq))) < 2 ^ 32"
    and "adapter_inv (ad s)" and "window_unacked (win (ad s)) seq = Some (mid, f)"
  shows "\<exists>m s'. UnmarshalMessage (MarshalBinary
        (NewAcknowledgeMessage us t u MsgTypeInputStreamData mid (word_of_int seq))) = Ret m
    \<and> dispatchMessage us up m s = Some (True, s')
    \<and> window_unacked (win (ad s')) = (window_unacked (win (ad s)))(seq := None)
    \<and> \<not> paused (ad s') \<and> sent (ad s') = sent (ad s)"
proof -
  let ?ack = "\<lparr>AckMessageType = MsgTypeInputStreamData, AckMessageId = us mid,
        AckSequenceNumber = sint (word_of_int seq :: u64), AckIsSequential = True\<rparr>"
  obtain m where m: "UnmarshalMessage (MarshalBinary
        (NewAcknowledgeMessage us t u MsgTypeInputStreamData mid (word_of_int seq))) = Ret m"
    "MessageType (Header m) = MsgTypeAcknowledge" "Payload m = ack_marshal ?ack"
    using NewAck_decode [OF assms(3)] by blast
  have wi: "window_inv (win (ad s))" by (rule adapter_window_inv [OF assms(4)])
  obtain om where "map_of (outgoing (win (ad s))) seq = Some om"
    using assms(5) by (auto simp: window_unacked_def)
  then have "seq \<in> set (gm_keys (outgoing (win (ad s))))" by (rule gm_get_Some_key)
  then have seq: "0 \<le> seq" "seq \<le> max_i64"
    using wi by (auto simp: window_inv_def seq_keys_def)
  have "ascii (str_bytes MsgTypeInputStreamData)" by (simp add: msg_type_defs ascii_def)
  then have a: "ack_unmarshal (Payload m) = Some ?ack"
    unfolding m(3) using assms(2) by (intro ack_roundtrip) simp_all
  let ?s1 = "upd (\<lambda>a. a\<lparr>lastInboundUnixNano := clock s, seenMsgIds :=
      snd (markMessageSeen (MessageId (Header m)) (seq_of m) (seenMsgIds (ad s)))\<rparr>) s"
  have d: "dispatchMessage us up m s = Some (True, upd (handleAcknowledge up (clock s) m) ?s1)"
    using m(2) by (simp add: dispatchMessage_def split_beta Let_def msg_type_defs upd_def)
  have h: "handleAcknowledge up (clock s) m (ad ?s1)
      = resumePublication (upd_win (ackOutgoing (clock s) seq mid) (ad ?s1))"
    using a assms(1) sint_word_of_int [OF seq] by (simp add: handleAcknowledge_def)
  have w: "win (resumePublication (upd_win g a)) = g (win a)" for g a
    by (simp add: resumePublication_def upd_win_def close_chan_def Let_def split: option.split)
  have p: "\<not> paused (resumePublication a)" for a
    by (simp add: resumePublication_def close_chan_def Let_def split: option.split)
  show ?thesis
    using m(1) d h w p ack_unacked [OF wi] assms(5) by (auto simp: upd_def)
qed

text \<open>Decimal texts as a stand-in for the uuid package's text form.\<close>

definition dec_us :: "uuid \<Rightarrow> string" where
  "dec_us u = itoa (uint u)"

definition dec_up :: "string \<Rightarrow> uuid option" where
  "dec_up s = Some (word_of_int (digits_val s))"

lemma dec_up_us: "dec_up (dec_us u) = Some u"
  by (simp add: dec_up_def dec_us_def itoa_def digits_val_itoa_nat)

lemma ascii_digits: "list_all is_digit s \<Longrightarrow> ascii (str_bytes s)"
proof (induction s)
  case (Cons c s)
  have "unat (word_of_nat (of_char c) :: byte) = of_char c"
    using Cons.prems by (simp add: unat_of_nat is_digit_def)
  then have "(word_of_nat (of_char c) :: byte) < 0x80"
    using Cons.prems by (simp add: word_less_nat_alt is_digit_def)
  then show ?case using Cons by (simp add: ascii_def)
qed (simp add: ascii_def)

lemma ascii_dec_us: "ascii (str_bytes (dec_us u))"
  using itoa_nat_digits [of "uint u"] by (simp add: dec_us_def itoa_def ascii_digits)

lemma busy_unacked: "window_unacked (win busy_adapter) 1 = Some (6, [3])"
  by (simp add: busy_adapter_simps Let_def window_unacked_def)

theorem ack_clears_frame_witness:
  "\<exists>m s'. UnmarshalMessage (MarshalBinary
        (NewAcknowledgeMessage dec_us 0 0 MsgTypeInputStreamData 6 (word_of_int 1))) = Ret m
    \<and> dispatchMessage dec_us dec_up m (fresh_sys\<lparr>ad := busy_adapter\<rparr>) = Some (True, s')
    \<and> window_unacked (win (ad s')) = (window_unacked (win busy_adapter))(1 := None)
    \<and> \<not> paused (ad s')"
proof -
  have "itoa 6 = ''6''" by code_simp
  then have six: "dec_us 6 = ''6''" by (simp add: dec_us_def)
  have one: "itoa 1 = ''1''" by code_simp
  have len: "length (ack_marshal \<lparr>AckMessageType = MsgTypeInputStreamData, AckMessageId = ''6'',
      AckSequenceNumber = 1, AckIsSequential = True\<rparr>) = 140"
    unfolding ack_marshal_def ack_json_def one by (simp add: msg_type_defs) code_simp
  then have l: "TotalHeaderLen + length (Payload (NewAcknowledgeMessage dec_us 0 0
      MsgTypeInputStreamData 6 (word_of_int 1))) < 2 ^ 32"
    by (simp add: length_NewAck six TotalHeaderLen_def)
  show ?thesis
    using ack_clears_frame [where us = dec_us and up = dec_up and mid = 6 and t = 0 and u = 0
        and seq = 1 and s = "fresh_sys\<lparr>ad := busy_adapter\<rparr>" and f = "[3]", OF dec_up_us ascii_dec_us l]
      busy_adapter_inv busy_unacked by auto
qed

section \<open>The handshake\<close>

text \<open>What \<open>dispatchMessage\<close> does before the handler, and the handler of a handshake request.\<close>

definition mark_inbound :: "AgentMessage \<Rightarrow> sys \<Rightarrow> sys" where
  "mark_inbound msg s = upd (\<lambda>a. a\<lparr>lastInboundUnixNano := clock s, seenMsgIds :=
      snd (markMessageSeen (MessageId (Header msg)) (seq_of msg) (seenMsgIds (ad s)))\<rparr>) s"

definition handshake_msg :: "AgentMessage \<Rightarrow> bool" where
  "handshake_msg hs \<longleftrightarrow> MessageType (Header hs) = MsgTypeOutputStreamData
     \<and> PayloadType (Header hs) = PayloadTypeHandshakeRequest"

lemma dispatch_handshake:
  "handshake_msg hs \<Longrightarrow> dispatchMessage us up hs s = map_option (Pair True) (handleHandshakeRequestPayload us hs
      (fst (markMessageSeen (MessageId (Header hs)) (seq_of hs) (seenMsgIds (ad s)))) (mark_inbound hs s))"
  by (simp add: dispatchMessage_def split_beta Let_def handleOutputStream_def mark_inbound_def handshake_msg_def)

lemma quiet_mark: "quiet_sys c s \<Longrightarrow> quiet_sys c (mark_inbound msg s)"
  by (simp add: mark_inbound_def quiet_sys_def upd_def)

definition handshake_response :: "u64 \<Rightarrow> uuid \<Rightarrow> int \<Rightarrow> AgentMessage" where
  "handshake_response t u seq = NewHandshakeResponseMessage t u seq ClientVersion
     [\<lparr>ActionType = ''SessionType'', ActionStatus = 1, ActionResult = None, ActionError = []\<rparr>]"

text \<open>The first request, without the bookkeeping around it.\<close>

lemma quiet_handshake_request:
  assumes "quiet_sys c s"
  shows "\<exists>a1 t u w s1. handleHandshakeRequest us hs s = Some (None, s1) \<and> ack_frame us hs a1 \<and> quiet_sys c s1
    \<and> ad s1 = (ad s)\<lparr>handshakeResponded := True, seqNum := to_i64 (seqNum (ad s) + 1), connWriteDeadline := w,
        sent := sent (ad s) @ [(c, a1), (c, MarshalBinary (handshake_response t u (seqNum (ad s))))],
        lastHandshakeResponse := Some (handshake_response t u (seqNum (ad s)))\<rparr>"
proof -
  let ?r = "upd (\<lambda>a. a\<lparr>handshakeResponded := True\<rparr>) s"
  have qr: "quiet_sys c ?r" using assms by (simp add: quiet_sys_def upd_def)
  obtain t1 a1 where t1: "sendAck us hs ?r = Some (None, t1)" "ack_frame us hs a1" "pushed ?r c a1 t1"
    using quiet_sendAck [OF qr] by blast
  let ?n = "t1\<lparr>ad := snd (nextSeq (ad t1))\<rparr>"
  define t2 where "t2 = snd (new_uuid ?n)"
  define resp where "resp = handshake_response (unix_milli (clock t1)) (fst (new_uuid ?n)) (seqNum (ad s))"
  have "quiet_sys c ?n" using pushed_quiet [OF t1(3) qr] by (simp add: quiet_sys_def nextSeq_def)
  then have q2: "quiet_sys c t2" unfolding t2_def by (rule quiet_new_uuid)
  let ?t3 = "upd (\<lambda>a. a\<lparr>lastHandshakeResponse := Some resp\<rparr>) t2"
  have q3: "quiet_sys c ?t3" using q2 by (simp add: quiet_sys_def upd_def)
  obtain t4 where t4: "writeMessage resp ?t3 = Some (None, t4)" "pushed ?t3 c (MarshalBinary resp) t4"
    using quiet_writeMessage [OF q3] by blast
  have sq: "fst (nextSeq (ad t1)) = seqNum (ad s)"
    using t1(3) by (simp add: nextSeq_def pushed_def upd_def)
  have "handleHandshakeRequest us hs s = Some (None, t4)"
    using t4(1) by (simp add: handleHandshakeRequest_def t1(1) split_beta Let_def sq
        t2_def [symmetric] resp_def [unfolded handshake_response_def, symmetric])
  moreover have "ad t4 = (ad s)\<lparr>handshakeResponded := True, seqNum := to_i64 (seqNum (ad s) + 1),
      connWriteDeadline := connWriteDeadline (ad t4),
      sent := sent (ad s) @ [(c, a1), (c, MarshalBinary resp)], lastHandshakeResponse := Some resp\<rparr>"
    using t4(2) t1(3) by (simp add: pushed_def upd_def t2_def nextSeq_def)
  moreover have "quiet_sys c t4" by (rule pushed_quiet [OF t4(2) q3])
  ultimately show ?thesis using t1(2) unfolding resp_def by blast
qed

text \<open>A request that was answered before.\<close>

lemma repeated_request:
  assumes "quiet_sys c s" and "handshake_msg hs" and "handshakeResponded (ad s)"
    and "lastHandshakeResponse (ad s) = Some resp"
  shows "\<exists>s2 a2. dispatchMessage us up hs s = Some (True, s2) \<and> ack_frame us hs a2
    \<and> sent (ad s2) = sent (ad s) @ [(c, a2), (c, MarshalBinary resp)]
    \<and> rcv (ad s2) = rcv (ad s) \<and> seqNum (ad s2) = seqNum (ad s)"
proof -
  have qm: "quiet_sys c (mark_inbound hs s)" by (rule quiet_mark [OF assms(1)])
  obtain t a2 where t: "sendAck us hs (mark_inbound hs s) = Some (None, t)" "ack_frame us hs a2"
    "pushed (mark_inbound hs s) c a2 t"
    using quiet_sendAck [OF qm] by blast
  obtain s2 where s2: "writeMessage resp t = Some (None, s2)" "pushed t c (MarshalBinary resp) s2"
    using quiet_writeMessage [OF pushed_quiet [OF t(3) qm]] by blast
  have m: "handshakeResponded (ad (mark_inbound hs s))" "lastHandshakeResponse (ad t) = Some resp"
    "sent (ad t) = sent (ad s) @ [(c, a2)]" "rcv (ad t) = rcv (ad s)" "seqNum (ad t) = seqNum (ad s)"
    using assms(3,4) t(3) by (simp_all add: mark_inbound_def upd_def pushed_def)
  have "dispatchMessage us up hs s = Some (True, s2)"
    using m t(1) s2(1)
    by (simp add: dispatch_handshake [OF assms(2)] handleHandshakeRequestPayload_def resendHandshakeResponse_def)
  then show ?thesis using s2(2) m t(2) by (intro exI [of _ s2] exI [of _ a2]) (simp add: pushed_def)
qed

text \<open>
  C38. The handshake: the first request is answered by an acknowledgement and one response under
  a fresh number, in this order, and the stream then starts after the request's number; a
  repeated request is answered by an acknowledgement and the same response again, and changes
  neither the number counter nor the receiver.
\<close>

theorem handshake_answered:
  assumes "quiet_sys c s" and "\<not> handshakeResponded (ad s)"
    and "MessageType (Header hs) = MsgTypeOutputStreamData"
    and "PayloadType (Header hs) = PayloadTypeHandshakeRequest"
    and "map_of (seenMsgIds (ad s)) (MessageId (Header hs)) = None"
  shows "\<exists>s1 s2 a1 a2 t u. let resp = NewHandshakeResponseMessage t u (seqNum (ad s)) ClientVersion
        [\<lparr>ActionType = ''SessionType'', ActionStatus = 1, ActionResult = None, ActionError = []\<rparr>] in
      dispatchMessage us up hs s = Some (True, s1) \<and> dispatchMessage us up hs s1 = Some (True, s2)
    \<and> ack_frame us hs a1 \<and> ack_frame us hs a2
    \<and> sent (ad s1) = sent (ad s) @ [(c, a1), (c, MarshalBinary resp)]
    \<and> sent (ad s2) = sent (ad s1) @ [(c, a2), (c, MarshalBinary resp)]
    \<and> expectedSeqNum (rcv (ad s1)) = to_i64 (seq_of hs + 1) \<and> rcv (ad s2) = rcv (ad s1)
    \<and> seqNum (ad s1) = to_i64 (seqNum (ad s) + 1) \<and> seqNum (ad s2) = seqNum (ad s1)"
proof -
  have h: "handshake_msg hs" using assms(3,4) by (simp add: handshake_msg_def)
  obtain a1 t u w t1 where r: "handleHandshakeRequest us hs (mark_inbound hs s) = Some (None, t1)"
    "ack_frame us hs a1" "quiet_sys c t1"
    and ad1: "ad t1 = (ad (mark_inbound hs s))\<lparr>handshakeResponded := True,
        seqNum := to_i64 (seqNum (ad (mark_inbound hs s)) + 1), connWriteDeadline := w,
        sent := sent (ad (mark_inbound hs s)) @ [(c, a1),
          (c, MarshalBinary (handshake_response t u (seqNum (ad (mark_inbound hs s)))))],
        lastHandshakeResponse := Some (handshake_response t u (seqNum (ad (mark_inbound hs s))))\<rparr>"
    using quiet_handshake_request [OF quiet_mark [OF assms(1)]] by blast
  define s1 where "s1 = upd (upd_rcv (updateExpectedSeqNum hs)) t1"
  let ?resp = "handshake_response t u (seqNum (ad s))"
  have m: "seqNum (ad (mark_inbound hs s)) = seqNum (ad s)" "sent (ad (mark_inbound hs s)) = sent (ad s)"
    "\<not> handshakeResponded (ad (mark_inbound hs s))"
    using assms(2) by (simp_all add: mark_inbound_def upd_def)
  have "\<not> fst (markMessageSeen (MessageId (Header hs)) (seq_of hs) (seenMsgIds (ad s)))"
    using assms(5) by (simp add: markMessageSeen_def)
  then have d1: "dispatchMessage us up hs s = Some (True, s1)"
    using m(3) r(1) by (simp add: dispatch_handshake [OF h] handleHandshakeRequestPayload_def s1_def)
  have f1: "sent (ad s1) = sent (ad s) @ [(c, a1), (c, MarshalBinary ?resp)]"
    "expectedSeqNum (rcv (ad s1)) = to_i64 (seq_of hs + 1)" "seqNum (ad s1) = to_i64 (seqNum (ad s) + 1)"
    "handshakeResponded (ad s1)" "lastHandshakeResponse (ad s1) = Some ?resp" "quiet_sys c s1"
    using r(3) m by (simp_all add: s1_def upd_def upd_rcv_def ad1 updateExpectedSeqNum_def quiet_sys_def)
  obtain s2 a2 where "dispatchMessage us up hs s1 = Some (True, s2)" "ack_frame us hs a2"
    "sent (ad s2) = sent (ad s1) @ [(c, a2), (c, MarshalBinary ?resp)]"
    "rcv (ad s2) = rcv (ad s1)" "seqNum (ad s2) = seqNum (ad s1)"
    using repeated_request [OF f1(6) h f1(4,5)] by blast
  with d1 r(2) f1 show ?thesis
    unfolding Let_def handshake_response_def [symmetric] by blast
qed

definition request_msg :: AgentMessage where
  "request_msg = (test_msg 0 [])\<lparr>Header := (Header (test_msg 0 []))\<lparr>PayloadType := PayloadTypeHandshakeRequest\<rparr>\<rparr>"

theorem handshake_answered_witness:
  "\<exists>s1 s2. dispatchMessage dec_us dec_up request_msg fresh_sys = Some (True, s1)
    \<and> dispatchMessage dec_us dec_up request_msg s1 = Some (True, s2)
    \<and> length (sent (ad s2)) = 4 \<and> seqNum (ad s2) = 1"
proof -
  have h: "quiet_sys 7 fresh_sys" "\<not> handshakeResponded (ad fresh_sys)"
    "map_of (seenMsgIds (ad fresh_sys)) (MessageId (Header request_msg)) = None"
    and f: "seqNum (ad fresh_sys) = 0" "sent (ad fresh_sys) = []"
    by (simp_all add: quiet_sys_def fresh_sys_simps)
  have m: "MessageType (Header request_msg) = MsgTypeOutputStreamData"
    "PayloadType (Header request_msg) = PayloadTypeHandshakeRequest"
    by (simp_all add: request_msg_def test_msg_def)
  show ?thesis
    using handshake_answered [OF h(1,2) m h(3), of dec_us dec_up]
    unfolding Let_def f by (elim exE conjE) (intro exI conjI, assumption+, simp_all add: to_i64_def)
qed

lemma wait_for_handshake_sound:
  assumes "WaitForHandshake ctx s = Some (e, s')"
  shows "case e of
      None \<Rightarrow> handshakeComplete (ad s')
    | Some err \<Rightarrow>
        (\<exists>t. ctx = Some (t, err) \<and> t \<le> clock s')
        \<or> (doneClosed (ad s') \<and> \<not> handshakeComplete (ad s') \<and> errors_is err errAdapterClosedBeforeHandshake
           \<and> (case closeReason (ad s') of None \<Rightarrow> True | Some r \<Rightarrow> errors_is err r))"
proof -
  have ready: "fst y \<in> set (handshake_ready ctx (snd y))" if "wait_handshake ctx s = Some y" for y
    using that
  proof (induction ctx s y rule: wait_handshake.raw_induct [rotated 1, consumes 1])
    case (1 f ctx s y)
    show ?case
    proof (cases "handshake_ready ctx s = []")
      case False
      then have "y = pick_ready (handshake_ready ctx s) s" using 1(2) by simp
      then show ?thesis using pick_ready_ok [OF False, of s] by (simp add: handshake_ready_def)
    qed (use 1 in \<open>auto simp: bind_eq_Some_conv\<close>)
  qed
  have self: "errors_is x x" for x by (cases x) auto
  show ?thesis
  proof (cases "handshakeComplete (ad s)")
    case True
    then show ?thesis using assms by (simp add: WaitForHandshake_def)
  next
    case False
    then obtain r where w: "wait_handshake ctx s = Some (r, s')"
      and e: "e = (case r of
                RCh \<Rightarrow> None
              | RDone \<Rightarrow>
                  if handshakeComplete (ad s') then None
                  else (case closeReason (ad s') of
                      Some err \<Rightarrow> Some (Wrapped '': '' [errAdapterClosedBeforeHandshake, err])
                    | None \<Rightarrow> Some errAdapterClosedBeforeHandshake)
              | RTimer \<Rightarrow> map_option snd ctx)"
      using assms by (auto simp: WaitForHandshake_def bind_eq_Some_conv)
    show ?thesis
      using ready [OF w] self
      by (cases r) (auto simp: e handshake_ready_def split: if_splits option.splits)
  qed
qed

text \<open>
  C39. \<open>WaitForHandshake\<close> returns as soon as the handshake completes, the adapter closes or the
  context ends, whatever else happens before: when one of the three has come about by the end of the
  script, it returns.  It returns without error only when the handshake is complete; its error is
  either the context's, after its end, or says that the adapter closed first and wraps the
  recorded reason, and then the handshake was not complete.
\<close>

theorem wait_for_handshake_result:
  assumes "handshakeComplete (ad s) \<or> handshake_ready ctx (play_all s) \<noteq> []"
  shows "\<exists>e s'. WaitForHandshake ctx s = Some (e, s') \<and> (case e of
      None \<Rightarrow> handshakeComplete (ad s')
    | Some err \<Rightarrow>
        (\<exists>t. ctx = Some (t, err) \<and> t \<le> clock s')
        \<or> (doneClosed (ad s') \<and> \<not> handshakeComplete (ad s') \<and> errors_is err errAdapterClosedBeforeHandshake
           \<and> (case closeReason (ad s') of None \<Rightarrow> True | Some r \<Rightarrow> errors_is err r)))"
proof -
  obtain e s' where "WaitForHandshake ctx s = Some (e, s')"
    using assms wait_handshake_returns [of ctx s]
    by (cases "handshakeComplete (ad s)") (auto simp: WaitForHandshake_def)
  then show ?thesis using wait_for_handshake_sound by blast
qed

theorem wait_for_handshake_result_witness:
  "\<exists>err s'. WaitForHandshake None (fresh_sys\<lparr>sched := [[MTick 4], [MClose (Some IoEOF)]]\<rparr>)
      = Some (Some err, s')
    \<and> errors_is err errAdapterClosedBeforeHandshake \<and> doneClosed (ad s')
    \<or> (\<exists>s'. WaitForHandshake None (fresh_sys\<lparr>sched := [[MTick 4], [MClose (Some IoEOF)]]\<rparr>)
      = Some (None, s') \<and> handshakeComplete (ad s'))"
proof -
  let ?s = "fresh_sys\<lparr>sched := [[MTick 4], [MClose (Some IoEOF)]]\<rparr>"
  have d: "doneClosed (Close a)" for a
    by (simp add: Close_def adapter_prims Let_def split: option.split)
  have "doneClosed (ad (play_all ?s))"
    by (simp add: play_all_def do_move_def adapter_move_def d)
  then have "handshake_ready None (play_all ?s) \<noteq> []" by (simp add: handshake_ready_def)
  then obtain e s' where r: "WaitForHandshake None ?s = Some (e, s')" "case e of
      None \<Rightarrow> handshakeComplete (ad s')
    | Some err \<Rightarrow> (\<exists>t. None = Some (t, err) \<and> t \<le> clock s')
        \<or> (doneClosed (ad s') \<and> \<not> handshakeComplete (ad s') \<and> errors_is err errAdapterClosedBeforeHandshake
           \<and> (case closeReason (ad s') of None \<Rightarrow> True | Some r \<Rightarrow> errors_is err r))"
    using wait_for_handshake_result [of ?s None] by blast
  show ?thesis using r by (cases e) auto
qed

section \<open>Resume\<close>

lemma reconnectLoop_round:
  "clock s < dl \<Longrightarrow> \<not> doneClosed (ad s) \<Longrightarrow> reconnectLoop dl (r # rest) s =
    (case try_resume r s of
       (Some c, s1) \<Rightarrow> Some (upd (\<lambda>a. reconnect_done (install_conn (clock s1) c a)) s1)
     | (None, s1) \<Rightarrow>
         (case sleepResumeBackoff (raDelay r) dl s1 of
            None \<Rightarrow> None
          | Some (go_on, s2) \<Rightarrow>
              if go_on then reconnectLoop dl rest s2 else Some (upd resume_exhausted s2)))"
  by (subst reconnectLoop.simps) simp

lemma reconnect_loop_sound:
  assumes "reconnectLoop dl attempts s = Some s'"
  shows "\<not> reconnecting (ad s') \<and> reconnectGate (ad s') = None \<and> resumeLoop (ad s') = RLIdle
    \<and> (doneClosed (ad s') \<or> (\<exists>r \<in> set attempts. \<exists>token c. raResume r = Inr token \<and> raDial r = Inr c
          \<and> raOpen r = None \<and> conn (ad s') = Some c \<and> handshakeComplete (ad s')))"
  using assms
proof (induction dl attempts s rule: reconnectLoop.induct)
  case (1 dl attempts s)
  have rd: "\<not> reconnecting (reconnect_done a) \<and> reconnectGate (reconnect_done a) = None
      \<and> handshakeComplete (reconnect_done a) = handshakeComplete a" for a
    by (simp add: reconnect_done_def close_chan_def Let_def split: option.split)
  have ex: "doneClosed (ad (upd resume_exhausted t)) \<and> \<not> reconnecting (ad (upd resume_exhausted t))
      \<and> reconnectGate (ad (upd resume_exhausted t)) = None \<and> resumeLoop (ad (upd resume_exhausted t)) = RLIdle" for t
    by (simp add: upd_def resume_exhausted_def rd reconnect_done_fields closeWithError_def)
  show ?case
  proof (cases "clock s < dl \<and> \<not> doneClosed (ad s)")
    case False
    then show ?thesis
      using 1(2) ex [of s] rd [of "ad s"]
      by (auto simp: reconnectLoop.simps [of dl attempts] upd_def reconnect_done_fields split: if_splits)
  next
    case True
    then obtain r rest where at: "attempts = r # rest"
      using 1(2) by (cases attempts) (auto simp: reconnectLoop.simps)
    obtain o1 s1 where t: "try_resume r s = (o1, s1)" by fastforce
    show ?thesis
    proof (cases o1)
      case (Some c)
      have ok: "\<exists>token. raResume r = Inr token \<and> raDial r = Inr c \<and> raOpen r = None"
        using t Some by (auto simp: try_resume_def Let_def split: sum.splits option.splits)
      have hc: "conn (install_conn now c a) = Some c \<and> handshakeComplete (install_conn now c a)" for now a
        by (simp add: install_conn_eq markHandshakeComplete_def clearPauseForReconnect_def
            adapter_prims swapConn_def Let_def split: option.split)
      have "s' = upd (\<lambda>a. reconnect_done (install_conn (clock s1) c a)) s1"
        using 1(2) True at t Some by (simp add: reconnectLoop_round)
      then show ?thesis using ok hc rd by (auto simp: at upd_def reconnect_done_fields)
    next
      case None
      obtain go s2 where b: "sleepResumeBackoff (raDelay r) dl s1 = Some (go, s2)"
        using 1(2) True at t None
        by (auto simp: reconnectLoop_round split: option.splits)
      show ?thesis
      proof (cases go)
        case True': True
        then have r2: "reconnectLoop dl rest s2 = Some s'"
          using 1(2) True at t None b by (simp add: reconnectLoop_round)
        show ?thesis
          using 1(1) [OF _ _ at t [symmetric] None b refl True' r2] True at
          by (auto simp: t None)
      next
        case False
        then have "s' = upd resume_exhausted s2"
          using 1(2) True at t None b by (simp add: reconnectLoop_round)
        then show ?thesis using ex [of s2] by simp
      qed
    qed
  qed
qed


definition failing_attempt :: resume_attempt where
  "failing_attempt = \<lparr>raResume = Inl IoEOF, raDial = Inr 9, raOpen = None, raRequestId = ''r'', raDelay = 2\<rparr>"


section \<open>Deadlines and generations against a resume\<close>

lemma do_move_ad:
  "(case m of MTick d \<Rightarrow> False | _ \<Rightarrow> True) \<Longrightarrow> do_move m s = s\<lparr>ad := adapter_move (clock s) m (ad s)\<rparr>"
  by (cases s; cases m) (simp_all add: do_move_def)

text \<open>A write that finds a resume in progress, with its user's deadline passed.\<close>

definition expired_during_failure :: "go_error \<Rightarrow> sys \<Rightarrow> bool" where
  "expired_during_failure e s \<longleftrightarrow> sched s = [[MFail e]] \<and> \<not> doneClosed (ad s) \<and> \<not> reconnecting (ad s)
     \<and> resumeEnabled (ad s) \<and> deadline_passed (clock s) (writeDeadline (ad s))"

lemma startReconnect_fields:
  assumes "\<not> doneClosed a" and "\<not> reconnecting a" and "resumeEnabled a"
  shows "reconnecting (startReconnect now a)" "reconnectGate (startReconnect now a) = Some (nextChan a)"
    "doneClosed (startReconnect now a) = doneClosed a" "writeDeadline (startReconnect now a) = writeDeadline a"
    "closeReason (startReconnect now a) = closeReason a" "conn (startReconnect now a) = conn a"
    "rcv (startReconnect now a) = rcv a" "closedConns (startReconnect now a) = closedConns a"
    "connGen (startReconnect now a) = connGen a" "resumeLoop (startReconnect now a)
      = RLDialing (now + (if resumeBudget a \<le> 0 then defaultResumeBudget else resumeBudget a))"
  using assms by (simp_all add: startReconnect_def make_chan_def Let_def)

lemma expired_writeRaw:
  assumes "expired_during_failure e s"
  shows "\<exists>s'. writeRaw f s = Some (Some TimeoutError, s') \<and> ad s' = startReconnect (clock s) (ad s)"
proof -
  let ?s1 = "(s\<lparr>sched := []\<rparr>)\<lparr>ad := startReconnect (clock s) (ad s)\<rparr>"
  have y: "yield s = ?s1"
    using assms by (simp add: expired_during_failure_def yield_def do_move_def adapter_move_def
        handleTransportFailure_def)
  note f = startReconnect_fields [of "ad s" "clock s"]
  have "waitUntilConnected s = Some (Some TimeoutError, ?s1)"
    using assms f
    by (subst waitUntilConnected.simps)
      (simp add: y expired_during_failure_def waitWithWriteDeadline_def writeDeadlineExceeded_def)
  then show ?thesis by (subst writeRaw.simps) simp
qed

text \<open>
  The user's write deadline can close the whole adapter: when a data message has to be
  acknowledged while a resume is in progress and the deadline set for \<open>Write\<close> has passed, the
  acknowledgement fails with a timeout and the adapter closes, although the resume could still
  succeed; the message is not delivered.
\<close>

lemma ack_timeout_closes:
  assumes "expired_during_failure e s" and "closeReason (ad s) = None"
  shows "\<exists>s'. handleDataMessage us msg s = Some s' \<and> doneClosed (ad s')
    \<and> closeReason (ad s') = Some (Wrapped ''send data ack: '' [TimeoutError])
    \<and> streamOut (rcv (ad s')) = streamOut (rcv (ad s))"
proof -
  have "expired_during_failure e (snd (new_uuid s))"
    using assms(1) by (simp add: expired_during_failure_def)
  then obtain s1 where w: "sendAck us msg s = Some (Some TimeoutError, s1)"
    and a: "ad s1 = startReconnect (clock s) (ad s)"
    using expired_writeRaw by (fastforce simp: sendAck_def split_beta writeMessage_def)
  note f = startReconnect_fields [of "ad s" "clock s"]
  have rc: "streamOut (rcv (Close b)) = streamOut (rcv b)" for b
    by (simp add: Close_def adapter_prims Let_def split: option.split)
  show ?thesis
    using assms f a
    by (intro exI [of _ "close_wrapped ''send data ack: '' TimeoutError s1"])
      (simp add: handleDataMessage_def w close_wrapped_def upd_def closeWithError_def
        setCloseReason_def expired_during_failure_def rc)
qed

definition expired_sys :: sys where
  "expired_sys = fresh_sys\<lparr>clock := seconds 5, sched := [[MFail IoEOF]],
     ad := (run_moves [(0, MWrite 5 [1, 2]), (0, MDeadline (Some 3))] (ad fresh_sys))\<rparr>"

lemma expired_sys_ok: "expired_during_failure IoEOF expired_sys"
  "closeReason (ad expired_sys) = None"
  by (simp_all add: expired_during_failure_def expired_sys_def adapter_move_def other_write_def
      nextSeq_def addOutgoing_step_def insert_outgoing_def SetWriteDeadline_def upd_win_def
      resumeEnabled_def Let_def fresh_sys_simps)

lemma ack_timeout_closes_witness:
  "\<exists>s'. handleDataMessage dec_us (test_msg 0 [1]) expired_sys = Some s' \<and> doneClosed (ad s')"
  using ack_timeout_closes [OF expired_sys_ok] by blast

text \<open>
  The same timeout ends retransmission for good: \<open>resendLoop\<close> takes any error of
  \<open>writeRaw\<close> for a permanent close and returns, while the adapter is open and resuming; unacknowledged
  frames are then never sent again.
\<close>

lemma resend_loop_dies:
  assumes "expired_during_failure e s" and "\<not> paused (ad s)"
    and "resend_window (clock s) (win (ad s)) = (ResendFrame seq frame, w)"
  shows "\<exists>s'. resendLoop_tick s = Some (False, s') \<and> \<not> doneClosed (ad s') \<and> reconnecting (ad s')"
proof -
  let ?s = "upd (upd_win (\<lambda>_. w)) s"
  have x: "expired_during_failure e ?s"
    using assms(1) by (simp add: expired_during_failure_def upd_def upd_win_def resumeEnabled_def)
  obtain s' where r: "writeRaw frame ?s = Some (Some TimeoutError, s')"
    and a: "ad s' = startReconnect (clock ?s) (ad ?s)"
    using expired_writeRaw [OF x] by blast
  have n: "\<not> doneClosed (ad ?s)" "\<not> reconnecting (ad ?s)" "resumeEnabled (ad ?s)"
    using x by (simp_all add: expired_during_failure_def)
  have "resendLoop_tick s = Some (False, s')"
    using assms r by (simp add: resendLoop_tick_def expired_during_failure_def)
  then show ?thesis using startReconnect_fields [OF n] a n by auto
qed

theorem resend_loop_dies_witness:
  "\<exists>s'. resendLoop_tick expired_sys = Some (False, s') \<and> \<not> doneClosed (ad s') \<and> reconnecting (ad s')"
proof -
  have p: "\<not> paused (ad expired_sys)"
    by (simp add: expired_sys_def adapter_move_def other_write_def nextSeq_def addOutgoing_step_def
        SetWriteDeadline_def upd_win_def Let_def fresh_sys_simps)
  have "fst (resend_window (clock expired_sys) (win (ad expired_sys))) = ResendFrame 0 [1, 2]"
    by (simp add: expired_sys_def adapter_move_def other_write_def nextSeq_def addOutgoing_step_def
        insert_outgoing_def SetWriteDeadline_def upd_win_def outgoing_broadcast_def Let_def fresh_sys_simps
        resend_window_def elapsed_over_def resend_rto_def)
  then obtain w where "resend_window (clock expired_sys) (win (ad expired_sys)) = (ResendFrame 0 [1, 2], w)"
    by (metis prod.collapse)
  from resend_loop_dies [OF expired_sys_ok(1) p this] show ?thesis .
qed

text \<open>
  An old WebSocket can start a second resume: \<open>writeRaw\<close> does not compare generations, so a
  write that was in progress on the old WebSocket when a resume replaced it fails, is taken for a
  failure of the transport, and puts the adapter with its new, open WebSocket back into
  reconnecting.
\<close>

lemma stale_write_restarts_resume:
  assumes "sched s = [[], [MFail e, MInstall c2, MResumeDone]]" and "wouts s = []"
    and "conn (ad s) = Some c" and "c2 \<noteq> c" and "c2 \<notin> set (closedConns (ad s))"
    and "\<not> doneClosed (ad s)" and "\<not> reconnecting (ad s)" and "resumeEnabled (ad s)"
  shows "\<exists>s'. writeRaw_attempt frame s = Again s' \<and> reconnecting (ad s') \<and> conn (ad s') = Some c2
    \<and> c2 \<notin> set (closedConns (ad s')) \<and> connGen (ad s') = connGen (ad s) + 1"
proof -
  define s1 where "s1 = s\<lparr>sched := [[MFail e, MInstall c2, MResumeDone]]\<rparr>"
  have y1: "yield s = s1" using assms(1) by (simp add: yield_def s1_def)
  let ?dl = "\<lambda>a. a\<lparr>connWriteDeadline := Some (effectiveWriteDeadline (clock s1) a)\<rparr>"
  define a1 where "a1 = ?dl (ad s)"
  have a1: "\<not> doneClosed a1" "\<not> reconnecting a1" "resumeEnabled a1" "conn a1 = Some c"
    "closedConns a1 = closedConns (ad s)" "connGen a1 = connGen (ad s)"
    using assms by (simp_all add: a1_def resumeEnabled_def)
  define a2 where "a2 = startReconnect (clock s) a1"
  note f2 = startReconnect_fields [OF a1(1-3), of "clock s", folded a2_def]
  define a3 where "a3 = reconnect_done (install_conn (clock s) c2 a2)"
  let ?S = "(upd ?dl s1)\<lparr>sched := []\<rparr>"
  have S: "ad ?S = a1" "clock ?S = clock s" by (simp_all add: upd_def s1_def a1_def)
  have m1: "do_move (MFail e) ?S = ?S\<lparr>ad := a2\<rparr>"
    using a1(1,3) by (simp add: do_move_ad adapter_move_def S handleTransportFailure_def a2_def)
  have m2: "do_move (MInstall c2) (?S\<lparr>ad := a2\<rparr>) = ?S\<lparr>ad := install_conn (clock s) c2 a2\<rparr>"
    using f2 S(2) by (simp add: do_move_ad adapter_move_def)
  have "resumeLoop (install_conn (clock s) c2 a2) = RLInstalled" by (simp add: install_conn_eq)
  then have m3: "do_move MResumeDone (?S\<lparr>ad := install_conn (clock s) c2 a2\<rparr>) = ?S\<lparr>ad := a3\<rparr>"
    by (simp add: do_move_ad adapter_move_def a3_def)
  have "sched (upd ?dl s1) = [[MFail e, MInstall c2, MResumeDone]]" by (simp add: s1_def upd_def)
  then have "yield (upd ?dl s1) = ?S\<lparr>ad := a3\<rparr>" by (simp add: yield_def m1 m2 m3)
  then have y2: "yield (upd ?dl s1) = s1\<lparr>sched := [], ad := a3\<rparr>" by (simp add: upd_def)
  have in3: "conn a3 = Some c2" "set (closedConns a3) = insert c (set (closedConns (ad s)))"
    "connGen a3 = connGen (ad s) + 1" "\<not> doneClosed a3" "\<not> reconnecting a3" "resumeEnabled a3"
    using f2 a1
    by (simp_all add: a3_def install_conn_eq markHandshakeComplete_def clearPauseForReconnect_def
        adapter_prims swapConn_def Let_def reconnect_done_def resumeEnabled_def a2_def
        startReconnect_def split: option.split)
  have w1: "wouts s1 = []" "conn (ad s1) = Some c" "\<not> reconnecting (ad s1)"
    using assms by (simp_all add: s1_def)
  have cw: "conn_write c frame s1 = (Some NetErrClosed, s1\<lparr>sched := [], ad := a3\<rparr>)"
    using in3 w1 by (simp add: conn_write_def y2 write_outcome_def)
  have "handleTransportFailure (clock s1) NetErrClosed a3 = (False, startReconnect (clock s1) a3)"
    using in3 by (simp add: handleTransportFailure_def)
  then have "writeRaw_attempt frame s
      = Again (s1\<lparr>sched := [], ad := startReconnect (clock s1) a3\<rparr>)"
    using w1 cw by (simp add: writeRaw_attempt_def y1)
  then show ?thesis
    using startReconnect_fields [OF in3(4-6), of "clock s1"] in3 assms(4,5) by auto
qed

theorem stale_write_restarts_resume_witness:
  "\<exists>s'. writeRaw_attempt [1] (fresh_sys\<lparr>sched := [[], [MFail IoEOF, MInstall 9, MResumeDone]]\<rparr>) = Again s'
    \<and> reconnecting (ad s') \<and> conn (ad s') = Some 9"
  using stale_write_restarts_resume [of "fresh_sys\<lparr>sched := [[], [MFail IoEOF, MInstall 9, MResumeDone]]\<rparr>"
      IoEOF 9 7 "[1]"]
  by (auto simp: fresh_sys_simps resumeEnabled_def)

end
