(* ===== verification/Link.thy ===== *)
theory Link
  imports SessionSpec
begin

text \<open>
  Two ends of a session: the sending half of an adapter, a network that loses, repeats and reorders
  frames, and the receiving half of its peer.  The peer (the SSM agent, which speaks the same
  protocol) is this code's own receiving side: it acknowledges a data message and delivers it, as
  \<open>handleDataMessage\<close> does.  The moves are the atomic actions of the code; what has been put on the
  wire in either direction may arrive at any time, any number of times, in any order, or never.
\<close>

section \<open>The system\<close>

text \<open>
  \<open>waiting\<close> holds the frames whose writers wait for room in the window, \<open>burned\<close> the numbers of frames
  that \<open>Write\<close> gave up (a deadline, a failed write).  \<open>chunks\<close> records the payloads that were given a
  number, in the order of their numbers; nothing in the code depends on it.
\<close>

record link =
  sndr :: adapter
  chunks :: "bytes list"
  waiting :: "(int \<times> uuid \<times> bytes) list"
  burned :: "int list"
  fwd :: "bytes list"
  peer :: receiver
  bwd :: "bytes list"

text \<open>
  \<open>resend_tick\<close> is \<open>resendLoop_tick\<close> of \<open>Handlers\<close> without the blocking write: the adapter afterwards
  and the frame to put on the wire.
\<close>

definition resend_tick :: "nanos \<Rightarrow> adapter \<Rightarrow> adapter \<times> bytes option" where
  "resend_tick now a =
    (if doneClosed a \<or> reconnecting a then (a, None)
     else if paused a then
       (case pausedSince a of
          Some t \<Rightarrow> if now - t > maxPauseTime then (closeWithError errPausePublicationTimedOut a, None) else (a, None)
        | None \<Rightarrow> (a, None))
     else
       (case resend_window now (win a) of
          (ResendIdle, w) \<Rightarrow> (upd_win (\<lambda>_. w) a, None)
        | (ResendGiveUp seq, w) \<Rightarrow> (closeWithError errResendAttemptsExceeded (upd_win (\<lambda>_. w) a), None)
        | (ResendFrame seq frame, w) \<Rightarrow> (upd_win (\<lambda>_. w) a, Some frame)))"

lemma resend_tick_of_loop:
  "resendLoop_tick s = (case resend_tick (clock s) (ad s) of
     (a, None) \<Rightarrow> Some (\<not> doneClosed a, s\<lparr>ad := a\<rparr>)
   | (a, Some f) \<Rightarrow> do { (e, s1) \<leftarrow> writeRaw f (s\<lparr>ad := a\<rparr>); Some (e = None, s1) })"
proof (cases "doneClosed (ad s) \<or> reconnecting (ad s) \<or> paused (ad s)")
  case True
  then show ?thesis
    by (cases "pausedSince (ad s)") (auto simp: resendLoop_tick_def resend_tick_def upd_def closeWithError_def)
next
  case False
  then show ?thesis
    by (cases "resend_window (clock s) (win (ad s))"; cases "fst (resend_window (clock s) (win (ad s)))")
      (auto simp: resendLoop_tick_def resend_tick_def upd_def closeWithError_def upd_win_def)
qed

text \<open>
  A chunk is given its number and its frame is built; a waiting frame looks at the window; a frame is
  dropped after a failed write; a tick of \<open>resendLoop\<close>; an action of another goroutine that concerns
  neither the stream nor its acknowledgements; a data frame arrives at the peer; an acknowledgement
  arrives.
\<close>

datatype link_move =
    LWrite u64 uuid bytes
  | LAdd nat
  | LDrop int uuid
  | LResend
  | LOther move
  | LArrive bytes u64 uuid
  | LAck bytes

fun outside_stream :: "move \<Rightarrow> bool" where
  "outside_stream MSeq = False"
| "outside_stream (MWrite u f) = False"
| "outside_stream (MAck k u) = False"
| "outside_stream MResend = False"
| "outside_stream m = True"

definition take_number :: "u64 \<Rightarrow> uuid \<Rightarrow> bytes \<Rightarrow> link \<Rightarrow> link" where
  "take_number t mid p l =
    (let (seq, a) = nextSeq (sndr l)
     in l\<lparr>sndr := a, chunks := chunks l @ [p],
          waiting := waiting l @ [(seq, mid, MarshalBinary (NewInputMessage t mid p seq))]\<rparr>)"

definition try_add :: "nanos \<Rightarrow> nat \<Rightarrow> link \<Rightarrow> link" where
  "try_add now i l =
    (case waiting l ! i of (seq, mid, f) \<Rightarrow>
       let others = take i (waiting l) @ drop (Suc i) (waiting l) in
       (case addOutgoing_step now (writeDeadline (sndr l)) seq mid f (win (sndr l)) of
          AddDone w \<Rightarrow> l\<lparr>sndr := (sndr l)\<lparr>win := w\<rparr>, waiting := others, fwd := fwd l @ [f]\<rparr>
        | AddWait \<Rightarrow> l
        | AddFail e \<Rightarrow> l\<lparr>waiting := others, burned := seq # burned l\<rparr>))"

definition peer_receives :: "(uuid \<Rightarrow> string) \<Rightarrow> u64 \<Rightarrow> uuid \<Rightarrow> bytes \<Rightarrow> link \<Rightarrow> link" where
  "peer_receives us t ackid f l =
    (case UnmarshalMessage f of
       Ret msg \<Rightarrow> l\<lparr>peer := deliver msg (peer l),
          bwd := bwd l @ [MarshalBinary (NewAcknowledgeMessage us t ackid (MessageType (Header msg))
                              (MessageId (Header msg)) (SequenceNumber (Header msg)))]\<rparr>
     | _ \<Rightarrow> l)"

definition ack_arrives :: "(string \<Rightarrow> uuid option) \<Rightarrow> nanos \<Rightarrow> bytes \<Rightarrow> link \<Rightarrow> link" where
  "ack_arrives up now f l =
    (case UnmarshalMessage f of
       Ret msg \<Rightarrow> if MessageType (Header msg) = MsgTypeAcknowledge
                  then l\<lparr>sndr := handleAcknowledge up now msg (sndr l)\<rparr> else l
     | _ \<Rightarrow> l)"

definition link_move ::
  "(uuid \<Rightarrow> string) \<Rightarrow> (string \<Rightarrow> uuid option) \<Rightarrow> nanos \<Rightarrow> link_move \<Rightarrow> link \<Rightarrow> link" where
  "link_move us up now m l =
    (case m of
       LWrite t mid p \<Rightarrow>
         if p \<noteq> [] \<and> int (length p) \<le> chunkSize (sndr l) \<and> \<not> paused (sndr l) \<and> seqNum (sndr l) < max_i64
         then take_number t mid p l else l
     | LAdd i \<Rightarrow> if i < length (waiting l) then try_add now i l else l
     | LDrop seq mid \<Rightarrow>
         (case window_unacked (win (sndr l)) seq of
            Some (mid', f) \<Rightarrow>
              if mid' = mid then l\<lparr>sndr := upd_win (dropOutgoing seq mid) (sndr l), burned := seq # burned l\<rparr> else l
          | None \<Rightarrow> l)
     | LResend \<Rightarrow>
         (case resend_tick now (sndr l) of
            (a, None) \<Rightarrow> l\<lparr>sndr := a\<rparr>
          | (a, Some f) \<Rightarrow> l\<lparr>sndr := a, fwd := fwd l @ [f]\<rparr>)
     | LOther act \<Rightarrow> if outside_stream act then l\<lparr>sndr := adapter_move now act (sndr l)\<rparr> else l
     | LArrive f t ackid \<Rightarrow> if f \<in> set (fwd l) then peer_receives us t ackid f l else l
     | LAck f \<Rightarrow> if f \<in> set (bwd l) then ack_arrives up now f l else l)"

definition link_run ::
  "(uuid \<Rightarrow> string) \<Rightarrow> (string \<Rightarrow> uuid option) \<Rightarrow> (nanos \<times> link_move) list \<Rightarrow> link \<Rightarrow> link" where
  "link_run us up ms l = fold (\<lambda>(now, m). link_move us up now m) ms l"

text \<open>A session after its handshake: nothing outstanding, and a peer that expects the next number.\<close>

definition link_start :: "adapter \<Rightarrow> receiver \<Rightarrow> link" where
  "link_start a r = \<lparr>sndr = a, chunks = [], waiting = [], burned = [], fwd = [], peer = r, bwd = []\<rparr>"

section \<open>The abstract stream\<close>

text \<open>
  What a byte stream promises: the bytes written and the bytes read, of which one or the other may be
  extended, the bytes read always the first ones written.
\<close>

record stream =
  written :: bytes
  readable :: bytes

definition stream_step :: "stream \<Rightarrow> stream \<Rightarrow> bool" where
  "stream_step s s' \<longleftrightarrow> prefix (written s) (written s') \<and> prefix (readable s) (readable s')
     \<and> prefix (readable s') (written s')"

text \<open>What the peer read of this session: the stream without what it held at the start.\<close>

definition link_stream :: "bytes \<Rightarrow> link \<Rightarrow> stream" where
  "link_stream out0 l = \<lparr>written = concat (chunks l), readable = drop (length out0) (streamOut (peer l))\<rparr>"

end
