(* ===== verification/LinkSpec.thy ===== *)
theory LinkSpec
  imports Link
begin

text \<open>
  The invariant of two ends of a session and the network between them: what each frame on the wire
  carries, what the peer has received, and that no number is ever forgotten.  Every move keeps it.
\<close>

section \<open>Acknowledgement frames\<close>

text \<open>What the model relies on of the uuid package: \<open>Parse\<close> undoes \<open>String\<close>, a short ASCII text.\<close>

definition uuid_text :: "(uuid \<Rightarrow> string) \<Rightarrow> (string \<Rightarrow> uuid option) \<Rightarrow> bool" where
  "uuid_text us up \<longleftrightarrow> (\<forall>u. up (us u) = Some u \<and> ascii (str_bytes (us u)) \<and> length (us u) \<le> 64)"

lemma length_json_esc: "ascii s \<Longrightarrow> length (json_esc s) \<le> 6 * length s"
proof (induction s)
  case (Cons b s)
  have "length (esc_ascii b) \<le> 6" by (simp add: esc_ascii_def esc_u00_def)
  then show ?case using Cons by (simp add: ascii_def)
qed simp

lemma length_itoa_nat: "0 \<le> n \<Longrightarrow> n < 10 ^ Suc d \<Longrightarrow> length (itoa_nat n) \<le> Suc d"
proof (induction d arbitrary: n)
  case (Suc d)
  have "0 \<le> n div 10" "n div 10 < 10 ^ Suc d" using Suc.prems by auto
  then show ?case using Suc.IH [of "n div 10"] by (simp add: itoa_nat.simps [of n])
qed (simp add: itoa_nat.simps)

lemma length_itoa_i64: "is_i64 n \<Longrightarrow> length (itoa n) \<le> 20"
  using length_itoa_nat [of n 18] length_itoa_nat [of "- n" 18]
  by (auto simp: itoa_def is_i64_def)

lemma length_ack_marshal:
  assumes "ascii (str_bytes (AckMessageType a))" and "ascii (str_bytes (AckMessageId a))"
    and "is_i64 (AckSequenceNumber a)"
  shows "length (ack_marshal a) \<le> 200 + 6 * length (AckMessageType a) + 6 * length (AckMessageId a)"
proof -
  have k: "length (json_quote (str_bytes ''AcknowledgedMessageType'')) = 25"
    "length (json_quote (str_bytes ''AcknowledgedMessageId'')) = 23"
    "length (json_quote (str_bytes ''AcknowledgedMessageSequenceNumber'')) = 35"
    "length (json_quote (str_bytes ''IsSequentialMessage'')) = 21"
    by code_simp+
  show ?thesis
    using length_json_esc [OF assms(1)] length_json_esc [OF assms(2)] length_itoa_i64 [OF assms(3)]
    by (simp add: ack_marshal_def ack_json_def k del: str_bytes_Cons)
      (simp add: json_quote_def del: str_bytes_Cons)
qed

lemma ack_frame_decode:
  assumes "uuid_text us up" and "0 \<le> k" and "k \<le> max_i64"
  shows "\<exists>m. UnmarshalMessage (MarshalBinary
        (NewAcknowledgeMessage us t u MsgTypeInputStreamData mid (word_of_int k))) = Ret m
    \<and> MessageType (Header m) = MsgTypeAcknowledge
    \<and> (\<forall>now a. handleAcknowledge up now m a = resumePublication (upd_win (ackOutgoing now k mid) a))"
proof -
  let ?ack = "\<lparr>AckMessageType = MsgTypeInputStreamData, AckMessageId = us mid,
        AckSequenceNumber = sint (word_of_int k :: u64), AckIsSequential = True\<rparr>"
  have ty: "ascii (str_bytes MsgTypeInputStreamData)" by (simp add: msg_type_defs ascii_def)
  have id: "ascii (str_bytes (us mid))" "length (us mid) \<le> 64" "up (us mid) = Some mid"
    using assms(1) by (auto simp: uuid_text_def)
  have i64: "is_i64 (sint (word_of_int k :: u64))"
    using assms(2,3) by (simp only: sint_word_of_int) (simp add: is_i64_def)
  have "length (ack_marshal ?ack) \<le> 200 + 6 * length MsgTypeInputStreamData + 6 * length (us mid)"
    using length_ack_marshal [of ?ack] ty id(1) i64 by simp
  then have "TotalHeaderLen + length (Payload (NewAcknowledgeMessage us t u MsgTypeInputStreamData mid
      (word_of_int k))) < 2 ^ 32"
    using id(2) by (simp only: length_NewAck) (simp add: TotalHeaderLen_def msg_type_defs)
  from NewAck_decode [OF this] obtain m where m: "UnmarshalMessage (MarshalBinary
        (NewAcknowledgeMessage us t u MsgTypeInputStreamData mid (word_of_int k))) = Ret m"
    "MessageType (Header m) = MsgTypeAcknowledge" "Payload m = ack_marshal ?ack" by blast
  have "ack_unmarshal (Payload m) = Some ?ack"
    unfolding m(3) using ty id(1) i64 by (intro ack_roundtrip) simp_all
  then have "handleAcknowledge up now m a = resumePublication (upd_win (ackOutgoing now k mid) a)" for now a
    using id(3) sint_word_of_int [OF assms(2,3)] by (simp add: handleAcknowledge_def)
  then show ?thesis using m(1,2) by blast
qed

section \<open>Data frames\<close>

text \<open>The chunk with number \<open>k\<close>, and a frame that carries it.\<close>

definition chunk_at :: "int \<Rightarrow> bytes list \<Rightarrow> int \<Rightarrow> bytes" where
  "chunk_at s0 cs k = cs ! nat (k - s0)"

definition carries :: "int \<Rightarrow> bytes list \<Rightarrow> int \<Rightarrow> uuid \<Rightarrow> bytes \<Rightarrow> bool" where
  "carries s0 cs k mid f \<longleftrightarrow> s0 \<le> k \<and> k < s0 + int (length cs)
     \<and> (\<exists>t. f = MarshalBinary (NewInputMessage t mid (chunk_at s0 cs k) k))"

definition acks :: "(uuid \<Rightarrow> string) \<Rightarrow> int \<Rightarrow> uuid \<Rightarrow> bytes \<Rightarrow> bool" where
  "acks us k mid f \<longleftrightarrow>
     (\<exists>t u. f = MarshalBinary (NewAcknowledgeMessage us t u MsgTypeInputStreamData mid (word_of_int k)))"

lemma chunk_at_snoc: "s0 \<le> k \<Longrightarrow> k < s0 + int (length cs) \<Longrightarrow> chunk_at s0 (cs @ [p]) k = chunk_at s0 cs k"
proof -
  assume "s0 \<le> k" "k < s0 + int (length cs)"
  then have "nat (k - s0) < length cs" by linarith
  then show ?thesis by (simp add: chunk_at_def nth_append)
qed

lemma carries_snoc: "carries s0 cs k mid f \<Longrightarrow> carries s0 (cs @ [p]) k mid f"
  by (auto simp: carries_def chunk_at_snoc)

lemma carries_decode:
  assumes "carries s0 cs k mid f" and "0 \<le> s0" and "s0 + int (length cs) \<le> max_i64"
    and "\<forall>p \<in> set cs. length p \<le> 1024"
  shows "\<exists>m. UnmarshalMessage f = Ret m \<and> seq_of m = k \<and> stream_bytes m = chunk_at s0 cs k
    \<and> MessageType (Header m) = MsgTypeInputStreamData \<and> MessageId (Header m) = mid
    \<and> SequenceNumber (Header m) = word_of_int k"
proof -
  let ?p = "chunk_at s0 cs k"
  obtain t where f: "f = MarshalBinary (NewInputMessage t mid ?p k)" and k: "s0 \<le> k" "k < s0 + int (length cs)"
    using assms(1) by (auto simp: carries_def)
  have "?p \<in> set cs" unfolding chunk_at_def using k by (intro nth_mem) linarith
  then have "length ?p \<le> 1024" using assms(4) by blast
  moreover have "sint (word_of_int k :: u64) = k"
    using sint_word_of_int [of k] assms(2,3) k by linarith
  ultimately show ?thesis
    using unmarshal_marshal_eq [of "NewInputMessage t mid ?p k"]
    by (simp add: f NewInputMessage_def TotalHeaderLen_def valid_type_def msg_type_defs is_pad_def
        seq_of_def stream_bytes_def)
qed

section \<open>The invariant of the link\<close>

text \<open>The numbers the peer has received: those it delivered, and those it holds back.\<close>

definition received :: "int \<Rightarrow> receiver \<Rightarrow> int set" where
  "received s0 r = {s0..<expectedSeqNum r} \<union> set (gm_keys (incomingMsgBuffer r))"

lemma reorder_received: "reorder_inv s0 out0 g S r \<Longrightarrow> S \<subseteq> {s0..} \<Longrightarrow> received s0 r = S"
  by (auto simp: reorder_inv_def pending_inv_def received_def)

lemma reorder_cong:
  assumes "reorder_inv s0 out0 g S r" and "\<forall>k \<in> S. g' k = g k"
  shows "reorder_inv s0 out0 g' S r"
proof -
  note i = assms(1) [unfolded reorder_inv_def pending_inv_def]
  have "map g' [s0..expectedSeqNum r - 1] = map g [s0..expectedSeqNum r - 1]"
    using i assms(2) by (intro map_cong) auto
  moreover have "stream_bytes m = g' k" if m: "map_of (incomingMsgBuffer r) k = Some m" for k m
  proof -
    have "k \<in> S" using gm_get_Some_key [OF m] i by blast
    then show ?thesis using i m assms(2) by simp
  qed
  ultimately show ?thesis unfolding reorder_inv_def pending_inv_def using i by metis
qed

abbreviation unacked_at :: "link \<Rightarrow> int \<Rightarrow> (uuid \<times> bytes) option" where
  "unacked_at l \<equiv> window_unacked (win (sndr l))"

definition send_inv :: "int \<Rightarrow> link \<Rightarrow> bool" where
  "send_inv s0 l \<longleftrightarrow> adapter_inv (sndr l) \<and> 0 \<le> s0 \<and> seqNum (sndr l) = s0 + int (length (chunks l))
     \<and> chunkSize (sndr l) \<le> 1024 \<and> 65536 \<le> maxOutgoingUnackedBytes (win (sndr l))
     \<and> (\<forall>p \<in> set (chunks l). length p \<le> 1024)"

definition frames_inv :: "int \<Rightarrow> link \<Rightarrow> bool" where
  "frames_inv s0 l \<longleftrightarrow> (\<forall>f \<in> set (fwd l). \<exists>k mid. carries s0 (chunks l) k mid f)
     \<and> (\<forall>(k, mid, f) \<in> set (waiting l). carries s0 (chunks l) k mid f \<and> unacked_at l k = None)
     \<and> distinct (map fst (waiting l))
     \<and> (\<forall>k mid f. unacked_at l k = Some (mid, f) \<longrightarrow> carries s0 (chunks l) k mid f)"

definition peer_inv :: "(uuid \<Rightarrow> string) \<Rightarrow> int \<Rightarrow> bytes \<Rightarrow> link \<Rightarrow> bool" where
  "peer_inv us s0 out0 l \<longleftrightarrow>
     reorder_inv s0 out0 (chunk_at s0 (chunks l)) (received s0 (peer l)) (peer l)
     \<and> received s0 (peer l) \<subseteq> {s0..<s0 + int (length (chunks l))}
     \<and> (\<forall>f \<in> set (bwd l). \<exists>k \<in> received s0 (peer l). \<exists>mid. acks us k mid f)"

text \<open>No number is forgotten: it is outstanding, waiting, received, or given up by its writer.\<close>

definition held_inv :: "int \<Rightarrow> link \<Rightarrow> bool" where
  "held_inv s0 l \<longleftrightarrow> (\<forall>k \<in> {s0..<s0 + int (length (chunks l))}. unacked_at l k \<noteq> None
     \<or> k \<in> fst ` set (waiting l) \<or> k \<in> received s0 (peer l) \<or> k \<in> set (burned l))"

definition link_inv :: "(uuid \<Rightarrow> string) \<Rightarrow> int \<Rightarrow> bytes \<Rightarrow> link \<Rightarrow> bool" where
  "link_inv us s0 out0 l \<longleftrightarrow> send_inv s0 l \<and> frames_inv s0 l \<and> peer_inv us s0 out0 l \<and> held_inv s0 l"

lemmas link_inv_defs = link_inv_def send_inv_def frames_inv_def peer_inv_def held_inv_def

lemma link_invD:
  assumes "link_inv us s0 out0 l"
  shows "send_inv s0 l" "frames_inv s0 l" "peer_inv us s0 out0 l" "held_inv s0 l"
  using assms by (simp_all add: link_inv_def)

lemma link_inv_bounds:
  assumes "link_inv us s0 out0 l"
  shows "0 \<le> s0" "s0 + int (length (chunks l)) \<le> max_i64" "is_i64 s0"
    "\<forall>k \<in> received s0 (peer l). k < max_i64" "window_inv (win (sndr l))"
  using assms by (auto simp: link_inv_defs adapter_inv_def flow_inv_def is_i64_def)

section \<open>Moves of the sender\<close>

text \<open>
  A change of the sender that keeps the invariant: it takes no number, and removes from the window
  only what was received or what its writer gives up.
\<close>

lemma set_sndr_inv:
  assumes "link_inv us s0 out0 l" and "adapter_inv a" and "seqNum a = seqNum (sndr l)"
    and "later (sndr l) a" and "set (burned l) \<subseteq> set b"
    and "\<forall>k. window_unacked (win a) k = unacked_at l k
      \<or> window_unacked (win a) k = None \<and> k \<in> received s0 (peer l) \<union> set b"
  shows "link_inv us s0 out0 (l\<lparr>sndr := a, burned := b\<rparr>)"
proof -
  have w: "window_unacked (win a) k = Some x \<Longrightarrow> unacked_at l k = Some x" 
    "unacked_at l k = None \<Longrightarrow> window_unacked (win a) k = None"
    "unacked_at l k = Some x \<Longrightarrow> window_unacked (win a) k = Some x \<or> k \<in> received s0 (peer l) \<union> set b"
    for k x using assms(6) by (metis option.distinct(1))+
  have "send_inv s0 (l\<lparr>sndr := a, burned := b\<rparr>)"
    using assms(1-4) by (auto simp: link_inv_def send_inv_def later_def)
  moreover have "frames_inv s0 (l\<lparr>sndr := a, burned := b\<rparr>)"
    unfolding frames_inv_def
  proof (intro conjI)
    show "\<forall>(k, mid, f) \<in> set (waiting (l\<lparr>sndr := a, burned := b\<rparr>)). carries s0 (chunks (l\<lparr>sndr := a, burned := b\<rparr>)) k mid f
      \<and> unacked_at (l\<lparr>sndr := a, burned := b\<rparr>) k = None"
      using assms(1) w(2) unfolding link_inv_def frames_inv_def by auto
    show "\<forall>k mid f. unacked_at (l\<lparr>sndr := a, burned := b\<rparr>) k = Some (mid, f)
      \<longrightarrow> carries s0 (chunks (l\<lparr>sndr := a, burned := b\<rparr>)) k mid f"
      using assms(1) w(1) unfolding link_inv_def frames_inv_def by simp
  qed (use assms(1) in \<open>simp_all add: link_inv_def frames_inv_def\<close>)
  moreover have "held_inv s0 (l\<lparr>sndr := a, burned := b\<rparr>)"
    unfolding held_inv_def
  proof
    fix k assume "k \<in> {s0..<s0 + int (length (chunks (l\<lparr>sndr := a, burned := b\<rparr>)))}"
    then have h: "unacked_at l k \<noteq> None \<or> k \<in> fst ` set (waiting l) \<or> k \<in> received s0 (peer l) \<or> k \<in> set (burned l)"
      using assms(1) by (simp add: link_inv_def held_inv_def)
    then show "unacked_at (l\<lparr>sndr := a, burned := b\<rparr>) k \<noteq> None
        \<or> k \<in> fst ` set (waiting (l\<lparr>sndr := a, burned := b\<rparr>))
        \<or> k \<in> received s0 (peer (l\<lparr>sndr := a, burned := b\<rparr>)) \<or> k \<in> set (burned (l\<lparr>sndr := a, burned := b\<rparr>))"
      using w(3) [of k] assms(5) by (cases "unacked_at l k") auto
  qed
  ultimately show ?thesis using assms(1) by (simp add: link_inv_def peer_inv_def)
qed

lemma set_sndr_inv':
  assumes "link_inv us s0 out0 l" and "adapter_inv a" and "seqNum a = seqNum (sndr l)"
    and "later (sndr l) a" and "window_unacked (win a) = unacked_at l"
  shows "link_inv us s0 out0 (l\<lparr>sndr := a\<rparr>)"
  using set_sndr_inv [OF assms(1-4), of "burned l"] assms(5) by simp

text \<open>The actions of other goroutines neither take numbers nor touch what is outstanding.\<close>

lemma window_ops_unacked:
  "window_unacked (outgoing_broadcast w) = window_unacked w"
  "window_unacked (close_window w) = window_unacked w"
  by (simp_all add: fun_eq_iff window_unacked_def outgoing_broadcast_def close_window_def)

lemma small_ops_stream:
  "win (resumePublication a) = win a" "seqNum (resumePublication a) = seqNum a"
  "win (pausePublication now a) = win a" "seqNum (pausePublication now a) = seqNum a"
  "win (clearPauseForReconnect a) = win a" "seqNum (clearPauseForReconnect a) = seqNum a"
  "win (setCloseReason e a) = win a" "seqNum (setCloseReason e a) = seqNum a"
  "win (swapConn c a) = win a" "seqNum (swapConn c a) = seqNum a"
  "win (ForceCloseTransport a) = win a" "seqNum (ForceCloseTransport a) = seqNum a"
  "win (startReconnect now a) = win a" "seqNum (startReconnect now a) = seqNum a"
  "win (reconnect_done a) = win a" "seqNum (reconnect_done a) = seqNum a"
  "win (close_stream a) = win a" "seqNum (close_stream a) = seqNum a"
  "win (snd (markHandshakeComplete a)) = win a" "seqNum (snd (markHandshakeComplete a)) = seqNum a"
  by (simp_all add: resumePublication_def pausePublication_def clearPauseForReconnect_def
      setCloseReason_def swapConn_def ForceCloseTransport_def startReconnect_def reconnect_done_def
      markHandshakeComplete_def adapter_prims Let_def split: option.split)

lemma Close_stream: "window_unacked (win (Close a)) = window_unacked (win a)" "seqNum (Close a) = seqNum a"
  by (auto simp: Close_def adapter_prims Let_def window_ops_unacked split: option.split)

lemma closeWithError_stream:
  "window_unacked (win (closeWithError e a)) = window_unacked (win a)"
  "seqNum (closeWithError e a) = seqNum a"
  by (simp_all add: closeWithError_def Close_stream small_ops_stream)

lemma install_stream:
  "window_unacked (win (install_conn now c a)) = window_unacked (win a)"
  "seqNum (install_conn now c a) = seqNum a"
  by (simp_all add: install_conn_eq small_ops_stream upd_win_def mark_unacked)

lemmas stream_simps = small_ops_stream Close_stream closeWithError_stream install_stream
  window_ops_unacked

lemma outside_stream_fields:
  "outside_stream m \<Longrightarrow> window_unacked (win (adapter_move now m a)) = window_unacked (win a)
     \<and> seqNum (adapter_move now m a) = seqNum a"
  by (cases m) (auto simp: adapter_move_def stream_simps SetWriteDeadline_def upd_win_def Let_def
      handleTransportFailure_def resume_exhausted_def split: resume_loop.split option.split)

lemma resend_tick_stream:
  assumes "adapter_inv a" and "resend_tick now a = (a', fo)"
  shows "adapter_inv a' \<and> seqNum a' = seqNum a \<and> later a a'
    \<and> window_unacked (win a') = window_unacked (win a)
    \<and> (\<forall>f. fo = Some f \<longrightarrow> (\<exists>k mid. window_unacked (win a) k = Some (mid, f)))"
proof -
  have wi: "window_inv (win a)" by (rule adapter_window_inv [OF assms(1)])
  have ra: "adapter_inv (upd_win (\<lambda>_. snd (resend_window now (win a))) a)"
    using resend_adapter_inv [OF assms(1), of now] by (simp add: upd_win_def)
  have rl: "later a (upd_win (\<lambda>_. snd (resend_window now (win a))) a)"
    using later_win_ops(2) [of a now] by (simp add: upd_win_def)
  have ru: "window_unacked (snd (resend_window now (win a))) = window_unacked (win a)
      \<and> (\<forall>seq f. fst (resend_window now (win a)) = ResendFrame seq f
          \<longrightarrow> (\<exists>mid. window_unacked (win a) seq = Some (mid, f)))"
  proof (cases "outgoing (win a) = []")
    case False
    then obtain om where om: "map_of (outgoing (win a)) (outgoingOldestSeq (win a)) = Some om"
      using window_oldest_get [OF wi] by blast
    show ?thesis
      by (auto simp: resend_window_eq [OF wi om] same_frame_unacked [OF om] window_unacked_def om)
  qed (simp add: resend_window_def)
  obtain act w where r: "resend_window now (win a) = (act, w)" by fastforce
  show ?thesis
  proof (cases "doneClosed a \<or> reconnecting a \<or> paused a")
    case True
    then show ?thesis using assms
      by (auto simp: resend_tick_def closeWithError_adapter_inv stream_simps later_closeWithError
          split: if_splits option.splits)
  next
    case False
    then show ?thesis using assms(2) ra rl ru r
      by (cases act) (auto simp: resend_tick_def closeWithError_adapter_inv stream_simps
          later_trans [OF _ later_closeWithError] upd_win_def)
  qed
qed

section \<open>Moves of the link\<close>

lemma take_number_inv:
  assumes "link_inv us s0 out0 l" and "length p \<le> 1024" and "seqNum (sndr l) < max_i64"
  shows "link_inv us s0 out0 (take_number t mid p l)"
proof -
  let ?q = "seqNum (sndr l)" and ?a = "snd (nextSeq (sndr l))" and ?cs = "chunks l @ [p]"
  let ?f = "MarshalBinary (NewInputMessage t mid p ?q)"
  note b = link_inv_bounds [OF assms(1)]
  note i = link_invD [OF assms(1)]
  note fr = i(2) [unfolded frames_inv_def]
  have q: "?q = s0 + int (length (chunks l))" using i(1) by (simp add: send_inv_def)
  have a: "adapter_inv ?a" "seqNum ?a = ?q + 1" "win ?a = win (sndr l)" "chunkSize ?a = chunkSize (sndr l)"
    using nextSeq_adapter_inv [of "sndr l"] i(1) assms(3) b
    by (auto simp: nextSeq_def to_i64_def adapter_inv_def flow_inv_def send_inv_def)
  have eq: "take_number t mid p l = l\<lparr>sndr := ?a, chunks := ?cs, waiting := waiting l @ [(?q, mid, ?f)]\<rparr>"
    by (simp add: take_number_def nextSeq_def)
  have c: "carries s0 ?cs ?q mid ?f"
    by (auto simp: carries_def chunk_at_def q nth_append)
  have "flow_inv (sndr l)" using i(1) by (simp add: send_inv_def adapter_inv_def)
  then have "\<forall>k \<in> set (gm_keys (outgoing (win (sndr l)))). k < ?q"
    unfolding flow_inv_def by blast
  then have n: "unacked_at l ?q = None" by (auto simp: window_unacked_None)
  have lt: "\<forall>x \<in> set (waiting l). fst x < ?q" using fr q by (fastforce simp: carries_def)
  have "frames_inv s0 (take_number t mid p l)"
    unfolding frames_inv_def eq
  proof (intro conjI)
    let ?l = "l\<lparr>sndr := ?a, chunks := ?cs, waiting := waiting l @ [(?q, mid, ?f)]\<rparr>"
    show "distinct (map fst (waiting ?l))" using fr lt by auto
    show "\<forall>f \<in> set (fwd ?l). \<exists>k mid. carries s0 (chunks ?l) k mid f"
      using fr carries_snoc by simp blast
    show "\<forall>(k, mid, f) \<in> set (waiting ?l). carries s0 (chunks ?l) k mid f \<and> unacked_at ?l k = None"
      using fr carries_snoc c n a(3) by auto
    show "\<forall>k mid f. unacked_at ?l k = Some (mid, f) \<longrightarrow> carries s0 (chunks ?l) k mid f"
      using fr carries_snoc a(3) by simp
  qed
  moreover have "peer_inv us s0 out0 (take_number t mid p l)"
  proof -
    have "\<forall>k \<in> received s0 (peer l). chunk_at s0 ?cs k = chunk_at s0 (chunks l) k"
      using i(3) by (auto intro!: chunk_at_snoc simp: peer_inv_def)
    then have "reorder_inv s0 out0 (chunk_at s0 ?cs) (received s0 (peer l)) (peer l)"
      by (rule reorder_cong [OF i(3) [unfolded peer_inv_def, THEN conjunct1]])
    then show ?thesis using i(3) by (auto simp: eq peer_inv_def)
  qed
  moreover have "held_inv s0 (take_number t mid p l)"
    unfolding held_inv_def
  proof
    fix k assume "k \<in> {s0..<s0 + int (length (chunks (take_number t mid p l)))}"
    then have "k \<in> {s0..<s0 + int (length (chunks l))} \<or> k = ?q" using q by (auto simp: eq)
    then show "unacked_at (take_number t mid p l) k \<noteq> None \<or> k \<in> fst ` set (waiting (take_number t mid p l))
        \<or> k \<in> received s0 (peer (take_number t mid p l)) \<or> k \<in> set (burned (take_number t mid p l))"
      using i(4) [unfolded held_inv_def, rule_format, of k] a(3) by (auto simp: eq)
  qed
  moreover have "send_inv s0 (take_number t mid p l)"
    using i(1) a assms(2) by (auto simp: send_inv_def eq q)
  ultimately show ?thesis by (simp add: link_inv_def)
qed

lemma remove_nth:
  assumes "i < length xs"
  shows "set xs = insert (xs ! i) (set (take i xs @ drop (Suc i) xs))"
    "distinct (map fst xs) \<Longrightarrow> distinct (map fst (take i xs @ drop (Suc i) xs))
       \<and> fst (xs ! i) \<notin> fst ` set (take i xs @ drop (Suc i) xs)"
proof -
  have e: "xs = take i xs @ xs ! i # drop (Suc i) xs" using assms by (rule id_take_nth_drop)
  show "set xs = insert (xs ! i) (set (take i xs @ drop (Suc i) xs))"
    by (subst e) auto
  assume "distinct (map fst xs)"
  then have "distinct (map fst (take i xs @ xs ! i # drop (Suc i) xs))" using e by simp
  then show "distinct (map fst (take i xs @ drop (Suc i) xs))
      \<and> fst (xs ! i) \<notin> fst ` set (take i xs @ drop (Suc i) xs)"
    by auto
qed

lemma try_add_inv:
  assumes "link_inv us s0 out0 l" and "i < length (waiting l)"
  shows "link_inv us s0 out0 (try_add now i l)"
proof -
  obtain q mid f where x: "waiting l ! i = (q, mid, f)" by (cases "waiting l ! i")
  define ys where "ys = take i (waiting l) @ drop (Suc i) (waiting l)"
  note i = link_invD [OF assms(1)]
  note inv = i(2) [unfolded frames_inv_def]
  have ys: "set (waiting l) = insert (q, mid, f) (set ys)" "distinct (map fst ys)" "q \<notin> fst ` set ys"
    using remove_nth [OF assms(2)] inv unfolding ys_def x by auto
  have c: "carries s0 (chunks l) q mid f" "unacked_at l q = None" using inv ys(1) by auto
  have y: "\<forall>(k, mid, f) \<in> set ys. carries s0 (chunks l) k mid f \<and> unacked_at l k = None \<and> k \<noteq> q"
  proof clarify
    fix k m g assume kg: "(k, m, g) \<in> set ys"
    then have "k \<in> fst ` set ys" by force
    then show "carries s0 (chunks l) k m g \<and> unacked_at l k = None \<and> k \<noteq> q"
      using kg ys(1,3) inv by auto
  qed
  show ?thesis
  proof (cases "addOutgoing_step now (writeDeadline (sndr l)) q mid f (win (sndr l))")
    case (AddDone w)
    let ?l = "l\<lparr>sndr := (sndr l)\<lparr>win := w\<rparr>, waiting := ys, fwd := fwd l @ [f]\<rparr>"
    have l: "try_add now i l = ?l" using AddDone by (simp add: try_add_def x ys_def)
    have u: "window_unacked w = (unacked_at l)(q \<mapsto> (mid, f))"
      by (simp add: addOutgoing_fields(1) [OF AddDone] insert_unacked)
    have "0 \<le> q" "q < seqNum (sndr l)" using c(1) i(1) by (auto simp: carries_def send_inv_def)
    then have "adapter_inv ((sndr l)\<lparr>win := w\<rparr>)"
      using add_frame_inv [OF _ _ _ _ AddDone] i(1) c(2) by (simp add: window_unacked_None send_inv_def)
    then have "send_inv s0 ?l"
      using i(1) addOutgoing_fields(2) [OF AddDone] by (simp add: send_inv_def)
    moreover have "frames_inv s0 ?l"
      unfolding frames_inv_def
    proof (intro conjI)
      show "\<forall>(k, mid, f) \<in> set (waiting ?l). carries s0 (chunks ?l) k mid f \<and> unacked_at ?l k = None"
        using y by (auto simp: u)
      show "\<forall>f \<in> set (fwd ?l). \<exists>k mid. carries s0 (chunks ?l) k mid f" using inv c(1) by auto
      show "\<forall>k mid f. unacked_at ?l k = Some (mid, f) \<longrightarrow> carries s0 (chunks ?l) k mid f"
        using inv c(1) by (simp add: u)
    qed (use ys(2) in simp)
    moreover have "held_inv s0 ?l"
      using i(4) ys(1) by (auto simp: u held_inv_def)
    ultimately show ?thesis using i(3) unfolding l by (simp add: link_inv_def peer_inv_def)
  next
    case AddWait
    then show ?thesis using assms(1) by (simp add: try_add_def x)
  next
    case (AddFail e)
    let ?l = "l\<lparr>waiting := ys, burned := q # burned l\<rparr>"
    have l: "try_add now i l = ?l" using AddFail by (simp add: try_add_def x ys_def)
    have "frames_inv s0 ?l"
      unfolding frames_inv_def
    proof (intro conjI)
      show "\<forall>(k, mid, f) \<in> set (waiting ?l). carries s0 (chunks ?l) k mid f \<and> unacked_at ?l k = None"
        using y by auto
    qed (use inv ys(2) in simp_all)
    moreover have "held_inv s0 ?l" using i(4) ys(1) by (auto simp: held_inv_def)
    ultimately show ?thesis using i(1,3) unfolding l by (simp add: link_inv_def peer_inv_def send_inv_def)
  qed
qed

lemma received_deliver:
  assumes "peer_inv us s0 out0 l" and "0 \<le> s0" and "s0 + int (length (chunks l)) \<le> max_i64"
    and "seq_of m \<in> {s0..<s0 + int (length (chunks l))}"
    and "stream_bytes m = chunk_at s0 (chunks l) (seq_of m)"
  shows "received s0 (deliver m (peer l)) = insert (seq_of m) (received s0 (peer l))"
    "reorder_inv s0 out0 (chunk_at s0 (chunks l)) (received s0 (deliver m (peer l))) (deliver m (peer l))"
proof -
  let ?S = "insert (seq_of m) (received s0 (peer l))"
  note i = assms(1) [unfolded peer_inv_def]
  have r: "reorder_inv s0 out0 (chunk_at s0 (chunks l)) ?S (deliver m (peer l))"
    using i assms(2-5) by (intro deliver_inv) (auto simp: is_i64_def)
  have "?S \<subseteq> {s0..}" using i assms(4) by auto
  then show "received s0 (deliver m (peer l)) = ?S" using reorder_received [OF r] by simp
  then show "reorder_inv s0 out0 (chunk_at s0 (chunks l)) (received s0 (deliver m (peer l))) (deliver m (peer l))"
    using r by simp
qed

text \<open>A data frame arrives: its number is received, and an acknowledgement of it is on its way.\<close>

lemma arrive_effect:
  assumes "link_inv us s0 out0 l" and "carries s0 (chunks l) k mid f"
  shows "\<exists>m. peer_receives us t u f l = l\<lparr>peer := deliver m (peer l), bwd := bwd l @
        [MarshalBinary (NewAcknowledgeMessage us t u MsgTypeInputStreamData mid (word_of_int k))]\<rparr>
    \<and> received s0 (deliver m (peer l)) = insert k (received s0 (peer l))
    \<and> link_inv us s0 out0 (peer_receives us t u f l)"
proof -
  note i = link_invD [OF assms(1)] and b = link_inv_bounds [OF assms(1)]
  have k: "k \<in> {s0..<s0 + int (length (chunks l))}" using assms(2) by (simp add: carries_def)
  obtain m where m: "UnmarshalMessage f = Ret m" "seq_of m = k" "stream_bytes m = chunk_at s0 (chunks l) k"
    "MessageType (Header m) = MsgTypeInputStreamData" "MessageId (Header m) = mid"
    "SequenceNumber (Header m) = word_of_int k"
    using carries_decode [OF assms(2) b(1,2)] i(1) by (auto simp: send_inv_def)
  let ?l = "l\<lparr>peer := deliver m (peer l), bwd := bwd l @
        [MarshalBinary (NewAcknowledgeMessage us t u MsgTypeInputStreamData mid (word_of_int k))]\<rparr>"
  have l: "peer_receives us t u f l = ?l" by (simp add: peer_receives_def m)
  have r: "received s0 (deliver m (peer l)) = insert k (received s0 (peer l))"
    "reorder_inv s0 out0 (chunk_at s0 (chunks l)) (received s0 (deliver m (peer l))) (deliver m (peer l))"
    using received_deliver [OF i(3) b(1,2), of m] m(2,3) k by simp_all
  have "acks us k mid (MarshalBinary (NewAcknowledgeMessage us t u MsgTypeInputStreamData mid (word_of_int k)))"
    by (auto simp: acks_def)
  then have "peer_inv us s0 out0 ?l"
    using i(3) r k by (auto simp: peer_inv_def)
  moreover have "held_inv s0 ?l" using i(4) r(1) by (auto simp: held_inv_def)
  ultimately have "link_inv us s0 out0 ?l"
    using i(1,2) by (simp add: link_inv_def send_inv_def frames_inv_def)
  then show ?thesis using l r(1) by metis
qed

text \<open>An acknowledgement arrives: what it names leaves the window, and a pause is lifted.\<close>

lemma ack_effect:
  assumes "uuid_text us up" and "link_inv us s0 out0 l" and "acks us k mid f"
    and k: "k \<in> received s0 (peer l)"
  shows "ack_arrives up now f l
      = l\<lparr>sndr := resumePublication (upd_win (ackOutgoing now k mid) (sndr l))\<rparr>
    \<and> link_inv us s0 out0 (ack_arrives up now f l)"
proof -
  note i = link_invD [OF assms(2)] and b = link_inv_bounds [OF assms(2)]
  have kb: "0 \<le> k" "k \<le> max_i64"
    using i(3) k b(1,2) by (auto simp: peer_inv_def)
  obtain t u where f: "f = MarshalBinary (NewAcknowledgeMessage us t u MsgTypeInputStreamData mid (word_of_int k))"
    using assms(3) by (auto simp: acks_def)
  let ?a = "resumePublication (upd_win (ackOutgoing now k mid) (sndr l))"
  have e: "ack_arrives up now f l = l\<lparr>sndr := ?a\<rparr>"
    using ack_frame_decode [OF assms(1) kb, of t u mid] by (auto simp: f ack_arrives_def)
  have ai: "adapter_inv ?a" using i(1) by (simp add: send_inv_def inv_lemmas)
  have s: "seqNum ?a = seqNum (sndr l)" by (simp add: small_ops_stream upd_win_def)
  have la: "later (sndr l) ?a" by (rule later_trans [OF later_ack later_small(2)])
  have "window_unacked (win ?a) = (if map_option fst (unacked_at l k) = Some mid
      then (unacked_at l)(k := None) else unacked_at l)"
    by (simp add: small_ops_stream upd_win_def ack_unacked [OF b(5)])
  then have "link_inv us s0 out0 (l\<lparr>sndr := ?a, burned := burned l\<rparr>)"
    using k by (intro set_sndr_inv [OF assms(2) ai s la]) auto
  then show ?thesis using e by simp
qed

lemma link_move_inv:
  assumes "uuid_text us up" and "link_inv us s0 out0 l"
  shows "link_inv us s0 out0 (link_move us up now m l)"
proof (cases m)
  case (LWrite t mid p)
  then show ?thesis
    using assms(2) link_invD(1) [OF assms(2)] take_number_inv [OF assms(2)]
    by (auto simp: link_move_def send_inv_def)
next
  case (LAdd i)
  then show ?thesis using assms(2) try_add_inv [OF assms(2)] by (simp add: link_move_def)
next
  case (LDrop seq mid)
  let ?a = "upd_win (dropOutgoing seq mid) (sndr l)"
  have "later (sndr l) ?a"
    by (rule later_upd_win) (simp add: dropOutgoing_def Let_def outgoing_broadcast_def split: option.split)
  then have "link_inv us s0 out0 (l\<lparr>sndr := ?a, burned := seq # burned l\<rparr>)"
    using link_invD(1) [OF assms(2)] drop_unacked [OF link_inv_bounds(5) [OF assms(2)]]
    by (intro set_sndr_inv [OF assms(2)]) (auto simp: upd_win_def send_inv_def inv_lemmas [unfolded upd_win_def])
  then show ?thesis using assms(2) LDrop by (auto simp: link_move_def split: option.split)
next
  case LResend
  obtain a fo where r: "resend_tick now (sndr l) = (a, fo)" by fastforce
  have t: "adapter_inv a \<and> seqNum a = seqNum (sndr l) \<and> later (sndr l) a
    \<and> window_unacked (win a) = unacked_at l
    \<and> (\<forall>f. fo = Some f \<longrightarrow> (\<exists>k mid. unacked_at l k = Some (mid, f)))"
    using resend_tick_stream [OF _ r] link_invD(1) [OF assms(2)] by (simp add: send_inv_def)
  then have s: "link_inv us s0 out0 (l\<lparr>sndr := a\<rparr>)"
    by (intro set_sndr_inv' [OF assms(2)]) simp_all
  show ?thesis
  proof (cases fo)
    case None
    then show ?thesis using s r LResend by (simp add: link_move_def)
  next
    case (Some f)
    then obtain k mid where "unacked_at l k = Some (mid, f)" using t by blast
    then have "carries s0 (chunks l) k mid f"
      using link_invD(2) [OF assms(2)] unfolding frames_inv_def by blast
    then have "link_inv us s0 out0 (l\<lparr>sndr := a, fwd := fwd l @ [f]\<rparr>)"
      using s by (auto simp: link_inv_defs)
    then show ?thesis using Some r LResend by (simp add: link_move_def)
  qed
next
  case (LOther act)
  have "link_inv us s0 out0 (l\<lparr>sndr := adapter_move now act (sndr l)\<rparr>)" if "outside_stream act"
    using outside_stream_fields [OF that] adapter_move_inv later_move link_invD(1) [OF assms(2)]
    by (intro set_sndr_inv' [OF assms(2)]) (auto simp: send_inv_def)
  then show ?thesis using assms(2) LOther by (simp add: link_move_def)
next
  case (LArrive f t u)
  have "link_inv us s0 out0 (peer_receives us t u f l)" if f: "f \<in> set (fwd l)"
  proof -
    obtain k mid where "carries s0 (chunks l) k mid f"
      using f link_invD(2) [OF assms(2)] unfolding frames_inv_def by blast
    then show ?thesis using arrive_effect [OF assms(2)] by blast
  qed
  then show ?thesis using assms(2) LArrive by (simp add: link_move_def)
next
  case (LAck f)
  have "link_inv us s0 out0 (ack_arrives up now f l)" if f: "f \<in> set (bwd l)"
  proof -
    obtain k mid where "k \<in> received s0 (peer l)" "acks us k mid f"
      using f link_invD(3) [OF assms(2)] unfolding peer_inv_def by blast
    then show ?thesis using ack_effect [OF assms(1,2)] by blast
  qed
  then show ?thesis using assms(2) LAck by (simp add: link_move_def)
qed

lemma link_run_simps [simp]:
  "link_run us up [] l = l"
  "link_run us up ((now, m) # ms) l = link_run us up ms (link_move us up now m l)"
  "link_run us up (ms @ ms') l = link_run us up ms' (link_run us up ms l)"
  by (simp_all add: link_run_def)

lemma link_run_inv:
  "uuid_text us up \<Longrightarrow> link_inv us s0 out0 l \<Longrightarrow> link_inv us s0 out0 (link_run us up ms l)"
  by (induction ms arbitrary: l) (auto simp: link_move_inv)

end
