(* ===== verification/LinkLive.thy ===== *)
theory LinkLive
  imports LinkSpec
begin

text \<open>
  The consequences of the link invariant: every move of the two ends and the network between them is
  a step of a byte stream, and from every reachable state of an open session the stream can be drained.
\<close>

section \<open>Refinement\<close>

lemma link_start_inv:
  assumes "adapter_inv a" and "outgoing (win a) = []" and "chunkSize a \<le> 1024"
    and "65536 \<le> maxOutgoingUnackedBytes (win a)" and "fresh_receiver (seqNum a) out0 r"
  shows "link_inv us (seqNum a) out0 (link_start a r)"
proof -
  have r: "received (seqNum a) r = {}" using assms(5) by (simp add: received_def fresh_receiver_def)
  have "0 \<le> seqNum a" using assms(1) by (simp add: adapter_inv_def flow_inv_def)
  then show ?thesis
    using assms fresh_reorder_inv [OF assms(5)]
    by (simp add: link_inv_defs link_start_def r window_unacked_def)
qed

text \<open>The adapters the code can be in, with the limits that their construction enforces.\<close>

lemma reachable_start_inv:
  assumes "a = run_moves pre (initial_adapter pd env wr cid c)" and "outgoing (win a) = []"
    and "fresh_receiver (seqNum a) out0 r"
  shows "link_inv us (seqNum a) out0 (link_start a r)"
proof (rule link_start_inv [OF _ assms(2) _ _ assms(3)])
  let ?i = "initial_adapter pd env wr cid c"
  show "adapter_inv a" unfolding assms(1) by (rule run_moves_inv [OF initial_adapter_inv])
  have "later ?i a" unfolding assms(1) by (rule later_run)
  then show "chunkSize a \<le> 1024" "65536 \<le> maxOutgoingUnackedBytes (win a)"
    using env_ranges by (simp_all add: later_def initial_fields)
qed

lemma link_expected:
  assumes "link_inv us s0 out0 l"
  shows "s0 \<le> expectedSeqNum (peer l)" "expectedSeqNum (peer l) \<le> s0 + int (length (chunks l))"
    "{s0..<expectedSeqNum (peer l)} \<subseteq> received s0 (peer l)" "expectedSeqNum (peer l) \<notin> received s0 (peer l)"
proof -
  let ?e = "expectedSeqNum (peer l)"
  have i: "s0 \<le> ?e" "{s0..<?e} \<subseteq> received s0 (peer l)" "?e \<notin> received s0 (peer l)"
    "received s0 (peer l) \<subseteq> {s0..<s0 + int (length (chunks l))}"
    using link_invD(3) [OF assms] by (auto simp: peer_inv_def reorder_inv_def pending_inv_def)
  then show "s0 \<le> ?e" "{s0..<?e} \<subseteq> received s0 (peer l)" "?e \<notin> received s0 (peer l)" by blast+
  show "?e \<le> s0 + int (length (chunks l))"
  proof (cases "?e = s0")
    case False
    then have "?e - 1 \<in> received s0 (peer l)" using i(1,2) by auto
    then show ?thesis using i(4) by auto
  qed simp
qed

lemma chunks_upto:
  assumes "s0 \<le> e" and "e \<le> s0 + int (length cs)"
  shows "map (chunk_at s0 cs) [s0..e - 1] = take (nat (e - s0)) cs"
proof (rule nth_equalityI)
  fix i assume "i < length (map (chunk_at s0 cs) [s0..e - 1])"
  then have "i < nat (e - s0)" by simp
  then show "map (chunk_at s0 cs) [s0..e - 1] ! i = take (nat (e - s0)) cs ! i"
    by (simp add: nth_upto chunk_at_def)
qed (use assms in auto)

lemma link_readable:
  assumes "link_inv us s0 out0 l"
  shows "streamOut (peer l) = out0 @ concat (take (nat (expectedSeqNum (peer l) - s0)) (chunks l))"
  using link_invD(3) [OF assms] chunks_upto [OF link_expected(1,2) [OF assms]]
  by (simp add: peer_inv_def reorder_inv_def pending_inv_def)

lemma link_move_mono:
  assumes "link_inv us s0 out0 l"
  shows "prefix (chunks l) (chunks (link_move us up now m l))
    \<and> received s0 (peer l) \<subseteq> received s0 (peer (link_move us up now m l))"
proof (cases m)
  case (LArrive f t u)
  show ?thesis
  proof (cases "f \<in> set (fwd l)")
    case True
    then obtain k mid where "carries s0 (chunks l) k mid f"
      using link_invD(2) [OF assms] unfolding frames_inv_def by blast
    from arrive_effect [OF assms this, of t u] show ?thesis using LArrive True
      by (auto simp: link_move_def)
  qed (simp add: LArrive link_move_def)
qed (auto simp: link_move_def take_number_def nextSeq_def try_add_def ack_arrives_def Let_def
    split: prod.split option.split add_result.split outcome.split)

lemma prefix_concat_take: "i \<le> j \<Longrightarrow> prefix cs cs' \<Longrightarrow> j \<le> length cs' \<Longrightarrow> i \<le> length cs \<Longrightarrow>
    prefix (concat (take i cs)) (concat (take j cs'))"
proof -
  assume a: "i \<le> j" "prefix cs cs'" "j \<le> length cs'" "i \<le> length cs"
  have "take i cs = take i cs'" using a(2,4) by (auto simp: prefix_def)
  moreover have "take j cs' = take i cs' @ take (j - i) (drop i cs')"
    using a(1) by (metis le_add_diff_inverse take_add)
  ultimately show ?thesis by simp
qed

lemma link_move_refines:
  assumes "uuid_text us up" and "link_inv us s0 out0 l"
  shows "stream_step (link_stream out0 l) (link_stream out0 (link_move us up now m l))"
proof -
  let ?l = "link_move us up now m l"
  have i': "link_inv us s0 out0 ?l" by (rule link_move_inv [OF assms])
  note mono = link_move_mono [OF assms(2), of up now m]
  note e = link_expected [OF assms(2)] and e' = link_expected [OF i']
  have "expectedSeqNum (peer l) \<le> expectedSeqNum (peer ?l)"
  proof (rule ccontr)
    assume "\<not> ?thesis"
    then have "expectedSeqNum (peer ?l) \<in> received s0 (peer l)" using e(3) e'(1) by auto
    then show False using mono e'(4) by blast
  qed
  then have "prefix (concat (take (nat (expectedSeqNum (peer l) - s0)) (chunks l)))
      (concat (take (nat (expectedSeqNum (peer ?l) - s0)) (chunks ?l)))"
    using e e' mono by (intro prefix_concat_take) auto
  moreover have "prefix (concat (take n (chunks ?l))) (concat (chunks ?l))" for n
    using concat_append [of "take n (chunks ?l)" "drop n (chunks ?l)"] by (simp add: prefix_def)
  moreover have "prefix (concat (chunks l)) (concat (chunks ?l))"
    using mono by (auto simp: prefix_def)
  ultimately show ?thesis
    by (simp add: stream_step_def link_stream_def link_readable [OF assms(2)] link_readable [OF i'])
qed

lemma link_idle_complete:
  assumes "link_inv us s0 out0 l" and "outgoing (win (sndr l)) = []" and "waiting l = []" and "burned l = []"
  shows "streamOut (peer l) = out0 @ concat (chunks l)"
proof -
  have "{s0..<s0 + int (length (chunks l))} \<subseteq> received s0 (peer l)"
    using link_invD(4) [OF assms(1)] assms(2-4) by (auto simp: held_inv_def window_unacked_def)
  then have "expectedSeqNum (peer l) = s0 + int (length (chunks l))"
    using link_expected [OF assms(1)] by (metis atLeastLessThan_iff order_le_less subsetD)
  then show ?thesis using link_readable [OF assms(1)] by simp
qed

section \<open>Draining\<close>

text \<open>
  A sender that can make progress, and its schedule: \<open>calm now\<close> says that no frame has been sent
  again as often as allowed, and that every frame was last sent long enough before \<open>now\<close>.
\<close>

definition able :: "adapter \<Rightarrow> bool" where
  "able a \<longleftrightarrow> \<not> doneClosed a \<and> \<not> reconnecting a \<and> \<not> paused a"

definition calm :: "nanos \<Rightarrow> window \<Rightarrow> bool" where
  "calm now w \<longleftrightarrow> (\<forall>k om. map_of (outgoing w) k = Some om \<longrightarrow> omResendCount om < 60
     \<and> (\<forall>t. omLastSent om = Some t \<longrightarrow> t + maxRetransmissionTimeout < now))"

definition at_time :: "(uuid \<Rightarrow> string) \<Rightarrow> (string \<Rightarrow> uuid option) \<Rightarrow> nanos \<Rightarrow> link_move list \<Rightarrow> link \<Rightarrow> link" where
  "at_time us up now ms l = link_run us up (map (Pair now) ms) l"

lemma at_time_simps [simp]:
  "at_time us up now [] l = l"
  "at_time us up now (m # ms) l = at_time us up now ms (link_move us up now m l)"
  "at_time us up now (ms @ ms') l = at_time us up now ms' (at_time us up now ms l)"
  by (simp_all add: at_time_def)

lemma resumePublication_able: "able a \<Longrightarrow> resumePublication a = a"
  by (simp add: able_def resumePublication_def)

text \<open>A frame on the wire arrives and is acknowledged: it leaves the window.\<close>

lemma deliver_and_ack:
  assumes "uuid_text us up" and "link_inv us s0 out0 l" and "able (sndr l)"
    and "unacked_at l k = Some (mid, f)" and "f \<in> set (fwd l)"
  shows "\<exists>ms. link_inv us s0 out0 (at_time us up now ms l) \<and> able (sndr (at_time us up now ms l))
    \<and> outgoing (win (sndr (at_time us up now ms l))) = gm_del k (outgoing (win (sndr l)))
    \<and> chunks (at_time us up now ms l) = chunks l \<and> waiting (at_time us up now ms l) = waiting l
    \<and> burned (at_time us up now ms l) = burned l"
proof -
  have c: "carries s0 (chunks l) k mid f"
    using link_invD(2) [OF assms(2)] assms(4) unfolding frames_inv_def by blast
  let ?ack = "MarshalBinary (NewAcknowledgeMessage us 0 0 MsgTypeInputStreamData mid (word_of_int k))"
  let ?l1 = "peer_receives us 0 0 f l"
  obtain m where m: "?l1 = l\<lparr>peer := deliver m (peer l), bwd := bwd l @ [?ack]\<rparr>"
    "received s0 (deliver m (peer l)) = insert k (received s0 (peer l))" "link_inv us s0 out0 ?l1"
    using arrive_effect [OF assms(2) c, of 0 0] by blast
  have m1: "link_move us up now (LArrive f 0 0) l = ?l1" using assms(5) by (simp add: link_move_def)
  have a: "acks us k mid ?ack" by (auto simp: acks_def)
  have kr: "k \<in> received s0 (peer ?l1)" using m(1,2) by simp
  let ?a = "resumePublication (upd_win (ackOutgoing now k mid) (sndr l))"
  have l2: "link_move us up now (LAck ?ack) ?l1 = ?l1\<lparr>sndr := ?a\<rparr>"
    "link_inv us s0 out0 (?l1\<lparr>sndr := ?a\<rparr>)"
  proof -
    have sl: "sndr ?l1 = sndr l" by (simp add: m(1))
    have e: "ack_arrives up now ?ack ?l1 = ?l1\<lparr>sndr := ?a\<rparr>"
      "link_inv us s0 out0 (ack_arrives up now ?ack ?l1)"
      using ack_effect [OF assms(1) m(3) a kr, of now] unfolding sl by blast+
    show "link_inv us s0 out0 (?l1\<lparr>sndr := ?a\<rparr>)" using e(2) unfolding e(1) .
    have "?ack \<in> set (bwd ?l1)" by (simp add: m(1))
    then show "link_move us up now (LAck ?ack) ?l1 = ?l1\<lparr>sndr := ?a\<rparr>"
      using e(1) by (simp add: link_move_def)
  qed
  have r: "able (upd_win (ackOutgoing now k mid) (sndr l))"
    using assms(3) by (simp add: able_def upd_win_def)
  then have ae: "?a = upd_win (ackOutgoing now k mid) (sndr l)" by (rule resumePublication_able)
  obtain om where om: "map_of (outgoing (win (sndr l))) k = Some om" "omID om = mid"
    using assms(4) by (auto simp: window_unacked_def)
  have "outgoing (win ?a) = gm_del k (outgoing (win (sndr l)))"
    unfolding ae using om link_inv_bounds(5) [OF assms(2)]
    by (simp add: upd_win_def ackOutgoing_eq removed_def outgoing_broadcast_def)
  then show ?thesis
    using m1 l2 r ae m(1) by (intro exI [of _ "[LArrive f 0 0, LAck ?ack]"]) simp
qed

lemma drain_oldest:
  assumes "uuid_text us up" and "link_inv us s0 out0 l" and "able (sndr l)"
    and "calm now (win (sndr l))" and "outgoing (win (sndr l)) \<noteq> []"
  shows "\<exists>ms k. link_inv us s0 out0 (at_time us up now ms l) \<and> able (sndr (at_time us up now ms l))
    \<and> k \<in> set (gm_keys (outgoing (win (sndr l))))
    \<and> map_of (outgoing (win (sndr (at_time us up now ms l)))) = (map_of (outgoing (win (sndr l))))(k := None)
    \<and> chunks (at_time us up now ms l) = chunks l \<and> waiting (at_time us up now ms l) = waiting l
    \<and> burned (at_time us up now ms l) = burned l"
proof -
  let ?a = "sndr l"
  let ?w = "win ?a"
  let ?k = "outgoingOldestSeq ?w"
  have wi: "window_inv ?w" by (rule link_inv_bounds(5) [OF assms(2)])
  obtain om where om: "map_of (outgoing ?w) ?k = Some om" using window_oldest_get [OF wi assms(5)] by blast
  let ?om = "om\<lparr>omResendCount := omResendCount om + 1, omLastSent := Some now\<rparr>"
  have "rto ?w \<le> maxRetransmissionTimeout" using wi by (simp add: window_inv_def)
  then have "resend_rto ?w om \<le> maxRetransmissionTimeout"
    by (simp add: resend_rto_def Let_def window_consts)
  then have "elapsed_over now (omLastSent om) (resend_rto ?w om)" "\<not> 60 \<le> omResendCount om"
    using assms(4) om by (force simp: elapsed_over_def calm_def split: option.split)+
  then have rw: "resend_window now ?w = (ResendFrame ?k (omData om), ?w\<lparr>outgoing := gm_put ?k ?om (outgoing ?w)\<rparr>)"
    by (simp add: resend_window_eq [OF wi om])
  let ?a1 = "upd_win (\<lambda>_. ?w\<lparr>outgoing := gm_put ?k ?om (outgoing ?w)\<rparr>) ?a"
  let ?l1 = "l\<lparr>sndr := ?a1, fwd := fwd l @ [omData om]\<rparr>"
  have l1: "link_move us up now LResend l = ?l1"
    using assms(3) rw by (simp add: link_move_def resend_tick_def able_def)
  then have i1: "link_inv us s0 out0 ?l1" using link_move_inv [OF assms(1,2), of now LResend] by simp
  have r1: "able (sndr ?l1)" using assms(3) by (simp add: able_def upd_win_def)
  have u1: "unacked_at ?l1 ?k = Some (omID om, omData om)"
    by (simp add: window_unacked_def upd_win_def gm_put_get)
  obtain ms where ms: "link_inv us s0 out0 (at_time us up now ms ?l1) \<and> able (sndr (at_time us up now ms ?l1))
    \<and> outgoing (win (sndr (at_time us up now ms ?l1))) = gm_del ?k (outgoing (win (sndr ?l1)))
    \<and> chunks (at_time us up now ms ?l1) = chunks ?l1 \<and> waiting (at_time us up now ms ?l1) = waiting ?l1
    \<and> burned (at_time us up now ms ?l1) = burned ?l1"
    using deliver_and_ack [OF assms(1) i1 r1 u1, of now] by auto
  have "map_of (gm_del ?k (outgoing (win (sndr ?l1)))) = (map_of (outgoing ?w))(?k := None)"
    by (auto simp: upd_win_def gm_del_get gm_put_get)
  then show ?thesis
    using ms l1 gm_get_Some_key [OF om] by (intro exI [of _ "LResend # ms"] exI [of _ ?k]) simp
qed

lemma calm_mono:
  "calm now w \<Longrightarrow> (\<And>k om. map_of (outgoing w') k = Some om \<Longrightarrow> map_of (outgoing w) k = Some om) \<Longrightarrow> calm now w'"
  unfolding calm_def by blast

lemma gm_keys_dom: "set (gm_keys m) = dom (map_of m)"
  by (rule set_eqI) (metis domIff gm_get_None_iff)

lemma drain_window:
  assumes "uuid_text us up" and "link_inv us s0 out0 l" and "able (sndr l)" and "calm now (win (sndr l))"
  shows "\<exists>ms. link_inv us s0 out0 (at_time us up now ms l) \<and> able (sndr (at_time us up now ms l))
    \<and> outgoing (win (sndr (at_time us up now ms l))) = []
    \<and> chunks (at_time us up now ms l) = chunks l \<and> waiting (at_time us up now ms l) = waiting l
    \<and> burned (at_time us up now ms l) = burned l"
  using assms(2-4)
proof (induction "card (set (gm_keys (outgoing (win (sndr l)))))" arbitrary: l rule: less_induct)
  case less
  show ?case
  proof (cases "outgoing (win (sndr l)) = []")
    case True
    then show ?thesis using less.prems by (intro exI [of _ "[]"]) simp
  next
    case False
    obtain ms k where s: "link_inv us s0 out0 (at_time us up now ms l)" "able (sndr (at_time us up now ms l))"
      "k \<in> set (gm_keys (outgoing (win (sndr l))))"
      "map_of (outgoing (win (sndr (at_time us up now ms l)))) = (map_of (outgoing (win (sndr l))))(k := None)"
      "chunks (at_time us up now ms l) = chunks l" "waiting (at_time us up now ms l) = waiting l"
      "burned (at_time us up now ms l) = burned l"
      using drain_oldest [OF assms(1) less.prems False] by blast
    let ?l = "at_time us up now ms l"
    have "set (gm_keys (outgoing (win (sndr ?l)))) = set (gm_keys (outgoing (win (sndr l)))) - {k}"
      unfolding gm_keys_dom s(4) by auto
    then have lt: "card (set (gm_keys (outgoing (win (sndr ?l))))) < card (set (gm_keys (outgoing (win (sndr l)))))"
      using card_Diff1_less [OF _ s(3)] by simp
    have "calm now (win (sndr ?l))"
      by (rule calm_mono [OF less.prems(3)]) (simp add: s(4) split: if_splits)
    from less.hyps [OF lt s(1,2) this] obtain ms' where "link_inv us s0 out0 (at_time us up now ms' ?l)
      \<and> able (sndr (at_time us up now ms' ?l)) \<and> outgoing (win (sndr (at_time us up now ms' ?l))) = []
      \<and> chunks (at_time us up now ms' ?l) = chunks ?l \<and> waiting (at_time us up now ms' ?l) = waiting ?l
      \<and> burned (at_time us up now ms' ?l) = burned ?l" by blast
    then show ?thesis using s(5-7) by (intro exI [of _ "ms @ ms'"]) simp
  qed
qed

text \<open>With an empty window, a waiting writer gets its frame through.\<close>

lemma length_carried:
  assumes "carries s0 cs k mid f" and "\<forall>p \<in> set cs. length p \<le> 1024"
  shows "length f \<le> 1144"
proof -
  have "nat (k - s0) < length cs" using assms(1) by (auto simp: carries_def)
  then have "length (chunk_at s0 cs k) \<le> 1024" using assms(2) by (simp add: chunk_at_def)
  then show ?thesis using assms(1) by (auto simp: carries_def length_MarshalBinary NewInputMessage_def)
qed

lemma drain_waiting:
  assumes "uuid_text us up"
  shows "link_inv us s0 out0 l \<Longrightarrow> able (sndr l) \<Longrightarrow> outgoing (win (sndr l)) = [] \<Longrightarrow>
    \<exists>ms. link_inv us s0 out0 (at_time us up now ms l) \<and> outgoing (win (sndr (at_time us up now ms l))) = []
    \<and> waiting (at_time us up now ms l) = []
    \<and> chunks (at_time us up now ms l) = chunks l \<and> burned (at_time us up now ms l) = burned l"
proof (induction "waiting l" arbitrary: l)
  case Nil
  then show ?case by (intro exI [of _ "[]"]) simp
next
  case (Cons x xs)
  obtain q mid f where x: "x = (q, mid, f)" by (cases x)
  let ?a = "sndr l"
  have w: "waiting l = x # xs" using Cons.hyps(2) by simp
  have "carries s0 (chunks l) q mid f"
    using link_invD(2) [OF Cons.prems(1)] by (simp add: frames_inv_def w x)
  then have len: "length f \<le> 1144"
    using length_carried link_invD(1) [OF Cons.prems(1)] by (auto simp: send_inv_def)
  have wi: "window_inv (win ?a)" by (rule link_inv_bounds(5) [OF Cons.prems(1)])
  have "outgoingBytes (win ?a) = 0" "\<not> outgoingClosed (win ?a)" "65536 \<le> maxOutgoingUnackedBytes (win ?a)"
    using wi Cons.prems link_invD(1) [OF Cons.prems(1)]
    by (simp_all add: window_inv_def send_inv_def adapter_inv_def life_inv_def able_def gm_sum_def)
  then have add: "addOutgoing_step now (writeDeadline ?a) q mid f (win ?a)
      = AddDone (insert_outgoing now q mid f (win ?a))"
    using len by (simp add: addOutgoing_step_def)
  let ?l = "l\<lparr>sndr := ?a\<lparr>win := insert_outgoing now q mid f (win ?a)\<rparr>, waiting := xs, fwd := fwd l @ [f]\<rparr>"
  have m: "link_move us up now (LAdd 0) l = ?l"
    using add by (simp add: link_move_def w try_add_def x)
  then have i: "link_inv us s0 out0 ?l" using link_move_inv [OF assms Cons.prems(1), of now "LAdd 0"] by simp
  have r: "able (sndr ?l)" using Cons.prems(2) by (simp add: able_def)
  have u: "unacked_at ?l q = Some (mid, f)" by (simp add: insert_unacked)
  obtain ms where ms: "link_inv us s0 out0 (at_time us up now ms ?l)" "able (sndr (at_time us up now ms ?l))"
    "outgoing (win (sndr (at_time us up now ms ?l))) = gm_del q (outgoing (win (sndr ?l)))"
    "chunks (at_time us up now ms ?l) = chunks l" "waiting (at_time us up now ms ?l) = xs"
    "burned (at_time us up now ms ?l) = burned l"
    using deliver_and_ack [OF assms i r u, of now] by auto
  have o: "outgoing (win (sndr (at_time us up now ms ?l))) = []"
    using ms(3) Cons.prems(3) by (simp add: insert_outgoing_def)
  from Cons.hyps(1) [OF ms(5) [symmetric] ms(1,2) o] obtain ms' where
    "link_inv us s0 out0 (at_time us up now ms' (at_time us up now ms ?l))
     \<and> outgoing (win (sndr (at_time us up now ms' (at_time us up now ms ?l)))) = []
     \<and> waiting (at_time us up now ms' (at_time us up now ms ?l)) = []
     \<and> chunks (at_time us up now ms' (at_time us up now ms ?l)) = chunks l
     \<and> burned (at_time us up now ms' (at_time us up now ms ?l)) = burned l" using ms(4,6) by auto
  then show ?case using m by (intro exI [of _ "LAdd 0 # ms @ ms'"]) simp
qed

text \<open>The other goroutines bring the sender back: a resume succeeds, and a pause is lifted.\<close>

definition fresh_counts :: "window \<Rightarrow> bool" where
  "fresh_counts w \<longleftrightarrow> (\<forall>k om. map_of (outgoing w) k = Some om \<longrightarrow> omResendCount om < 60)"

lemma settle_adapter:
  assumes "adapter_inv a" and "\<not> doneClosed a" and "fresh_counts (win a)"
  shows "\<exists>acts. (\<forall>act \<in> set acts. outside_stream act) \<and> able (fold (adapter_move t) acts a)
    \<and> fresh_counts (win (fold (adapter_move t) acts a))"
proof -
  have rp: "able (resumePublication b) \<and> win (resumePublication b) = win b"
    if "\<not> doneClosed b" "\<not> reconnecting b" for b
    using that by (simp add: able_def resumePublication_def close_chan_def Let_def split: option.split)
  have rd: "\<not> reconnecting (reconnect_done b)" "doneClosed (reconnect_done b) = doneClosed b" for b
    by (simp_all add: reconnect_done_def close_chan_def Let_def split: option.split)
  show ?thesis
  proof (cases "resumeLoop a")
    case RLIdle
    then have "\<not> reconnecting a" using assms(1,2) by (simp add: adapter_inv_defs)
    then show ?thesis using rp [of a] assms(2,3) by (intro exI [of _ "[MStart]"]) (simp add: adapter_move_def)
  next
    case RLInstalled
    then show ?thesis using rp [of "reconnect_done a"] rd assms(2,3)
      by (intro exI [of _ "[MResumeDone, MStart]"]) (simp add: adapter_move_def small_ops_stream)
  next
    case (RLDialing dl)
    let ?b = "install_conn t 0 a"
    have b: "resumeLoop ?b = RLInstalled" "doneClosed ?b = doneClosed a"
      "outgoing (win ?b) = outgoing (markOutgoingForRetransmit t (win a))"
      by (simp_all add: install_conn_eq swapConn_def clearPauseForReconnect_def markHandshakeComplete_def
          adapter_prims Let_def split: option.split)
    have "fresh_counts (win ?b)"
      unfolding fresh_counts_def b(3)
      by (auto simp: markOutgoingForRetransmit_def Let_def outgoing_broadcast_def gm_get_map)
    then show ?thesis using rp [of "reconnect_done ?b"] rd assms(2) b(1,2) RLDialing
      by (intro exI [of _ "[MInstall 0, MResumeDone, MStart]"]) (simp add: adapter_move_def small_ops_stream)
  qed
qed

lemma others_run:
  "\<forall>act \<in> set acts. outside_stream act \<Longrightarrow>
    at_time us up t (map LOther acts) l = l\<lparr>sndr := fold (adapter_move t) acts (sndr l)\<rparr>"
  by (induction acts arbitrary: l) (simp_all add: link_move_def)

lemma later_calm: "fresh_counts w \<Longrightarrow> \<exists>now \<ge> t. calm now w"
proof -
  assume c: "fresh_counts w"
  let ?S = "{s. \<exists>k om. map_of (outgoing w) k = Some om \<and> omLastSent om = Some s}"
  have "?S \<subseteq> the ` omLastSent ` ran (map_of (outgoing w))" by (force simp: ran_def)
  then have fin: "finite (insert t ?S)" by (simp add: finite_subset finite_ran finite_dom_map_of)
  have "calm (Max (insert t ?S) + maxRetransmissionTimeout + 1) w"
    unfolding calm_def
  proof (intro allI impI conjI)
    fix k om assume om: "map_of (outgoing w) k = Some om"
    then show "omResendCount om < 60" using c by (simp add: fresh_counts_def)
    fix s assume "omLastSent om = Some s"
    then have "s \<in> insert t ?S" using om by blast
    then have "s \<le> Max (insert t ?S)" by (rule Max_ge [OF fin])
    then show "s + maxRetransmissionTimeout < Max (insert t ?S) + maxRetransmissionTimeout + 1" by simp
  qed
  moreover have "t \<le> Max (insert t ?S) + maxRetransmissionTimeout + 1"
    using Max_ge [OF fin, of t] by (simp add: window_consts)
  ultimately show ?thesis by blast
qed

lemma link_drains:
  assumes "uuid_text us up" and "link_inv us s0 out0 l" and "\<not> doneClosed (sndr l)"
    and "fresh_counts (win (sndr l))" and "burned l = []"
  shows "\<exists>ms. sorted (map fst ms) \<and> (\<forall>(now, m) \<in> set ms. t \<le> now)
    \<and> outgoing (win (sndr (link_run us up ms l))) = [] \<and> waiting (link_run us up ms l) = []
    \<and> chunks (link_run us up ms l) = chunks l
    \<and> streamOut (peer (link_run us up ms l)) = out0 @ concat (chunks l)"
proof -
  have ai: "adapter_inv (sndr l)" using link_invD(1) [OF assms(2)] by (simp add: send_inv_def)
  obtain acts where acts: "\<forall>act \<in> set acts. outside_stream act"
    "able (fold (adapter_move t) acts (sndr l))" "fresh_counts (win (fold (adapter_move t) acts (sndr l)))"
    using settle_adapter [OF ai assms(3,4), of t] by blast
  let ?ms1 = "map (Pair t) (map LOther acts)"
  let ?l1 = "link_run us up ?ms1 l"
  have l1: "?l1 = l\<lparr>sndr := fold (adapter_move t) acts (sndr l)\<rparr>"
    using others_run [OF acts(1), of us up t l] by (simp add: at_time_def)
  have i1: "link_inv us s0 out0 ?l1" by (rule link_run_inv [OF assms(1,2)])
  have r1: "able (sndr ?l1)" "fresh_counts (win (sndr ?l1))" using acts(2,3) unfolding l1 by simp_all
  obtain now where now: "t \<le> now" "calm now (win (sndr ?l1))" using later_calm [OF r1(2)] by blast
  obtain ms2 where ms2: "link_inv us s0 out0 (at_time us up now ms2 ?l1)" "able (sndr (at_time us up now ms2 ?l1))"
    "outgoing (win (sndr (at_time us up now ms2 ?l1))) = []"
    "chunks (at_time us up now ms2 ?l1) = chunks ?l1" "burned (at_time us up now ms2 ?l1) = burned ?l1"
    using drain_window [OF assms(1) i1 r1(1) now(2)] by blast
  obtain ms3 where ms3: "link_inv us s0 out0 (at_time us up now ms3 (at_time us up now ms2 ?l1))"
    "outgoing (win (sndr (at_time us up now ms3 (at_time us up now ms2 ?l1)))) = []"
    "waiting (at_time us up now ms3 (at_time us up now ms2 ?l1)) = []"
    "chunks (at_time us up now ms3 (at_time us up now ms2 ?l1)) = chunks (at_time us up now ms2 ?l1)"
    "burned (at_time us up now ms3 (at_time us up now ms2 ?l1)) = burned (at_time us up now ms2 ?l1)"
    using drain_waiting [OF assms(1) ms2(1-3)] by blast
  let ?ms = "?ms1 @ map (Pair now) (ms2 @ ms3)"
  have run: "link_run us up ?ms l = at_time us up now ms3 (at_time us up now ms2 ?l1)"
    by (simp add: at_time_def)
  have cb: "chunks ?l1 = chunks l" "burned ?l1 = []" using assms(5) unfolding l1 by simp_all
  have "streamOut (peer (link_run us up ?ms l)) = out0 @ concat (chunks (link_run us up ?ms l))"
    unfolding run using ms2(5) ms3(5) cb(2) by (intro link_idle_complete [OF ms3(1-3)]) simp
  moreover have "map fst (map (Pair s) xs) = replicate (length xs) s" for s :: nanos and xs :: "link_move list"
    by (simp add: comp_def map_replicate_const)
  then have "sorted (map fst ?ms)"
    using now(1) by (auto simp: sorted_append set_replicate_conv_if simp del: map_map)
  moreover have "\<forall>(now, m) \<in> set ?ms. t \<le> now" using now(1) by auto
  moreover have "chunks (link_run us up ?ms l) = chunks l" unfolding run using ms2(4) ms3(4) cb(1) by simp
  ultimately show ?thesis
    using ms3(2,3) run by (intro exI [of _ ?ms]) (simp del: link_run_simps)
qed

lemma lose_in_flight: "link_inv us s0 out0 l \<Longrightarrow> link_inv us s0 out0 (l\<lparr>fwd := [], bwd := []\<rparr>)"
  by (simp add: link_inv_def send_inv_def frames_inv_def peer_inv_def held_inv_def)

section \<open>Properties\<close>

text \<open>
  C1. A session is a byte stream.  For every adapter the code can reach with nothing outstanding and
  every receiver that expects its next number, and for every history of writes, window waits, given-up
  frames, retransmissions, transport failures, resumes, pauses, closing, and a network that loses,
  repeats and reorders frames and acknowledgements: what the peer has read is always the beginning of
  what was written, each move extends one or the other and never takes anything back, and once nothing
  waits, nothing is outstanding and no write was given up, all of it has arrived.
\<close>

theorem link_refines_stream:
  fixes pd env wr cid c pre ms us up r
  defines "a \<equiv> run_moves pre (initial_adapter pd env wr cid c)"
  defines "l \<equiv> link_run us up ms (link_start a r)"
  assumes "uuid_text us up" and "outgoing (win a) = []" and "fresh_receiver (seqNum a) out0 r"
  shows "stream_step (link_stream out0 l) (link_stream out0 (link_move us up now m l))
    \<and> streamOut (peer l) = out0 @ readable (link_stream out0 l)
    \<and> (outgoing (win (sndr l)) = [] \<and> waiting l = [] \<and> burned l = []
        \<longrightarrow> readable (link_stream out0 l) = written (link_stream out0 l))"
proof -
  have "a = run_moves pre (initial_adapter pd env wr cid c)" by (simp add: a_def)
  from reachable_start_inv [OF this assms(4,5)]
  have i: "link_inv us (seqNum a) out0 l" unfolding l_def by (rule link_run_inv [OF assms(3)])
  show ?thesis
    using link_move_refines [OF assms(3) i] link_readable [OF i] link_idle_complete [OF i]
    by (auto simp: link_stream_def)
qed


section \<open>A concrete session\<close>

lemma uuid_text_dec: "uuid_text dec_us dec_up"
proof -
  have "length (dec_us u) \<le> 64" for u
  proof -
    have "uint u < 2 ^ 128" using uint_lt2p [of u] by simp
    then have "uint u < 10 ^ Suc 38" by simp
    then have "length (itoa_nat (uint u)) \<le> Suc 38" by (intro length_itoa_nat) simp_all
    then show ?thesis by (simp add: dec_us_def itoa_def)
  qed
  then show ?thesis by (simp add: uuid_text_def dec_up_us ascii_dec_us)
qed

text \<open>An adapter with default settings, and a session of it: two writes, one of them still waiting.\<close>

definition default_env :: adapter_env where
  "default_env = \<lparr>envChunkSize = [], envMaxUnacked = [], envResumeBudget = [], envResume = []\<rparr>"

definition default_adapter :: adapter where
  "default_adapter = initial_adapter (\<lambda>_. None) default_env True ''c'' 7"

definition two_writes :: "(nanos \<times> link_move) list" where
  "two_writes = [(0, LWrite 0 5 [1, 2]), (0, LAdd 0), (1, LWrite 0 6 [3]), (2, LOther (MFail IoEOF)),
     (3, LOther MPause)]"

lemmas default_adapter_simps = default_adapter_def default_env_def initial_adapter_def new_window_def new_receiver_def
  env_max_unacked_def env_chunk_size_def env_resume_budget_def adapter_consts window_consts

lemma two_writes_link:
  fixes us up
  defines "l \<equiv> link_run us up two_writes (link_start default_adapter new_receiver)"
  shows "chunks l = [[1, 2], [3]]" "\<not> doneClosed (sndr l)" "burned l = []" "reconnecting (sndr l)"
    "paused (sndr l)" "fresh_counts (win (sndr l))" "outgoing (win (sndr l)) \<noteq> []"
  by (simp_all add: l_def two_writes_def link_start_def link_move_def take_number_def nextSeq_def
      try_add_def addOutgoing_step_def insert_outgoing_def adapter_move_def handleTransportFailure_def
      startReconnect_def resumeEnabled_def make_chan_def pausePublication_def default_adapter_simps
      Let_def to_i64_def length_MarshalBinary NewInputMessage_def fresh_counts_def)

lemma default_start:
  "run_moves [] (initial_adapter (\<lambda>_. None) default_env True ''c'' 7) = default_adapter"
  "outgoing (win default_adapter) = []" "fresh_receiver (seqNum default_adapter) [] new_receiver"
  by (simp_all add: default_adapter_simps fresh_receiver_def)

theorem link_refines_stream_witness:
  "let l = link_run dec_us dec_up two_writes (link_start default_adapter new_receiver)
   in written (link_stream [] l) = [1, 2, 3]
    \<and> stream_step (link_stream [] l) (link_stream [] (link_move dec_us dec_up 4 (LWrite 0 8 [4]) l))"
  using link_refines_stream [where ms = two_writes and now = 4 and m = "LWrite 0 8 [4]" and pre = "[]" and pd = "\<lambda>_. None" and env = default_env and wr = True
      and cid = "''c''" and c = 7, unfolded default_start(1), OF uuid_text_dec default_start(2,3), THEN conjunct1]
    two_writes_link(1) [of dec_us dec_up]
  unfolding Let_def by (intro conjI) (simp_all add: link_stream_def)


end
