(* ===== verification/AdapterConn.thy ===== *)
theory AdapterConn
  imports AdapterInv
begin

text \<open>
  The adapter as the \<open>net.Conn\<close> that the SSH client uses (\<open>internal/protocol/adapter.go\<close>): reading from
  the pipe between the read loop and the client, deadlines, addresses, and the small functions around
  them.  Writing is in \<open>AdapterIO\<close>.
\<close>

section \<open>The reading end\<close>

text \<open>
  The reader's side of the pipe: how many of the bytes handed to the pipe it has taken, and its
  deadline.  \<open>net.Pipe\<close> has no buffer: what is handed over and not yet taken belongs to a write
  still in progress, and is lost when an end is closed.
\<close>

record conn_view =
  adp :: adapter
  taken :: nat
  readDeadline :: "nanos option"

text \<open>
  \<open>Read\<close> of the pipe with room for \<open>n\<close> bytes: a closed end comes before a passed deadline, and that before
  data.  \<open>None\<close> is a read that waits.
\<close>

definition pipe_read :: "nanos \<Rightarrow> nat \<Rightarrow> conn_view \<Rightarrow> ((bytes \<times> go_error option) \<times> conn_view) option" where
  "pipe_read now n v =
    (let rest = drop (taken v) (streamOut (rcv (adp v))) in
     if doneClosed (adp v) then Some (([], Some IoErrClosedPipe), v)
     else if streamClosed (rcv (adp v)) then Some (([], Some IoEOF), v)
     else if deadline_passed now (readDeadline v) then Some (([], Some (OpError True TimeoutError)), v)
     else if rest = [] then None
     else Some ((take n rest, None), v\<lparr>taken := taken v + length (take n rest)\<rparr>))"

text \<open>\<open>Read\<close>: an error that is a timeout becomes the adapter's own timeout error.\<close>

fun is_net_timeout :: "go_error \<Rightarrow> bool" where
  "is_net_timeout TimeoutError = True"
| "is_net_timeout CtxDeadlineExceeded = True"
| "is_net_timeout (OpError t e) = t"
| "is_net_timeout e = False"

definition Read :: "nanos \<Rightarrow> nat \<Rightarrow> conn_view \<Rightarrow> ((bytes \<times> go_error option) \<times> conn_view) option" where
  "Read now n v =
    (case pipe_read now n v of
       None \<Rightarrow> None
     | Some ((b, e), v1) \<Rightarrow>
         Some ((b, (case e of Some x \<Rightarrow> if is_net_timeout x then Some TimeoutError else Some x | None \<Rightarrow> None)), v1))"

definition SetReadDeadline :: "nanos option \<Rightarrow> conn_view \<Rightarrow> conn_view" where
  "SetReadDeadline t v = v\<lparr>readDeadline := t\<rparr>"

definition Adapter_SetDeadline :: "nanos option \<Rightarrow> conn_view \<Rightarrow> conn_view" where
  "Adapter_SetDeadline t v = (let v1 = SetReadDeadline t v in v1\<lparr>adp := SetWriteDeadline t (adp v1)\<rparr>)"

text \<open>A series of reads while other goroutines change the adapter; a read that would wait reads nothing.\<close>

definition read_round :: "nanos \<times> nat \<times> move \<Rightarrow> bytes \<times> conn_view \<Rightarrow> bytes \<times> conn_view" where
  "read_round r s =
    (case r of (now, n, m) \<Rightarrow>
     (case s of (got, v) \<Rightarrow>
      (let v0 = v\<lparr>adp := adapter_move now m (adp v)\<rparr> in
       case Read now n v0 of
         None \<Rightarrow> (got, v0)
       | Some ((b, e), v1) \<Rightarrow> (got @ b, v1))))"

lemma move_streamOut: "streamOut (rcv (adapter_move now m a)) = streamOut (rcv a)"
proof -
  have close: "streamOut (rcv (Close b)) = streamOut (rcv b)" for b
    by (simp add: Close_def adapter_prims Let_def split: option.split)
  have reason: "rcv (setCloseReason e b) = rcv b" for e b
    by (simp add: setCloseReason_def split: option.split)
  have small: "rcv (resumePublication b) = rcv b" "rcv (pausePublication now b) = rcv b"
    "rcv (clearPauseForReconnect b) = rcv b" "rcv (swapConn c b) = rcv b" "rcv (startReconnect now b) = rcv b"
    "rcv (reconnect_done b) = rcv b" "rcv (ForceCloseTransport b) = rcv b" "rcv (SetWriteDeadline dl b) = rcv b"
    "rcv (snd (markHandshakeComplete b)) = rcv b" "rcv (upd_win f b) = rcv b" "rcv (snd (nextSeq b)) = rcv b" for b c f dl
    by (auto simp: resumePublication_def pausePublication_def clearPauseForReconnect_def swapConn_def
        startReconnect_def reconnect_done_def ForceCloseTransport_def SetWriteDeadline_def
        markHandshakeComplete_def adapter_prims nextSeq_def Let_def split: option.split)
  have stream: "streamOut (rcv (close_stream b)) = streamOut (rcv b)" for b
    by (simp add: close_stream_def upd_rcv_def)
  have other: "rcv (other_write now u f b) = rcv b" for u f b
    by (simp add: other_write_def nextSeq_def split: option.split add_result.split)
  show ?thesis
    by (cases m) (auto simp: adapter_move_def close reason small stream other closeWithError_def
        handleTransportFailure_def install_conn_eq resume_exhausted_def split: resume_loop.split)
qed

text \<open>
  Reading loses and repeats nothing: whatever the sizes of the reads, the deadlines and the actions of
  the other goroutines between them, the bytes read are the next ones of the stream, in order.
\<close>

lemma reads_in_order:
  assumes "fold read_round rs ([], v) = (got, v')" and "taken v \<le> length (streamOut (rcv (adp v)))"
  shows "streamOut (rcv (adp v')) = streamOut (rcv (adp v)) \<and> taken v' = taken v + length got
    \<and> taken v' \<le> length (streamOut (rcv (adp v)))
    \<and> got = take (length got) (drop (taken v) (streamOut (rcv (adp v))))"
proof -
  let ?o = "streamOut (rcv (adp v))"
  define ok where "ok s \<longleftrightarrow> (case s of (g, w) \<Rightarrow> streamOut (rcv (adp w)) = ?o \<and> taken w = taken v + length g
    \<and> taken w \<le> length ?o \<and> g = take (length g) (drop (taken v) ?o))" for s :: "bytes \<times> conn_view"
  have step: "ok (read_round r s)" if "ok s" for r s
  proof -
    obtain now n m g w where rs: "r = (now, n, m)" "s = (g, w)" by (cases r; cases s) auto
    let ?w = "w\<lparr>adp := adapter_move now m (adp w)\<rparr>"
    note k = that [unfolded ok_def rs(2) prod.case]
    have o: "streamOut (rcv (adp ?w)) = ?o" using k by (simp add: move_streamOut)
    have more: "g @ take n (drop (taken w) ?o) = take (length g + n) (drop (taken v) ?o)"
    proof -
      have "drop (taken w) ?o = drop (length g) (drop (taken v) ?o)" using k by (simp add: add.commute)
      then show ?thesis using k take_add [of "length g" n "drop (taken v) ?o"] by metis
    qed
    have "length (take n (drop (taken w) ?o)) \<le> length ?o - taken w" by simp
    then have bound: "taken w + length (take n (drop (taken w) ?o)) \<le> length ?o" using k by linarith
    show ?thesis
      using k o more bound
      by (auto simp: rs read_round_def Read_def pipe_read_def ok_def Let_def move_streamOut min_def)
  qed
  have "ok (fold read_round rs s)" if "ok s" for s
    using that by (induction rs arbitrary: s) (simp_all add: step)
  moreover have "ok ([], v)" using assms(2) by (simp add: ok_def)
  ultimately have "ok (got, v')" using assms(1) by metis
  then show ?thesis by (simp add: ok_def)
qed

section \<open>Accessors and addresses\<close>

definition getConn :: "adapter \<Rightarrow> ws option \<times> nat" where
  "getConn a = (conn a, connGen a)"

text \<open>\<open>local_addr\<close> and \<open>remote_addr\<close> are the WebSocket's own addresses; an empty TCP address prints as \<open>:0\<close>.\<close>

definition LocalAddr :: "(ws \<Rightarrow> string) \<Rightarrow> adapter \<Rightarrow> string" where
  "LocalAddr local_addr a = (case fst (getConn a) of None \<Rightarrow> '':0'' | Some c \<Rightarrow> local_addr c)"

definition RemoteAddr :: "(ws \<Rightarrow> string) \<Rightarrow> adapter \<Rightarrow> string" where
  "RemoteAddr remote_addr a = (case fst (getConn a) of None \<Rightarrow> '':0'' | Some c \<Rightarrow> remote_addr c)"

text \<open>\<open>None\<close> is the zero time: nothing has been received.\<close>

definition LastInbound :: "adapter \<Rightarrow> nanos option" where
  "LastInbound a = (if lastInboundUnixNano a = 0 then None else Some (lastInboundUnixNano a))"

definition CloseReason :: "adapter \<Rightarrow> go_error option" where
  "CloseReason a = closeReason a"

definition Reconnecting :: "adapter \<Rightarrow> bool" where
  "Reconnecting a = reconnecting a"

text \<open>
  \<open>applyAdapterOptions\<close>: options are applied in order (a missing one is skipped), then the budget and the
  switch of the environment.  \<open>WithResume\<close> is the only option there is; its function may itself be nil.
\<close>

definition WithResume :: "bool \<Rightarrow> adapter \<Rightarrow> adapter" where
  "WithResume fn a = a\<lparr>resumeFuncSet := fn\<rparr>"

definition applyAdapterOptions ::
  "(string \<Rightarrow> nanos option) \<Rightarrow> adapter_env \<Rightarrow> (adapter \<Rightarrow> adapter) option list \<Rightarrow> adapter \<Rightarrow> adapter" where
  "applyAdapterOptions parse_duration env opts a =
    (let a1 = fold (\<lambda>opt b. case opt of Some f \<Rightarrow> f b | None \<Rightarrow> b) opts a;
         a2 = a1\<lparr>resumeBudget := env_resume_budget parse_duration (envResumeBudget env)\<rparr>;
         a3 = (if envResume env = ''off'' then a2\<lparr>resumeDisabled := True\<rparr> else a2)
     in if connGen a3 = 0 then a3\<lparr>connGen := 1\<rparr> else a3)"

text \<open>The adapter that \<open>NewAdapter\<close> builds is one these options give.\<close>

lemma options_give_initial:
  "applyAdapterOptions pd env [None, Some (WithResume fn)]
     ((initial_adapter pd env False cid c)\<lparr>connGen := 0, resumeBudget := 0, resumeDisabled := False\<rparr>)
   = initial_adapter pd env fn cid c"
  by (simp add: applyAdapterOptions_def WithResume_def initial_adapter_def Let_def)

section \<open>Pongs\<close>

definition PingInterval :: nanos where
  "PingInterval = seconds 30"

definition pongWait :: nanos where
  "pongWait = 2 * PingInterval + seconds 10"

text \<open>
  The pong handler of WebSocket \<open>c\<close>, installed as generation \<open>gen\<close>: the read deadline it sets, if the
  adapter still uses that WebSocket as that generation.
\<close>

definition pong_handler :: "ws \<Rightarrow> nat \<Rightarrow> nanos \<Rightarrow> adapter \<Rightarrow> nanos option" where
  "pong_handler c gen now a =
    (if connGen a \<noteq> gen \<or> conn a \<noteq> Some c then None else Some (now + pongWait))"

definition installPongHandler :: "nanos \<Rightarrow> nanos" where
  "installPongHandler now = now + pongWait"

text \<open>Once a resume has replaced the WebSocket, its pongs no longer keep it alive.\<close>

lemma stale_pong_ignored:
  "connGen a = gen \<Longrightarrow> pong_handler c gen now (run_moves ms (install_conn t c' a)) = None"
proof -
  assume g: "connGen a = gen"
  have "connGen (install_conn t c' a) = Suc gen"
    using g by (simp add: install_conn_eq swapConn_def clearPauseForReconnect_def markHandshakeComplete_def
        adapter_prims Let_def split: option.split)
  then have "gen < connGen (run_moves ms (install_conn t c' a))"
    using later_run [of "install_conn t c' a" ms] by (simp add: later_def)
  then show ?thesis by (simp add: pong_handler_def)
qed

section \<open>Debug output\<close>

definition printable :: "byte \<Rightarrow> bool" where
  "printable c \<longleftrightarrow> c = 13 \<or> c = 10 \<or> c = 9 \<or> 0x20 \<le> c \<and> c \<le> 0x7E"

text \<open>Payloads are logged as text only when at least nine bytes in ten are printable.\<close>

definition looksMostlyText :: "bytes \<Rightarrow> bool" where
  "looksMostlyText b =
    (if length b = 0 then True else 90 \<le> length (filter printable b) * 100 div length b)"

lemma text_looks_like_text: "list_all printable b \<Longrightarrow> looksMostlyText b"
proof -
  assume "list_all printable b"
  then have "filter printable b = b" by (induction b) auto
  then show ?thesis by (simp add: looksMostlyText_def)
qed

definition minDuration :: "nanos \<Rightarrow> nanos \<Rightarrow> nanos" where
  "minDuration a b = (if a < b then a else b)"

text \<open>\<open>CleanUUID\<close>: the identifier without hyphens.\<close>

definition CleanUUID :: "(uuid \<Rightarrow> string) \<Rightarrow> uuid \<Rightarrow> string" where
  "CleanUUID us u = filter (\<lambda>c. c \<noteq> CHR ''-'') (us u)"

end
