(* ===== verification/CloseSpec.thy ===== *)
theory CloseSpec
  imports WriteSpec
begin

text \<open>
  Closing the adapter ends what waits on it: a \<open>Write\<close> during which the adapter is closed returns,
  whatever it waits for (publication, the transport, room in the window) and however often it
  goes round its loops.
\<close>

section \<open>A close ahead\<close>

text \<open>The adapter is closed, or some batch of the script closes it.\<close>

definition closing :: "sys \<Rightarrow> bool" where
  "closing s \<longleftrightarrow> doneClosed (ad s) \<or> (\<exists>e. MClose e \<in> set (concat (sched s)))"

definition shrink_rel :: "sys \<Rightarrow> sys \<Rightarrow> bool" where
  "shrink_rel s s' \<longleftrightarrow> (doneClosed (ad s) \<longrightarrow> doneClosed (ad s')) \<and> (closing s \<longrightarrow> closing s')
     \<and> length (sched s') \<le> length (sched s)"

lemma later_done: "later a b \<Longrightarrow> doneClosed a \<Longrightarrow> doneClosed b"
  by (simp add: later_def)

lemma moves_done:
  "doneClosed (ad s) \<or> MClose e \<in> set ms \<Longrightarrow> doneClosed (ad (fold do_move ms s))"
proof (induction ms arbitrary: s)
  case (Cons m ms)
  have "doneClosed (ad s) \<Longrightarrow> doneClosed (ad (do_move m s))"
    using later_done [OF later_move, of "ad s" "clock s" m] by (simp add: do_move_def)
  moreover have "doneClosed (ad (do_move (MClose e) s))"
    by (simp add: do_move_def adapter_move_def)
  ultimately show ?case using Cons by auto
qed simp

lemma sched_batch: "sched (fold do_move ms s) = sched s"
  by (induction ms arbitrary: s) (simp_all add: do_move_def)

lemma closing_same: "doneClosed (ad s') = doneClosed (ad s) \<Longrightarrow> sched s' = sched s \<Longrightarrow> shrink_rel s s'"
  by (simp add: shrink_rel_def closing_def)

interpretation cr: io_rel shrink_rel
proof unfold_locales
  show "shrink_rel s (fold do_move ms (s\<lparr>sched := rest\<rparr>))" if "sched s = ms # rest" for s ms rest
  proof -
    have "doneClosed (ad (fold do_move ms (s\<lparr>sched := rest\<rparr>)))" if "doneClosed (ad s) \<or> MClose e \<in> set ms" for e
      using moves_done [of "s\<lparr>sched := rest\<rparr>" e ms] that by simp
    then show ?thesis using that by (auto simp: shrink_rel_def closing_def sched_batch)
  qed
  show "shrink_rel s (s\<lparr>ad := snd (handleTransportFailure (clock s) e (ad s))\<rparr>)" for s e
    using later_done [OF later_failure, of "ad s" "clock s" e] by (simp add: shrink_rel_def closing_def)
qed (auto simp: shrink_rel_def closing_def upd_def upd_win_def)

lemma closing_done: "closing s \<Longrightarrow> sched s = [] \<Longrightarrow> doneClosed (ad s)"
  by (simp add: closing_def)

lemma closing_block:
  assumes "closing s" "\<not> doneClosed (ad s)"
  obtains s1 where "block s = Some s1" "closing s1" "length (sched s1) < length (sched s)"
proof -
  obtain ms rest where sch: "sched s = ms # rest"
    using assms closing_done by (cases "sched s") auto
  then have b: "block s = Some (fold do_move ms (s\<lparr>sched := rest\<rparr>))" by (simp add: block_def)
  moreover have "closing (fold do_move ms (s\<lparr>sched := rest\<rparr>))"
    using cr.block_rel [OF b] assms(1) by (simp add: shrink_rel_def)
  ultimately show ?thesis using that sch by (simp add: sched_batch)
qed

lemma yield_shorter: "sched s \<noteq> [] \<Longrightarrow> length (sched (yield s)) < length (sched s)"
  by (cases "sched s") (simp_all add: yield_def sched_batch)

lemma closing_yield: "closing s \<Longrightarrow> closing (yield s)"
  using cr.yield_rel [of s] by (simp add: shrink_rel_def)

section \<open>The waits\<close>

lemma select_returns: "closing s \<Longrightarrow> \<exists>y. wait_select ch tm s = Some y"
proof (induction "length (sched s)" arbitrary: s rule: less_induct)
  case less
  show ?case
  proof (cases "ready_cases ch tm s = []")
    case True
    then have "\<not> doneClosed (ad s)" by (simp add: ready_cases_def split: if_splits)
    then obtain s1 where "block s = Some s1" "closing s1" "length (sched s1) < length (sched s)"
      using closing_block less.prems by blast
    then show ?thesis using less.hyps [of s1] True by (subst wait_select.simps) auto
  qed (subst wait_select.simps, simp)
qed

lemma gate_returns:
  assumes "closing s"
  shows "\<exists>e s1. (case ch of None \<Rightarrow> sleepWithWriteDeadline d s | Some g \<Rightarrow> waitWithWriteDeadline g s) = Some (e, s1)
    \<and> closing s1 \<and> length (sched s1) \<le> length (sched s)"
proof -
  have s: "\<exists>e s1. sleepWithWriteDeadline d s = Some (e, s1)"
    using select_returns [OF assms] by (auto simp: sleepWithWriteDeadline_def Let_def)
      (metis (no_types, lifting) bind.bind_lunit case_prod_conv surj_pair)+
  have w: "\<exists>e s1. waitWithWriteDeadline g s = Some (e, s1)" for g
    using select_returns [OF assms] by (auto simp: waitWithWriteDeadline_def Let_def)
      (metis (no_types, lifting) bind.bind_lunit case_prod_conv surj_pair)+
  have "\<exists>e s1. (case ch of None \<Rightarrow> sleepWithWriteDeadline d s | Some g \<Rightarrow> waitWithWriteDeadline g s) = Some (e, s1)"
    using s w by (simp split: option.split)
  then obtain e s1 where r: "(case ch of None \<Rightarrow> sleepWithWriteDeadline d s | Some g \<Rightarrow> waitWithWriteDeadline g s) = Some (e, s1)"
    by blast
  then have "shrink_rel s s1"
    by (cases ch) (auto dest: cr.sleepWithWriteDeadline_rel cr.waitWithWriteDeadline_rel)
  then show ?thesis using r assms by (auto simp: shrink_rel_def)
qed

text \<open>\<open>waitUntilConnected\<close> returns; when nothing else happens any more it returns an error.\<close>

lemma connected_returns:
  "closing s \<Longrightarrow> \<exists>e s1. waitUntilConnected s = Some (e, s1) \<and> closing s1
     \<and> length (sched s1) \<le> length (sched s) \<and> (if sched s = [] then e \<noteq> None else length (sched s1) < length (sched s))"
proof (induction "length (sched s)" arbitrary: s rule: less_induct)
  case less
  show ?case
  proof (cases "sched s = []")
    case True
    then have "yield s = s" "doneClosed (ad s)"
      using less.prems closing_done by (simp_all add: yield_def)
    then show ?thesis using True less.prems by (subst waitUntilConnected.simps) simp
  next
    case False
    note y = yield_shorter [OF False] closing_yield [OF less.prems]
    show ?thesis
    proof (cases "\<not> doneClosed (ad (yield s)) \<and> reconnecting (ad (yield s))")
      case True
      obtain e s1 where w: "(case reconnectGate (ad (yield s)) of None \<Rightarrow> sleepWithWriteDeadline (millis 10) (yield s)
          | Some g \<Rightarrow> waitWithWriteDeadline g (yield s)) = Some (e, s1)"
        and s1: "closing s1" "length (sched s1) \<le> length (sched (yield s))"
        using gate_returns [OF y(2)] by blast
      have "length (sched s1) < length (sched s)" using y(1) s1(2) by simp
      from less.hyps [OF this s1(1)] show ?thesis
        using w s1 y False True \<open>length (sched s1) < length (sched s)\<close>
        by (subst waitUntilConnected.simps) (cases e; auto simp: Let_def split: if_splits)
    qed (use y False in \<open>subst waitUntilConnected.simps, auto simp: Let_def\<close>)
  qed
qed

lemma writeRaw_returns: "closing s \<Longrightarrow> \<exists>e s1. writeRaw frame s = Some (e, s1)"
proof (induction "length (sched s)" arbitrary: s rule: less_induct)
  case less
  obtain e s1 where w: "waitUntilConnected s = Some (e, s1)" "closing s1" "length (sched s1) \<le> length (sched s)"
    "if sched s = [] then e \<noteq> None else length (sched s1) < length (sched s)"
    using connected_returns [OF less.prems] by blast
  show ?case
  proof (cases e)
    case None
    have att: "shrink_rel s1 (case writeRaw_attempt frame s1 of Returned e s2 \<Rightarrow> s2 | Again s2 \<Rightarrow> s2)"
      by (rule cr.writeRaw_attempt_rel)
    show ?thesis
    proof (cases "writeRaw_attempt frame s1")
      case (Again s2)
      then have "closing s2" "length (sched s2) < length (sched s)"
        using att w(2,3,4) None by (auto simp: shrink_rel_def split: if_splits)
      then show ?thesis using less.hyps [of s2] w(1) None Again by (subst writeRaw.simps) simp
    qed (use w None in \<open>subst writeRaw.simps, simp\<close>)
  qed (use w in \<open>subst writeRaw.simps, simp\<close>)
qed

text \<open>On a closed adapter the wait for publication does not take the paused branch twice.\<close>

text \<open>On a closed adapter, with nobody left to act, a wait for an open channel fails.\<close>

lemma closed_wait_fails:
  assumes "doneClosed (ad s)" and "sched s = []" and "ch \<notin> set (closedChans (ad s))"
    and w: "waitWithWriteDeadline ch s = Some (e, s1)"
  shows "e \<noteq> None"
proof (cases "writeDeadlineExceeded (clock s) (ad s)")
  case False
  then obtain tm r where ws: "wait_select (Some ch) tm s = Some (r, s1)"
    and e: "e = (case r of RCh \<Rightarrow> None | RDone \<Rightarrow> Some IoErrClosedPipe | RTimer \<Rightarrow> Some TimeoutError)"
    using w by (auto simp: waitWithWriteDeadline_def Let_def bind_eq_Some_conv)
  have ne: "ready_cases (Some ch) tm s \<noteq> []" using assms(1) by (simp add: ready_cases_def)
  then have "(r, s1) = pick_ready (ready_cases (Some ch) tm s) s"
    using ws assms(2) by (subst (asm) wait_select.simps) (simp add: yield_def)
  then have "r = fst (pick_ready (ready_cases (Some ch) tm s) s)" by (metis fst_conv)
  then have "r \<in> set (ready_cases (Some ch) tm s)" using ne by (simp add: pick_ready_def split: list.split)
  then have "r \<noteq> RCh" using assms(3) by (auto simp: ready_cases_def split: if_splits)
  then show ?thesis using e by (cases r) auto
qed (use w in \<open>auto simp: waitWithWriteDeadline_def\<close>)

lemma publication_returns:
  "closing s \<Longrightarrow> adapter_inv (ad s) \<Longrightarrow> num_room k s \<Longrightarrow> \<exists>e s1. waitForPublication s = Some (e, s1)"
proof (induction "length (sched s)" arbitrary: s rule: less_induct)
  case less
  note y = closing_yield [OF less.prems(1)]
  have si: "sys_inv k s" using less.prems by (simp add: sys_inv_def)
  then have iy: "sys_inv k (yield s)" using kr.yield_rel [of k 0 s] by (simp add: keep_rel_def)
  show ?case
  proof (cases "paused (ad (yield s))")
    case True
    obtain e s1 where w: "(case pauseCh (ad (yield s)) of None \<Rightarrow> sleepWithWriteDeadline (millis 10) (yield s)
        | Some g \<Rightarrow> waitWithWriteDeadline g (yield s)) = Some (e, s1)"
      and s1: "closing s1" "length (sched s1) \<le> length (sched (yield s))"
      using gate_returns [OF y] by blast
    have "keep_rel k 0 (yield s) s1"
      using w by (auto split: option.splits dest: kr.sleepWithWriteDeadline_rel kr.waitWithWriteDeadline_rel)
    then have i1: "sys_inv k s1" using iy by (simp add: keep_rel_def)
    have "\<exists>e s2. waitForPublication s1 = Some (e, s2)" if "e = None"
    proof (cases "sched s = []")
      case False
      then have "length (sched s1) < length (sched s)" using s1(2) yield_shorter [OF False] by simp
      then show ?thesis using less.hyps [of s1] s1(1) i1 by (simp add: sys_inv_def)
    next
      case nil: True
      then have ys: "yield s = s" "doneClosed (ad s)"
        using less.prems(1) closing_done by (simp_all add: yield_def)
      obtain ch where ch: "pauseCh (ad s) = Some ch" "ch \<notin> set (closedChans (ad s))"
        using True si ys(1) by (auto simp: sys_inv_def adapter_inv_defs)
      then have "waitWithWriteDeadline ch s = Some (e, s1)" using w ys(1) by simp
      from closed_wait_fails [OF ys(2) nil ch(2) this] show ?thesis using that by simp
    qed
    then show ?thesis using w True by (subst waitForPublication.simps) (cases e; simp add: Let_def)
  next
    case False
    then show ?thesis by (subst waitForPublication.simps) (simp add: Let_def)
  qed
qed

section \<open>Room in the window\<close>

text \<open>The broadcasts are counted up, and a close broadcasts.\<close>

definition stir :: "adapter \<Rightarrow> adapter \<Rightarrow> bool" where
  "stir a b \<longleftrightarrow> broadcasts (win a) \<le> broadcasts (win b)
     \<and> (\<not> doneClosed a \<and> doneClosed b \<longrightarrow> broadcasts (win a) < broadcasts (win b))"

lemma stir_trans: "stir a b \<Longrightarrow> stir b c \<Longrightarrow> stir a c"
  unfolding stir_def by auto

lemma stir_same: "broadcasts (win a) \<le> broadcasts (win b) \<Longrightarrow> doneClosed b = doneClosed a \<Longrightarrow> stir a b"
  by (simp add: stir_def)

lemma bc_window [simp]:
  "broadcasts (observe_rtt now om w) = broadcasts w"
  "broadcasts w \<le> broadcasts (ackOutgoing now seq mid w)"
  "broadcasts (snd (resend_window now w)) = broadcasts w"
  "broadcasts (markOutgoingForRetransmit now w) = Suc (broadcasts w)"
  "broadcasts (close_window w) = Suc (broadcasts w)"
  "broadcasts (outgoing_broadcast w) = Suc (broadcasts w)"
  by (simp_all add: observe_rtt_def ackOutgoing_def resend_window_def markOutgoingForRetransmit_def
      close_window_def outgoing_broadcast_def Let_def split: option.split)

lemma bc_AddDone: "addOutgoing_step now dl seq mid frame w = AddDone w' \<Longrightarrow> broadcasts w' = broadcasts w"
  by (auto simp: addOutgoing_step_def insert_outgoing_def split: if_splits)

lemma stir_small:
  "stir a (resumePublication a)" "stir a (pausePublication now a)" "stir a (clearPauseForReconnect a)"
  "stir a (setCloseReason e a)" "stir a (SetWriteDeadline dl a)" "stir a (swapConn c a)"
  "stir a (ForceCloseTransport a)" "stir a (startReconnect now a)" "stir a (reconnect_done a)"
  "stir a (snd (markHandshakeComplete a))" "stir a (close_stream a)" "stir a (snd (nextSeq a))"
  by (rule stir_same; simp add: resumePublication_def pausePublication_def clearPauseForReconnect_def
      setCloseReason_def SetWriteDeadline_def swapConn_def ForceCloseTransport_def nextSeq_def
      startReconnect_def reconnect_done_def markHandshakeComplete_def adapter_prims upd_win_def Let_def
      split: option.split)+

lemma stir_Close: "stir a (Close a)"
  by (simp add: stir_def Close_def adapter_prims Let_def split: option.split)

lemma stir_closeWithError: "stir a (closeWithError e a)"
  unfolding closeWithError_def by (rule stir_trans [OF stir_small(4) stir_Close])

lemma stir_win: "broadcasts (win a) \<le> broadcasts (f (win a)) \<Longrightarrow> stir a (upd_win f a)"
  by (rule stir_same) (simp_all add: upd_win_def)

lemma stir_failure: "stir a (snd (handleTransportFailure now e a))"
  using stir_trans [OF stir_small(11) stir_closeWithError] stir_small(8) [of a now] stir_same [of a a]
  by (simp add: handleTransportFailure_def)

lemma stir_exhausted: "stir a (resume_exhausted a)"
  unfolding resume_exhausted_def
  by (rule stir_trans [OF stir_trans [OF stir_small(11) stir_closeWithError] stir_small(9)])

lemma stir_install: "stir a (install_conn now c a)"
proof -
  let ?w = "upd_win (markOutgoingForRetransmit now) (swapConn c a)"
  have "stir (swapConn c a) ?w" by (rule stir_win) simp
  from stir_trans [OF stir_small(6) this] have "stir a ?w" .
  from stir_trans [OF this stir_trans [OF stir_small(3) stir_small(10)]]
  have "stir a (snd (markHandshakeComplete (clearPauseForReconnect ?w)))" .
  then show ?thesis by (simp add: install_conn_eq stir_def)
qed

lemma stir_other_write: "stir a (other_write now uid frame a)"
proof -
  have "stir a ((snd (nextSeq a))\<lparr>win := w, sent := l\<rparr>)"
    if "addOutgoing_step now dl seq uid frame (win (snd (nextSeq a))) = AddDone w" for dl seq w l
    using that bc_AddDone stir_small(12) [of a] by (simp add: stir_def nextSeq_def)
  then show ?thesis
    using stir_small(12) [of a] by (auto simp: other_write_def split_beta split: option.split add_result.split)
qed

lemma stir_move: "stir a (adapter_move now m a)"
  using stir_same [of a a] stir_small [of a] stir_Close stir_other_write stir_failure stir_exhausted stir_install
    stir_trans [OF stir_small(4) stir_Close] stir_trans [OF stir_win stir_small(1)] stir_win
  by (cases m) (simp_all add: adapter_move_def split: resume_loop.split)

lemma stir_batch: "stir (ad s) (ad (fold do_move ms s))"
proof (induction ms arbitrary: s)
  case (Cons m ms)
  have "stir (ad s) (ad (do_move m s))" by (simp add: do_move_def stir_move)
  then show ?case using stir_trans Cons.IH [of "do_move m s"] by simp
qed (simp add: stir_def)

lemma block_stir: "block s = Some s1 \<Longrightarrow> stir (ad s) (ad s1)"
  by (auto simp: block_def split: list.splits) (metis select_convs(1) stir_batch sys.surjective sys.update_convs(3))

text \<open>
  A wait for room ends: by the timer, which then is used up, or after something else happened.  It
  started on an open adapter, so a close that comes has a broadcast of its own.
\<close>

definition counted :: "nat \<Rightarrow> adapter \<Rightarrow> bool" where
  "counted b a \<longleftrightarrow> b \<le> broadcasts (win a) \<and> (doneClosed a \<longrightarrow> b < broadcasts (win a))"

lemma counted_stir: "counted b a \<Longrightarrow> stir a a' \<Longrightarrow> counted b a'"
  unfolding counted_def stir_def by auto

lemma cond_wait_returns:
  "closing s \<Longrightarrow> counted b (ad s) \<Longrightarrow> \<exists>t1 s1. cond_wait b t s = Some (t1, s1)
     \<and> (length (sched s1) < length (sched s) \<or> broadcasts (win (ad s)) \<noteq> b \<or> (t1 = Fired \<and> t \<noteq> Fired))
     \<and> (t = Fired \<longrightarrow> t1 = Fired)"
proof (induction "length (sched s)" arbitrary: s rule: less_induct)
  case less
  show ?case
  proof (cases "broadcasts (win (ad s)) = b \<and> \<not> (case t of Armed at \<Rightarrow> at \<le> clock s | _ \<Rightarrow> False)")
    case True
    then have "\<not> doneClosed (ad s)" using less.prems(2) by (auto simp: counted_def)
    then obtain s1 where b: "block s = Some s1" "closing s1" "length (sched s1) < length (sched s)"
      using closing_block less.prems by blast
    have "counted b (ad s1)" using counted_stir [OF less.prems(2) block_stir [OF b(1)]] .
    then obtain t2 s2 where r: "cond_wait b t s1 = Some (t2, s2)" "t = Fired \<longrightarrow> t2 = Fired"
      using less.hyps [OF b(3,2)] by blast
    have "shrink_rel s1 s2" using cr.cond_wait_rel [OF r(1)] by simp
    then show ?thesis
      using r b True by (subst cond_wait.simps) (auto simp: shrink_rel_def)
  next
    case False
    then show ?thesis
      by (subst cond_wait.simps) (auto split: wake_timer.splits)
  qed
qed

lemma addOutgoing_loop_returns:
  "closing s \<Longrightarrow> sys_inv k s \<Longrightarrow> \<exists>e s1. addOutgoing_loop seq mid frame t s = Some (e, s1)"
proof (induction "2 * length (sched s) + of_bool (t \<noteq> Fired)" arbitrary: s t rule: less_induct)
  case less
  show ?case
  proof (cases "addOutgoing_step (clock s) (writeDeadline (ad s)) seq mid frame (win (ad s))")
    case AddWait
    then have "\<not> doneClosed (ad s)"
      using less.prems(2) by (auto simp: addOutgoing_step_def sys_inv_def adapter_inv_defs split: if_splits)
    then have "counted (broadcasts (win (ad s))) (ad s)" by (simp add: counted_def)
    then obtain t1 s1 where w: "cond_wait (broadcasts (win (ad s))) (ensureWriteDeadlineWake (clock s) (ad s) t) s = Some (t1, s1)"
      and m: "length (sched s1) < length (sched s) \<or> (t1 = Fired \<and> ensureWriteDeadlineWake (clock s) (ad s) t \<noteq> Fired)"
      using cond_wait_returns [OF less.prems(1), of "broadcasts (win (ad s))" "ensureWriteDeadlineWake (clock s) (ad s) t"]
      by blast
    have "shrink_rel s s1" "keep_rel k 0 s s1" using cr.cond_wait_rel [OF w] kr.cond_wait_rel [OF w] by simp_all
    then have s1: "closing s1" "length (sched s1) \<le> length (sched s)" "sys_inv k s1"
      using less.prems by (auto simp: shrink_rel_def keep_rel_def)
    have "t \<noteq> Fired" if "ensureWriteDeadlineWake (clock s) (ad s) t \<noteq> Fired"
      using that by (auto simp: ensureWriteDeadlineWake_def)
    then have "2 * length (sched s1) + of_bool (t1 \<noteq> Fired) < 2 * length (sched s) + of_bool (t \<noteq> Fired)"
      using m s1(2) by (auto simp: of_bool_def)
    then show ?thesis using less.hyps [of s1 t1] s1 w AddWait by (subst addOutgoing_loop.simps) simp
  qed (subst addOutgoing_loop.simps, simp)+
qed

section \<open>Write\<close>

lemma closing_ad: "closing s \<Longrightarrow> doneClosed a = doneClosed (ad s) \<Longrightarrow> closing (s\<lparr>ad := a\<rparr>)"
  by (simp add: closing_def)

lemma addOutgoing_shrink:
  assumes "addOutgoing_loop seq mid frame t s = Some y"
  shows "shrink_rel s (snd y)"
  using assms
proof (induction seq mid frame t s y rule: addOutgoing_loop.raw_induct [rotated 1, consumes 1])
  case (1 f seq mid frame t s y)
  show ?case
  proof (cases "addOutgoing_step (clock s) (writeDeadline (ad s)) seq mid frame (win (ad s))")
    case AddWait
    then obtain t1 s1 where w: "cond_wait (broadcasts (win (ad s))) (ensureWriteDeadlineWake (clock s) (ad s) t) s = Some (t1, s1)"
      and r: "f seq mid frame t1 s1 = Some y"
      using 1(2) by (auto simp: bind_eq_Some_conv)
    show ?thesis using cr.Q_trans [OF cr.cond_wait_rel [OF w]] 1(1) [OF r] by simp
  qed (use 1(2) in \<open>auto intro!: closing_same simp: upd_def upd_win_def\<close>)
qed

lemma Write_frame_returns:
  assumes "closing s" "sys_inv k s" "pending_num seq (ad s)"
  shows "\<exists>e s1. Write_frame seq mid frame s = Some (e, s1) \<and> closing s1"
proof -
  have y: "closing (yield s)" by (rule closing_yield [OF assms(1)])
  have iy: "sys_inv k (yield s)" using kr.yield_rel [of k 0 s] assms(2) by (simp add: keep_rel_def)
  obtain e s1 where a: "addOutgoing seq mid frame s = Some (e, s1)"
    using addOutgoing_loop_returns [OF y iy] unfolding addOutgoing_def by blast
  then have c1: "closing s1" using addOutgoing_shrink [of seq mid frame NoTimer "yield s"] y
    by (auto simp: addOutgoing_def shrink_rel_def)
  obtain e2 s2 where w: "writeRaw frame s1 = Some (e2, s2)" using writeRaw_returns [OF c1] by blast
  then have "closing s2" using cr.writeRaw_rel [OF w] c1 by (simp add: shrink_rel_def)
  then have "closing (upd (upd_win f) s2)" for f
    using closing_ad [of s2 "upd_win f (ad s2)"] by (simp add: upd_def upd_win_def)
  then show ?thesis using a w c1 \<open>closing s2\<close> by (cases e; cases e2) (simp_all add: Write_frame_def)
qed

lemma Write_chunk_returns:
  assumes "closing s" "sys_inv (k + 1) s" "0 \<le> k"
  shows "\<exists>e s1. Write_chunk p s = Some (e, s1) \<and> closing s1"
proof -
  obtain e s1 where w: "waitForPublication s = Some (e, s1)"
    using publication_returns [OF assms(1), of "k + 1"] assms(2) unfolding sys_inv_def by blast
  have c1: "closing s1" using cr.waitForPublication_rel [OF w] assms(1) by (simp add: shrink_rel_def)
  have i1: "sys_inv (k + 1) s1" using kr.waitForPublication_rel [OF w, of "k + 1" 0] assms(2) by (simp add: keep_rel_def)
  show ?thesis
  proof (cases e)
    case None
    define s2 where "s2 = s1\<lparr>ad := snd (nextSeq (ad s1))\<rparr>"
    define s3 where "s3 = snd (new_uuid s2)"
    have "closing s2" unfolding s2_def by (rule closing_ad [OF c1]) (simp add: nextSeq_def)
    then have c3: "closing s3" by (simp add: s3_def closing_def new_uuid_def split: list.split)
    have "sys_inv k s2" "pending_num (seqNum (ad s1)) (ad s2)"
      using nextSeq_sys [OF i1 assms(3)] by (simp_all add: s2_def)
    then have i3: "sys_inv k s3" "pending_num (fst (nextSeq (ad s1))) (ad s3)"
      using nextSeq_sys(3) [OF i1 assms(3)] sys_inv_new_uuid by (simp_all add: s3_def)
    show ?thesis
      using Write_frame_returns [OF c3 i3] w None
      by (simp add: Write_chunk_def split_beta Let_def s2_def [symmetric] s3_def [symmetric])
  qed (use w c1 in \<open>simp add: Write_chunk_def\<close>)
qed

lemma Write_loop_returns:
  "closing s \<Longrightarrow> sys_inv (int (length b)) s \<Longrightarrow> 0 < cs \<Longrightarrow> \<exists>y. Write_loop cs b n s = Some y"
proof (induction "length b" arbitrary: b n s rule: less_induct)
  case less
  show ?case
  proof (cases "b = []")
    case False
    note m = send_len_range [OF less.prems(3) False]
    let ?k = "int (length b) - 1"
    have "0 < length b" using False by simp
    then have k: "0 \<le> ?k" "sys_inv (?k + 1) s" using less.prems(2) by simp_all
    obtain e s1 where c: "Write_chunk (take (send_len cs b) b) s = Some (e, s1)" "closing s1"
      using Write_chunk_returns [OF less.prems(1) k(2,1)] by blast
    have i1: "sys_inv ?k s1" using Write_chunk_effect [OF c(1) k(2,1)] by simp
    show ?thesis
    proof (cases e)
      case None
      let ?b = "drop (send_len cs b) b"
      have "length ?b < length b" using m False by simp
      moreover have "sys_inv (int (length ?b)) s1" using i1 m by (simp add: sys_inv_def num_room_def)
      ultimately show ?thesis
        using less.hyps [of ?b s1 "n + send_len cs b"] c None False less.prems(3)
        by (subst Write_loop.simps) simp
    qed (use c False in \<open>subst Write_loop.simps, simp\<close>)
  qed (subst Write_loop.simps, simp)
qed

text \<open>
  C33. Closing the adapter ends every \<open>Write\<close>.  When the adapter is closed, or is closed by anyone at
  any point while \<open>Write\<close> is in progress, \<open>Write\<close> returns, whatever it is waiting for and whatever
  else happens before and after the close: with no error exactly when it has sent everything.
\<close>

theorem close_ends_write:
  assumes "doneClosed (ad s) \<or> (\<exists>e. MClose e \<in> set (concat (sched s)))"
    and "adapter_inv (ad s)" and "num_room (int (length b)) s"
  shows "\<exists>n e s'. Write b s = Some ((n, e), s') \<and> n \<le> length b \<and> (e = None \<longleftrightarrow> n = length b)"
proof -
  have si: "sys_inv (int (length b)) s" using assms(2,3) by (simp add: sys_inv_def)
  have "closing s" using assms(1) by (simp add: closing_def)
  from Write_loop_returns [OF this si eff_chunk_pos]
  obtain n e s' where w: "Write_loop (eff_chunk (ad s)) b 0 s = Some ((n, e), s')" by (metis prod.exhaust_sel)
  then obtain l own where "loop_effect (eff_chunk (ad s)) b 0 (int (length b)) s ((n, e), s') l own"
    using Write_loop_effect [OF _ si order_refl eff_chunk_pos] by blast
  then show ?thesis using w by (auto simp: loop_effect_def Write_eff)
qed

text \<open>A call that finds publication paused and the transport gone, and is then overtaken by a close.\<close>

theorem close_ends_write_witness:
  "\<exists>n e s'. Write [1, 2, 3] (fresh_sys\<lparr>sched := [[MPause], [MTick 7], [MFail IoEOF, MClose None]]\<rparr>)
    = Some ((n, e), s') \<and> n \<le> 3"
proof -
  let ?s = "fresh_sys\<lparr>sched := [[MPause], [MTick 7], [MFail IoEOF, MClose None]]\<rparr>"
  have "adapter_inv (ad ?s)" "num_room (int (length [1, 2, 3 :: byte])) ?s"
    by (simp_all add: initial_inv_fresh num_room_def) (simp add: fresh_sys_simps)
  from close_ends_write [OF _ this] show ?thesis by auto
qed

end
