(* ===== verification/HandlerEnds.thy ===== *)
theory HandlerEnds
  imports HandlerSpec CloseSpec
begin

text \<open>
  The handlers and the read loop of the adapter end: once the adapter is closed they return from
  whatever they wait for.  With the invariant of \<open>HandlerSpec\<close> this gives their properties.
\<close>

section \<open>Handlers return\<close>

text \<open>The operation returns, and a close that has happened or is to come is not lost.\<close>

definition ends_closing :: "('a \<times> sys) option \<Rightarrow> bool" where
  "ends_closing r \<longleftrightarrow> (\<exists>x s. r = Some (x, s) \<and> closing s)"

lemma ends_Some [simp]: "ends_closing (Some (x, s)) \<longleftrightarrow> closing s"
  by (simp add: ends_closing_def)

lemma closing_upd: "closing s \<Longrightarrow> (doneClosed (ad s) \<Longrightarrow> doneClosed (f (ad s))) \<Longrightarrow> closing (upd f s)"
  by (auto simp: closing_def upd_def)

lemma closing_wrapped: "closing (close_wrapped txt e s)"
  by (simp add: closing_def close_wrapped_def upd_def closeWithError_def)

lemma closing_new_uuid: "closing s \<Longrightarrow> closing (snd (new_uuid s))"
  by (simp add: closing_def new_uuid_def split: list.split)

lemma writeMessage_ends: "closing s \<Longrightarrow> ends_closing (writeMessage m s)"
proof -
  assume c: "closing s"
  obtain e s1 where w: "writeRaw (MarshalBinary m) s = Some (e, s1)" using writeRaw_returns [OF c] by blast
  then have "closing s1" using cr.writeRaw_rel [OF w] c by (simp add: shrink_rel_def)
  then show ?thesis using w by (simp add: ends_closing_def writeMessage_def)
qed

lemma sendAck_ends: "closing s \<Longrightarrow> ends_closing (sendAck us orig s)"
  using writeMessage_ends [OF closing_new_uuid] by (simp add: sendAck_def split_beta)

lemma resend_ends: "closing s \<Longrightarrow> ends_closing (resendHandshakeResponse s)"
  using writeMessage_ends by (auto simp: resendHandshakeResponse_def ends_closing_def split: option.split)

lemma handshake_request_ends:
  assumes "closing s"
  shows "ends_closing (handleHandshakeRequest us orig s)"
proof -
  have "closing (upd (\<lambda>a. a\<lparr>handshakeResponded := True\<rparr>) s)" by (rule closing_upd [OF assms]) simp
  then obtain e s1 where a: "sendAck us orig (upd (\<lambda>a. a\<lparr>handshakeResponded := True\<rparr>) s) = Some (e, s1)" "closing s1"
    using sendAck_ends [of "upd (\<lambda>a. a\<lparr>handshakeResponded := True\<rparr>) s" us orig]
    by (auto simp: ends_closing_def)
  have "closing (s1\<lparr>ad := snd (nextSeq (ad s1))\<rparr>)" by (rule closing_ad [OF a(2)]) (simp add: nextSeq_def)
  then have "closing (upd (\<lambda>a. a\<lparr>lastHandshakeResponse := Some m\<rparr>)
      (snd (new_uuid (s1\<lparr>ad := snd (nextSeq (ad s1))\<rparr>))))" for m
    by (intro closing_upd closing_new_uuid) simp_all
  from writeMessage_ends [OF this] a show ?thesis
    by (cases e) (simp_all add: handleHandshakeRequest_def split_beta Let_def ends_closing_def)
qed

lemma closing_rcv: "closing s \<Longrightarrow> closing (upd (upd_rcv f) s)"
  by (rule closing_upd) (simp_all add: upd_rcv_def)

lemma request_payload_ends:
  "closing s \<Longrightarrow> \<exists>s1. handleHandshakeRequestPayload us msg dup s = Some s1 \<and> closing s1"
proof (cases "dup \<or> handshakeResponded (ad s)")
  case True
  assume "closing s"
  then obtain e s1 where a: "sendAck us msg s = Some (e, s1)" "closing s1"
    using sendAck_ends by (fastforce simp: ends_closing_def)
  obtain e2 s2 where "resendHandshakeResponse s1 = Some (e2, s2)" "closing s2"
    using resend_ends [OF a(2)] by (auto simp: ends_closing_def)
  then show ?thesis
    using True a closing_wrapped by (cases e; cases e2) (auto simp: handleHandshakeRequestPayload_def)
next
  case False
  assume "closing s"
  then obtain e s1 where "handleHandshakeRequest us msg s = Some (e, s1)" "closing s1"
    using handshake_request_ends by (fastforce simp: ends_closing_def)
  then show ?thesis
    using False closing_wrapped closing_rcv by (cases e) (auto simp: handleHandshakeRequestPayload_def)
qed

lemma complete_payload_ends:
  assumes "closing s"
  shows "\<exists>s1. handleHandshakeCompletePayload us msg s = Some s1 \<and> closing s1"
proof -
  obtain first a where m: "markHandshakeComplete (ad s) = (first, a)" by fastforce
  then have "doneClosed a = doneClosed (ad s)"
    by (auto simp: markHandshakeComplete_def close_chan_def Let_def split: if_splits)
  then have c: "closing (s\<lparr>ad := if first then upd_rcv (updateExpectedSeqNum msg) a else a\<rparr>)"
    by (intro closing_ad [OF assms]) (simp add: upd_rcv_def)
  obtain e s1 where "sendAck us msg (s\<lparr>ad := if first then upd_rcv (updateExpectedSeqNum msg) a else a\<rparr>) = Some (e, s1)"
    "closing s1"
    using sendAck_ends [OF c, of us msg] by (auto simp: ends_closing_def)
  then show ?thesis
    using m closing_wrapped by (cases e) (simp_all add: handleHandshakeCompletePayload_def)
qed

lemma data_ends:
  assumes "closing s"
  shows "\<exists>s1. handleDataMessage us msg s = Some s1 \<and> closing s1"
proof -
  obtain e s1 where "sendAck us msg s = Some (e, s1)" "closing s1"
    using sendAck_ends [OF assms, of us msg] by (auto simp: ends_closing_def)
  then show ?thesis using closing_wrapped closing_rcv by (cases e) (simp_all add: handleDataMessage_def)
qed

lemma dispatch_ends:
  assumes "closing s"
  shows "ends_closing (dispatchMessage us up msg s)"
proof -
  define s1 where "s1 = upd (\<lambda>a. a\<lparr>lastInboundUnixNano := clock s, seenMsgIds :=
      snd (markMessageSeen (MessageId (Header msg)) (seq_of msg) (seenMsgIds (ad s)))\<rparr>) s"
  have c: "closing s1" unfolding s1_def by (rule closing_upd [OF assms]) simp
  have o: "\<exists>s2. handleOutputStream us msg dup s1 = Some s2 \<and> closing s2" for dup
    using request_payload_ends [OF c] complete_payload_ends [OF c] data_ends [OF c]
    by (simp add: handleOutputStream_def)
  obtain s2 where ho: "handleOutputStream us msg
      (fst (markMessageSeen (MessageId (Header msg)) (seq_of msg) (seenMsgIds (ad s)))) s1 = Some s2" "closing s2"
    using o by blast
  have "doneClosed (handleAcknowledge up now msg a) = doneClosed a" for now a
    by (simp add: handleAcknowledge_def resumePublication_def close_chan_def upd_win_def Let_def
        split: option.split)
  then have "closing (upd (handleAcknowledge up now msg) s1)" for now by (intro closing_upd [OF c]) simp
  moreover have "closing (upd (pausePublication now) s1)" "closing (upd resumePublication s1)" for now
    by (rule closing_upd [OF c], simp add: pausePublication_def resumePublication_def make_chan_def
        close_chan_def Let_def split: option.split)+
  moreover have "closing (upd (\<lambda>a. closeWithError e (close_stream a)) s1)" for e
    by (simp add: closing_def upd_def closeWithError_def)
  ultimately show ?thesis
    using c ho by (simp add: dispatchMessage_def split_beta Let_def s1_def [symmetric])
qed

text \<open>A read error ends the loop, if the handlers before it return.\<close>

lemma read_loop_returns:
  "closing s \<Longrightarrow> Inl e \<in> set reads \<Longrightarrow> \<exists>r. readLoopForGen us up gen reads s = Some r"
proof (induction us up gen reads s rule: readLoopForGen.induct)
  case (1 us up gen reads s)
  show ?case
  proof (cases "connGenerationStale gen (ad s) \<or> conn (ad s) = None")
    case True
    then show ?thesis by (subst readLoopForGen.simps) auto
  next
    case False
    then obtain x rest where reads: "reads = x # rest" using 1(4) by (cases reads) auto
    have y: "closing (yield s)" by (rule closing_yield [OF 1(3)])
    show ?thesis
    proof (cases x)
      case (Inl err)
      then show ?thesis using False reads by (subst readLoopForGen.simps) (auto simp: Let_def)
    next
      case (Inr bytes)
      then have e: "Inl e \<in> set rest" using 1(4) reads by simp
      show ?thesis
      proof (cases "UnmarshalMessage bytes")
        case (Ret msg)
        obtain go_on s2 where d: "dispatchMessage us up msg (yield s) = Some (go_on, s2)" "closing s2"
          using dispatch_ends [OF y, of us up msg] by (auto simp: ends_closing_def)
        then show ?thesis
          using 1(1) [OF _ _ reads Inr refl Ret d(1) refl _ d(2) e] False reads Inr Ret e
          by (subst readLoopForGen.simps) (auto simp: Let_def)
      next
        case (Fail f)
        then show ?thesis using 1(2) [OF _ _ reads Inr refl Fail y e] False reads Inr
          by (subst readLoopForGen.simps) (auto simp: Let_def)
      qed (use False reads Inr in \<open>subst readLoopForGen.simps, auto simp: Let_def\<close>)
    qed
  qed
qed

section \<open>Properties\<close>





end
