(* ===== verification/SocksAddr.thy ===== *)
theory SocksAddr
  imports Strconv
begin

text \<open>
  SOCKS5 addresses (\<open>internal/socks5/addr.go\<close>, \<open>const.go\<close>): the wire format of RFC 1928, its
  reader and writer, the textual form handed to the dialer, and the parts of \<open>net\<close> they use
  (\<open>IP.To4\<close>, \<open>IP.To16\<close>, \<open>IP.String\<close>, \<open>JoinHostPort\<close>).  A reader is the bytes the peer will have sent and the
  error the connection gives after them (end of file, a timeout, a reset).
\<close>

section \<open>Constants\<close>

abbreviation (input) Version :: byte where "Version \<equiv> 0x05"

abbreviation (input) MethodNoAuth :: byte where "MethodNoAuth \<equiv> 0x00"
abbreviation (input) MethodUserPass :: byte where "MethodUserPass \<equiv> 0x02"
abbreviation (input) MethodNoAcceptable :: byte where "MethodNoAcceptable \<equiv> 0xFF"

abbreviation (input) CmdConnect :: byte where "CmdConnect \<equiv> 0x01"

abbreviation (input) AtypIPv4 :: byte where "AtypIPv4 \<equiv> 0x01"
abbreviation (input) AtypDomain :: byte where "AtypDomain \<equiv> 0x03"
abbreviation (input) AtypIPv6 :: byte where "AtypIPv6 \<equiv> 0x04"

text \<open>The reply codes, with their wire values.\<close>

datatype rep = RepSuccess | RepGeneralFailure | RepConnectionNotAllowed | RepNetworkUnreachable
  | RepHostUnreachable | RepConnectionRefused | RepTTLExpired | RepCommandNotSupported
  | RepAddressNotSupported

primrec rep_code :: "rep \<Rightarrow> byte" where
  "rep_code RepSuccess = 0x00"
| "rep_code RepGeneralFailure = 0x01"
| "rep_code RepConnectionNotAllowed = 0x02"
| "rep_code RepNetworkUnreachable = 0x03"
| "rep_code RepHostUnreachable = 0x04"
| "rep_code RepConnectionRefused = 0x05"
| "rep_code RepTTLExpired = 0x06"
| "rep_code RepCommandNotSupported = 0x07"
| "rep_code RepAddressNotSupported = 0x08"

section \<open>Reading\<close>

text \<open>
  \<open>io.ReadFull\<close>: the bytes, or the error of a connection that ended first; an end of file
  after some but not all bytes is \<open>ErrUnexpectedEOF\<close>.
\<close>

definition ReadFull :: "nat \<Rightarrow> go_error \<Rightarrow> bytes \<Rightarrow> (go_error + bytes) \<times> bytes" where
  "ReadFull n e bs =
    (case read_full n bs of
       Some (xs, r) \<Rightarrow> (Inr xs, r)
     | None \<Rightarrow> (Inl (if bs \<noteq> [] \<and> e = IoEOF then IoErrUnexpectedEOF else e), []))"

lemma ReadFull_append [simp]: "length xs = n \<Longrightarrow> ReadFull n e (xs @ r) = (Inr xs, r)"
  by (simp add: ReadFull_def)

lemma ReadFull_0 [simp]: "ReadFull 0 e bs = (Inr [], bs)"
  by (simp add: ReadFull_def read_full_def)

lemma ReadFull_Inr_iff: "ReadFull n e bs = (Inr xs, r) \<longleftrightarrow> bs = xs @ r \<and> length xs = n"
  by (auto simp: ReadFull_def read_full_Some_iff split: option.splits)
    (auto simp: read_full_None_iff)

lemma ReadFull_Cons2 [simp]: "ReadFull 2 e (a # b # r) = (Inr [a, b], r)"
  using ReadFull_append [of "[a, b]" 2 e r] by simp

lemma ReadFull_Cons3 [simp]: "ReadFull 3 e (a # b # c # r) = (Inr [a, b, c], r)"
  using ReadFull_append [of "[a, b, c]" 3 e r] by simp

lemma ReadFull_Cons1 [simp]: "ReadFull (Suc 0) e (a # r) = (Inr [a], r)"
  using ReadFull_append [of "[a]" "Suc 0" e r] by simp

lemma ReadFull_short: "length bs < n \<Longrightarrow> \<exists>err. ReadFull n e bs = (Inl err, [])"
  by (simp add: ReadFull_def read_full_def)

text \<open>Continue after a read, or wrap its error.\<close>

definition then_read ::
  "(go_error + bytes) \<times> bytes \<Rightarrow> string \<Rightarrow> (bytes \<Rightarrow> bytes \<Rightarrow> (go_error + 'a) \<times> bytes)
     \<Rightarrow> (go_error + 'a) \<times> bytes" where
  "then_read rr what k =
    (case rr of (Inl e, r) \<Rightarrow> (Inl (Wrapped what [e]), r) | (Inr xs, r) \<Rightarrow> k xs r)"

lemma then_read_simps [simp]:
  "then_read (Inr xs, r) what k = k xs r" "then_read (Inl e, r) what k = (Inl (Wrapped what [e]), r)"
  by (simp_all add: then_read_def)

lemma then_read_Inr_iff:
  "then_read rr what k = (Inr a, r) \<longleftrightarrow> (\<exists>xs r1. rr = (Inr xs, r1) \<and> k xs r1 = (Inr a, r))"
  by (auto simp: then_read_def split: prod.splits sum.splits)

section \<open>IP addresses\<close>

type_synonym ip = bytes

definition v4InV6Prefix :: bytes where
  "v4InV6Prefix = replicate 10 0 @ [0xff, 0xff]"

definition IPv4zero :: ip where
  "IPv4zero = v4InV6Prefix @ [0, 0, 0, 0]"

definition To4 :: "ip \<Rightarrow> ip option" where
  "To4 x = (if length x = 4 then Some x
     else if length x = 16 \<and> take 12 x = v4InV6Prefix then Some (drop 12 x)
     else None)"

definition To16 :: "ip \<Rightarrow> ip option" where
  "To16 x = (if length x = 4 then Some (v4InV6Prefix @ x)
     else if length x = 16 then Some x
     else None)"

text \<open>Go's built-in \<open>copy(buf[i:j], src)\<close> into a zeroed buffer of \<open>n\<close> bytes; a nil source copies
  nothing.\<close>

definition copy_into :: "nat \<Rightarrow> bytes option \<Rightarrow> bytes" where
  "copy_into n src = (case src of
       None \<Rightarrow> replicate n 0
     | Some x \<Rightarrow> take n x @ replicate (n - length x) 0)"

lemma To4_simps [simp]: "length x = 4 \<Longrightarrow> To4 x = Some x"
  by (simp add: To4_def)

lemma To16_simps [simp]: "length x = 16 \<Longrightarrow> To16 x = Some x"
  by (simp add: To16_def)

lemma copy_into_exact [simp]: "length x = n \<Longrightarrow> copy_into n (Some x) = x"
  by (simp add: copy_into_def)

lemma length_copy_into [simp]: "length (copy_into n src) = n"
  by (cases src) (auto simp: copy_into_def)

lemma To4_length: "To4 x = Some y \<Longrightarrow> length y = 4"
  by (auto simp: To4_def split: if_splits)

lemma To16_length: "To16 x = Some y \<Longrightarrow> length y = 16"
  by (auto simp: To16_def v4InV6Prefix_def split: if_splits)

section \<open>Addresses\<close>

record Addr =
  AType :: byte
  IP :: ip
  ADomain :: string
  APort :: u16

definition read_port :: "go_error \<Rightarrow> Addr \<Rightarrow> bytes \<Rightarrow> (go_error + Addr) \<times> bytes" where
  "read_port e a bs = then_read (ReadFull 2 e bs) ''read port: ''
     (\<lambda>p r. (Inr (a\<lparr>APort := word_of_int (be_val p)\<rparr>), r))"

definition ReadAddr :: "go_error \<Rightarrow> bytes \<Rightarrow> (go_error + Addr) \<times> bytes" where
  "ReadAddr e bs = then_read (ReadFull 1 e bs) ''read atyp: '' (\<lambda>t r1.
     let a = \<lparr>AType = hd t, IP = [], ADomain = [], APort = 0\<rparr> in
     if AType a = AtypIPv4 then
       then_read (ReadFull 4 e r1) ''read IPv4: '' (\<lambda>x r2. read_port e (a\<lparr>IP := x\<rparr>) r2)
     else if AType a = AtypIPv6 then
       then_read (ReadFull 16 e r1) ''read IPv6: '' (\<lambda>x r2. read_port e (a\<lparr>IP := x\<rparr>) r2)
     else if AType a = AtypDomain then
       then_read (ReadFull 1 e r1) ''read domain length: '' (\<lambda>l r2.
         then_read (ReadFull (unat (hd l)) e r2) ''read domain: '' (\<lambda>d r3.
           read_port e (a\<lparr>ADomain := bytes_str d\<rparr>) r3))
     else (Inl (Wrapped ''unsupported address type'' []), r1))"

text \<open>The buffer \<open>WriteTo\<close> builds, or its error; the length byte of a domain is truncated.\<close>

definition WriteTo :: "Addr \<Rightarrow> go_error + bytes" where
  "WriteTo a =
    (if AType a = AtypIPv4 then
       Inr ([AtypIPv4] @ copy_into 4 (To4 (IP a)) @ be16 (APort a))
     else if AType a = AtypIPv6 then
       Inr ([AtypIPv6] @ copy_into 16 (To16 (IP a)) @ be16 (APort a))
     else if AType a = AtypDomain then
       Inr ([AtypDomain, word_of_nat (length (ADomain a))] @ str_bytes (ADomain a) @ be16 (APort a))
     else Inl (Wrapped ''unsupported address type'' []))"

datatype net_addr = TCPAddr ip int | OtherAddr

definition AddrFromNetAddr :: "net_addr \<Rightarrow> Addr" where
  "AddrFromNetAddr x =
    (case x of
       TCPAddr i p \<Rightarrow>
         (case To4 i of
            Some ip4 \<Rightarrow> \<lparr>AType = AtypIPv4, IP = ip4, ADomain = [], APort = word_of_int p\<rparr>
          | None \<Rightarrow> \<lparr>AType = AtypIPv6, IP = (case To16 i of None \<Rightarrow> [] | Some y \<Rightarrow> y),
                     ADomain = [], APort = word_of_int p\<rparr>)
     | OtherAddr \<Rightarrow> \<lparr>AType = AtypIPv4, IP = IPv4zero, ADomain = [], APort = 0\<rparr>)"

section \<open>The wire format is a self-delimiting code\<close>

text \<open>The addresses \<open>ReadAddr\<close> can produce: one address field set, by the type.\<close>

definition wire_addr :: "Addr \<Rightarrow> bool" where
  "wire_addr a \<longleftrightarrow>
     (AType a = AtypIPv4 \<and> length (IP a) = 4 \<and> ADomain a = []
    \<or> AType a = AtypIPv6 \<and> length (IP a) = 16 \<and> ADomain a = []
    \<or> AType a = AtypDomain \<and> IP a = [] \<and> length (ADomain a) < 256)"

definition addr_bytes :: "Addr \<Rightarrow> bytes" where
  "addr_bytes a = (case WriteTo a of Inr b \<Rightarrow> b | Inl _ \<Rightarrow> [])"

definition addr_dec :: "bytes \<Rightarrow> (Addr \<times> bytes) option" where
  "addr_dec bs = (case ReadAddr IoEOF bs of (Inr a, r) \<Rightarrow> Some (a, r) | (Inl _, _) \<Rightarrow> None)"

lemma read_port_be16 [simp]: "read_port e a (be16 p @ r) = (Inr (a\<lparr>APort := p\<rparr>), r)"
proof -
  have "rd16 (be16 p @ r) = Some (p, r)" by simp
  then have "word_of_int (be_val (be16 p)) = p" by (simp add: rd16_def)
  then show ?thesis by (simp add: read_port_def)
qed

lemma read_port_Inr_iff:
  "read_port e a bs = (Inr b, r) \<longleftrightarrow> (\<exists>p. b = a\<lparr>APort := p\<rparr> \<and> bs = be16 p @ r)"
proof
  assume "read_port e a bs = (Inr b, r)"
  then obtain x where x: "bs = x @ r" "length x = 2" "b = a\<lparr>APort := word_of_int (be_val x)\<rparr>"
    by (auto simp: read_port_def then_read_Inr_iff ReadFull_Inr_iff)
  have "be16 (word_of_int (be_val x)) = x"
  proof -
    have "be_val x < 256 ^ 2" using be_val_bound [of x] x by simp
    then have "uint (word_of_int (be_val x) :: u16) = be_val x"
      by (simp add: uint_word_of_int_eq take_bit_eq_mod)
    then show ?thesis using be_bytes_be_val [of x] x by (simp add: be16_def)
  qed
  with x show "\<exists>p. b = a\<lparr>APort := p\<rparr> \<and> bs = be16 p @ r" by metis
qed auto

lemma word_of_nat_unat_len: "length d < 256 \<Longrightarrow> unat (word_of_nat (length d) :: byte) = length d"
  by (simp add: unat_of_nat)

lemma read_write:
  assumes "wire_addr a"
  shows "ReadAddr e (addr_bytes a @ rest) = (Inr a, rest)"
proof -
  consider (v4) "AType a = AtypIPv4" "length (IP a) = 4" "ADomain a = []"
    | (v6) "AType a = AtypIPv6" "length (IP a) = 16" "ADomain a = []"
    | (dom) "AType a = AtypDomain" "IP a = []" "length (ADomain a) < 256"
    using assms unfolding wire_addr_def by blast
  then show ?thesis
    by cases (cases a, simp add: ReadAddr_def addr_bytes_def WriteTo_def word_of_nat_unat_len)+
qed

lemma ReadAddr_sound:
  assumes "ReadAddr e bs = (Inr a, r)"
  shows "wire_addr a \<and> bs = addr_bytes a @ r"
proof -
  have hd: "length t = Suc 0 \<Longrightarrow> t = [hd t]" for t :: bytes by (cases t) auto
  have dlen: "length d = unat (l :: byte) \<Longrightarrow> length d < 256 \<and> word_of_nat (length d) = l"
    for d :: bytes and l
    using unsigned_less [of l] by simp
  show ?thesis
    using assms
    by (auto simp: ReadAddr_def then_read_Inr_iff ReadFull_Inr_iff read_port_Inr_iff Let_def
        addr_bytes_def WriteTo_def wire_addr_def dest!: hd dlen split: if_splits)
qed

lemma ReadAddr_iff:
  "ReadAddr e bs = (Inr a, r) \<longleftrightarrow> wire_addr a \<and> bs = addr_bytes a @ r"
  using read_write ReadAddr_sound by blast

interpretation addr: codec addr_bytes addr_dec wire_addr
  by unfold_locales (simp add: addr_dec_def read_write)

section \<open>The textual form\<close>

text \<open>
  \<open>net.IP.String\<close>: dotted decimal for a version 4 address in either length, otherwise hexadecimal
  groups with the first longest run of at least two zero groups written as a double colon.
\<close>

definition dotted :: "ip \<Rightarrow> string" where
  "dotted x = itoa (uint (x ! 0)) @ ''.'' @ itoa (uint (x ! 1)) @ ''.'' @ itoa (uint (x ! 2))
     @ ''.'' @ itoa (uint (x ! 3))"

definition hex_char :: "nat \<Rightarrow> char" where
  "hex_char n = char_of (if n < 10 then 48 + n else 87 + n)"

text \<open>A 16-bit group without leading zeros.\<close>

definition hex_group :: "nat \<Rightarrow> string" where
  "hex_group n =
    (if n < 16 then [hex_char n]
     else if n < 256 then [hex_char (n div 16), hex_char (n mod 16)]
     else if n < 4096 then [hex_char (n div 256), hex_char (n div 16 mod 16), hex_char (n mod 16)]
     else [hex_char (n div 4096), hex_char (n div 256 mod 16), hex_char (n div 16 mod 16),
           hex_char (n mod 16)])"

definition group :: "ip \<Rightarrow> nat \<Rightarrow> nat" where
  "group x i = 256 * unat (x ! (2 * i)) + unat (x ! (2 * i + 1))"

definition groups :: "ip \<Rightarrow> nat list" where
  "groups x = map (group x) [0..<8]"

text \<open>The number of zero groups at the front, and the first longest run as (start, length).\<close>

fun zero_run :: "nat list \<Rightarrow> nat" where
  "zero_run [] = 0"
| "zero_run (g # gs) = (if g = 0 then Suc (zero_run gs) else 0)"

fun best_run :: "nat \<Rightarrow> nat list \<Rightarrow> nat \<times> nat \<Rightarrow> nat \<times> nat" where
  "best_run i [] best = best"
| "best_run i (g # gs) best =
    (let l = zero_run (g # gs) in
     best_run (Suc i) gs (if 2 \<le> l \<and> snd best < l then (i, l) else best))"

fun join_colon :: "string list \<Rightarrow> string" where
  "join_colon [] = []"
| "join_colon [g] = g"
| "join_colon (g # gs) = g @ '':'' @ join_colon gs"

definition v6_string :: "ip \<Rightarrow> string" where
  "v6_string x =
    (let gs = groups x; (i, l) = best_run 0 gs (0, 0) in
     if l = 0 then join_colon (map hex_group gs)
     else join_colon (map hex_group (take i gs)) @ ''::''
            @ join_colon (map hex_group (drop (i + l) gs)))"

definition hex_bytes :: "ip \<Rightarrow> string" where
  "hex_bytes x = concat (map (\<lambda>b. [hex_char (unat b div 16), hex_char (unat b mod 16)]) x)"

definition IP_String :: "ip \<Rightarrow> string" where
  "IP_String x =
    (if x = [] then ''<nil>''
     else if length x \<noteq> 4 \<and> length x \<noteq> 16 then ''?'' @ hex_bytes x
     else case To4 x of Some y \<Rightarrow> dotted y | None \<Rightarrow> v6_string x)"

definition JoinHostPort :: "string \<Rightarrow> string \<Rightarrow> string" where
  "JoinHostPort host port =
    (if CHR '':'' \<in> set host then ''['' @ host @ '']:'' @ port else host @ '':'' @ port)"

definition Addr_String :: "Addr \<Rightarrow> string" where
  "Addr_String a =
    (if AType a = AtypIPv4 \<or> AType a = AtypIPv6
     then JoinHostPort (IP_String (IP a)) (itoa (uint (APort a)))
     else if AType a = AtypDomain then JoinHostPort (ADomain a) (itoa (uint (APort a)))
     else [])"

lemma v4InV6Prefix_list: "v4InV6Prefix = [0, 0, 0, 0, 0, 0, 0, 0, 0, 0, 0xff, 0xff]"
  by (simp add: v4InV6Prefix_def numeral_eq_Suc)

lemmas ip_text_defs = IP_String_def dotted_def itoa_def itoa_nat.simps To4_def IPv4zero_def
  v4InV6Prefix_list v6_string_def groups_def group_def hex_group_def hex_char_def upt_rec char_of_def bit_Suc_0_iff

lemma IP_String_v4: "IP_String IPv4zero = ''0.0.0.0''"
  by (simp add: ip_text_defs)

lemma IP_String_v6:
  "IP_String [0x20, 1, 0x0d, 0xb8, 0, 0, 0, 0, 0, 1, 0, 0, 0, 0, 0xab, 0xc0] = ''2001:db8::1:0:0:abc0''"
  by (simp add: ip_text_defs)

section \<open>Properties\<close>

text \<open>
  C13. The reader accepts exactly the encodings: reading an address from a stream succeeds with
  \<open>a\<close> and leaves \<open>r\<close> unread if and only if \<open>a\<close> is an address of the wire format and the stream
  is what \<open>WriteTo\<close> writes for \<open>a\<close> followed by \<open>r\<close>.  So decoding inverts encoding (also after a
  domain of the full 255 bytes), nothing else is accepted, and exactly the address is consumed,
  whatever error the connection gives after the bytes.
\<close>

theorem read_addr_exact:
  "ReadAddr e bs = (Inr a, r) \<longleftrightarrow> wire_addr a \<and> (\<exists>w. WriteTo a = Inr w \<and> bs = w @ r)"
proof -
  have "\<exists>w. WriteTo a = Inr w" if "wire_addr a"
    using that by (auto simp: wire_addr_def WriteTo_def)
  moreover have "addr_bytes a = w" if "WriteTo a = Inr w" for w
    using that by (simp add: addr_bytes_def)
  ultimately show ?thesis by (auto simp: ReadAddr_iff)
qed

end
