(* ===== verification/SocksServer.thy ===== *)
theory SocksServer
  imports SocksAddr
begin

text \<open>
  The SOCKS5 server (\<open>internal/socks5/server.go\<close>): counters, connection limit and accept loop, the
  method negotiation with RFC 1929 authentication, requests and replies.  A client connection is
  the bytes its peer will have sent with the error that follows them, the bytes written to it, and
  the outcomes of the next writes (a failed write may have written a prefix).
\<close>

section \<open>Client connections\<close>

record client =
  cin :: bytes
  cend :: go_error
  cout :: bytes
  wres :: "(nat \<times> go_error) option list"
  cdl :: "nanos option"
  cclosed :: bool

definition client_write :: "bytes \<Rightarrow> client \<Rightarrow> go_error option \<times> client" where
  "client_write bs c =
    (case wres c of
       [] \<Rightarrow> (None, c\<lparr>cout := cout c @ bs\<rparr>)
     | None # ws \<Rightarrow> (None, c\<lparr>cout := cout c @ bs, wres := ws\<rparr>)
     | Some (k, e) # ws \<Rightarrow> (Some e, c\<lparr>cout := cout c @ take k bs, wres := ws\<rparr>))"

text \<open>\<open>io.ReadFull\<close> on the connection, then the rest of the handler, or the wrapped error.\<close>

definition reading ::
  "nat \<Rightarrow> string \<Rightarrow> client \<Rightarrow> (bytes \<Rightarrow> client \<Rightarrow> (go_error + 'a) \<times> client)
     \<Rightarrow> (go_error + 'a) \<times> client" where
  "reading n what c k =
    (case ReadFull n (cend c) (cin c) of
       (Inl e, r) \<Rightarrow> (Inl (Wrapped what [e]), c\<lparr>cin := r\<rparr>)
     | (Inr xs, r) \<Rightarrow> k xs (c\<lparr>cin := r\<rparr>))"

definition SetDeadline :: "nanos option \<Rightarrow> client \<Rightarrow> client" where
  "SetDeadline t c = c\<lparr>cdl := t\<rparr>"

section \<open>The server\<close>

record AuthConfig =
  User :: string
  Pass :: string

record Server =
  srvAuth :: "AuthConfig option"
  maxConns :: int
  connTokens :: "nat option"
  activeConn :: int
  acceptedTotal :: u64
  connLimitRejectsTotal :: u64
  handshakeErrorsTotal :: u64
  requestErrorsTotal :: u64
  dialErrorsTotal :: u64
  connectSuccessTotal :: u64
  relayClosedTotal :: u64
  unsupportedCmdTotal :: u64

definition defaultMaxConcurrentConns :: int where
  "defaultMaxConcurrentConns = 2048"

definition clientCloseProbeInterval :: nanos where
  "clientCloseProbeInterval = millis 200"

text \<open>\<open>env\<close> is the value of \<open>SESSION_PROXY_SOCKS_MAX_CONNS\<close>, empty when it is not set.\<close>

definition resolveMaxConns :: "string \<Rightarrow> int \<Rightarrow> int" where
  "resolveMaxConns env configured =
    (if configured > 0 then configured
     else if env \<noteq> [] then
       (case parse_int64 env of
          None \<Rightarrow> defaultMaxConcurrentConns
        | Some n \<Rightarrow> if n \<le> 0 then 0 else n)
     else defaultMaxConcurrentConns)"

definition NewServer :: "string \<Rightarrow> AuthConfig option \<Rightarrow> int \<Rightarrow> Server" where
  "NewServer env auth cfgMax =
    (let m = resolveMaxConns env cfgMax in
     \<lparr>srvAuth = auth, maxConns = m, connTokens = (if m > 0 then Some 0 else None), activeConn = 0,
      acceptedTotal = 0, connLimitRejectsTotal = 0, handshakeErrorsTotal = 0,
      requestErrorsTotal = 0, dialErrorsTotal = 0, connectSuccessTotal = 0, relayClosedTotal = 0,
      unsupportedCmdTotal = 0\<rparr>)"

record Stats =
  ActiveConns :: int
  MaxConns :: int
  AcceptedTotal :: u64
  ConnLimitRejectsTotal :: u64
  HandshakeErrorsTotal :: u64
  RequestErrorsTotal :: u64
  DialErrorsTotal :: u64
  ConnectSuccessTotal :: u64
  RelayClosedTotal :: u64
  UnsupportedCmdTotal :: u64

definition server_stats :: "Server \<Rightarrow> Stats" where
  "server_stats s =
    \<lparr>ActiveConns = activeConn s, MaxConns = maxConns s, AcceptedTotal = acceptedTotal s,
     ConnLimitRejectsTotal = connLimitRejectsTotal s, HandshakeErrorsTotal = handshakeErrorsTotal s,
     RequestErrorsTotal = requestErrorsTotal s, DialErrorsTotal = dialErrorsTotal s,
     ConnectSuccessTotal = connectSuccessTotal s, RelayClosedTotal = relayClosedTotal s,
     UnsupportedCmdTotal = unsupportedCmdTotal s\<rparr>"

text \<open>The token channel holds one token per running handler; its capacity is \<open>maxConns\<close>.\<close>

definition tryAcquireConn :: "Server \<Rightarrow> bool \<times> Server" where
  "tryAcquireConn s =
    (case connTokens s of
       None \<Rightarrow> (True, s\<lparr>activeConn := to_i64 (activeConn s + 1)\<rparr>)
     | Some k \<Rightarrow>
         if int k < maxConns s
         then (True, s\<lparr>connTokens := Some (Suc k), activeConn := to_i64 (activeConn s + 1)\<rparr>)
         else (False, s))"

definition releaseConn :: "Server \<Rightarrow> Server" where
  "releaseConn s =
    (let s1 = (case connTokens s of
                 Some (Suc k) \<Rightarrow> s\<lparr>connTokens := Some k\<rparr>
               | _ \<Rightarrow> s)
     in s1\<lparr>activeConn := to_i64 (activeConn s1 - 1)\<rparr>)"

section \<open>The accept loop\<close>

text \<open>
  An error of \<open>Accept\<close> with the results of the \<open>Temporary\<close> and \<open>Timeout\<close> methods of its own type
  (\<open>None\<close>: the type has no such method, or is not a \<open>net.Error\<close>).
\<close>

record accept_error =
  aerr :: go_error
  aTemporary :: "bool option"
  aTimeout :: "bool option"

datatype accept_result = Accepted | AcceptFailed accept_error

definition isTemporaryAcceptError :: "accept_error \<Rightarrow> bool" where
  "isTemporaryAcceptError e =
    (if aTemporary e = Some True then True else if aTimeout e = Some True then True else False)"

text \<open>
  The accept loop with the handler goroutines it started: the local \<open>tempDelay\<close>, the number of
  handlers running, how many were ever started, and the loop's return value.
\<close>

record serve =
  srv :: Server
  tempDelay :: nanos
  workers :: nat
  started :: nat
  returned :: "go_error option"

text \<open>What one iteration did besides changing the state.\<close>

datatype accept_next = Spawned | Rejected | Slept nanos | Returned

definition next_delay :: "nanos \<Rightarrow> nanos" where
  "next_delay d =
    (if d = 0 then millis 5
     else let d2 = d * 2 in if d2 > seconds 1 then seconds 1 else d2)"

text \<open>One iteration of \<open>ServeContext\<close>; \<open>ctxErr\<close> is \<open>ctx.Err()\<close> at that point.\<close>

definition serve_iteration ::
  "go_error option \<Rightarrow> accept_result \<Rightarrow> serve \<Rightarrow> accept_next \<times> serve" where
  "serve_iteration ctxErr r s =
    (case r of
       AcceptFailed e \<Rightarrow>
         (case ctxErr of
            Some ce \<Rightarrow> (Returned, s\<lparr>returned := Some ce\<rparr>)
          | None \<Rightarrow>
              if isTemporaryAcceptError e
              then let d = next_delay (tempDelay s) in (Slept d, s\<lparr>tempDelay := d\<rparr>)
              else (Returned, s\<lparr>returned := Some (aerr e)\<rparr>))
     | Accepted \<Rightarrow>
         let s1 = s\<lparr>srv := (srv s)\<lparr>acceptedTotal := acceptedTotal (srv s) + 1\<rparr>, tempDelay := 0\<rparr>;
             (ok, v) = tryAcquireConn (srv s1)
         in if ok then (Spawned, s1\<lparr>srv := v, workers := Suc (workers s1), started := Suc (started s1)\<rparr>)
            else (Rejected, s1\<lparr>srv := v\<lparr>connLimitRejectsTotal := connLimitRejectsTotal v + 1\<rparr>\<rparr>))"

text \<open>
  The interleaved history of the loop and its handlers: an iteration (only while the loop runs), a
  handler adding to one of its counters, or a handler that ends and releases its connection.
\<close>

datatype handler_counter = HandshakeError | RequestError | DialError | ConnectSuccess | RelayClosed
  | UnsupportedCmd

primrec count :: "handler_counter \<Rightarrow> Server \<Rightarrow> Server" where
  "count HandshakeError s = s\<lparr>handshakeErrorsTotal := handshakeErrorsTotal s + 1\<rparr>"
| "count RequestError s = s\<lparr>requestErrorsTotal := requestErrorsTotal s + 1\<rparr>"
| "count DialError s = s\<lparr>dialErrorsTotal := dialErrorsTotal s + 1\<rparr>"
| "count ConnectSuccess s = s\<lparr>connectSuccessTotal := connectSuccessTotal s + 1\<rparr>"
| "count RelayClosed s = s\<lparr>relayClosedTotal := relayClosedTotal s + 1\<rparr>"
| "count UnsupportedCmd s = s\<lparr>unsupportedCmdTotal := unsupportedCmdTotal s + 1\<rparr>"

datatype serve_move = Iterate "go_error option" accept_result | Count handler_counter | Finish

definition serve_move :: "serve_move \<Rightarrow> serve \<Rightarrow> serve" where
  "serve_move m s =
    (case m of
       Iterate ce r \<Rightarrow> if returned s = None then snd (serve_iteration ce r s) else s
     | Count k \<Rightarrow> if 0 < workers s then s\<lparr>srv := count k (srv s)\<rparr> else s
     | Finish \<Rightarrow> (case workers s of
                   0 \<Rightarrow> s
                 | Suc n \<Rightarrow> s\<lparr>srv := releaseConn (srv s), workers := n\<rparr>))"

definition serve_run :: "serve_move list \<Rightarrow> serve \<Rightarrow> serve" where
  "serve_run ms s = fold serve_move ms s"

definition ServeContext_start :: "Server \<Rightarrow> serve" where
  "ServeContext_start v = \<lparr>srv = v, tempDelay = 0, workers = 0, started = 0, returned = None\<rparr>"

section \<open>Replies\<close>

definition sendAuthReply :: "byte \<Rightarrow> client \<Rightarrow> client" where
  "sendAuthReply status c = snd (client_write [1, status] c)"

definition sendReply :: "rep \<Rightarrow> Addr option \<Rightarrow> client \<Rightarrow> go_error option \<times> client" where
  "sendReply r bind c =
    (let b = (case bind of
                None \<Rightarrow> \<lparr>AType = AtypIPv4, IP = IPv4zero, ADomain = [], APort = 0\<rparr>
              | Some a \<Rightarrow> a)
     in case client_write [Version, rep_code r, 0] c of
          (Some e, c1) \<Rightarrow> (Some e, c1)
        | (None, c1) \<Rightarrow>
            (case WriteTo b of
               Inl e \<Rightarrow> (Some e, c1)
             | Inr w \<Rightarrow> client_write w c1))"

text \<open>
  \<open>err.(net.Error)\<close>: whether the error's own type is a \<open>net.Error\<close>, and then its \<open>Timeout()\<close>.
  \<open>EAGAIN\<close> and \<open>ETIMEDOUT\<close> (11 and 110 on Linux) are the error numbers that are timeouts.
\<close>

definition errno_timeout :: "errno \<Rightarrow> bool" where
  "errno_timeout n = (n = OtherErrno 11 \<or> n = OtherErrno 110)"

fun net_timeout :: "go_error \<Rightarrow> bool option" where
  "net_timeout TimeoutError = Some True"
| "net_timeout CtxDeadlineExceeded = Some True"
| "net_timeout (OpError t e) = Some t"
| "net_timeout (Errno n) = Some (errno_timeout n)"
| "net_timeout NetErrClosed = Some False"
| "net_timeout e = None"

fun first_some :: "'a option list \<Rightarrow> 'a option" where
  "first_some [] = None"
| "first_some (None # xs) = first_some xs"
| "first_some (Some x # xs) = Some x"

text \<open>\<open>errors.As\<close> for \<open>syscall.Errno\<close> and for \<open>net.Error\<close>: the first match, at any depth.\<close>

fun as_errno :: "go_error \<Rightarrow> errno option" where
  "as_errno (Errno n) = Some n"
| "as_errno (OpError t e) = as_errno e"
| "as_errno (Wrapped s es) = first_some (map as_errno es)"
| "as_errno e = None"

fun as_net_timeout :: "go_error \<Rightarrow> bool option" where
  "as_net_timeout (Wrapped s es) = first_some (map as_net_timeout es)"
| "as_net_timeout e = net_timeout e"

definition reply_for :: "go_error \<Rightarrow> rep" where
  "reply_for e =
    (let r = (if net_timeout e = Some True then RepTTLExpired else RepGeneralFailure) in
     case as_errno e of
       Some ECONNREFUSED \<Rightarrow> RepConnectionRefused
     | Some ENETUNREACH \<Rightarrow> RepNetworkUnreachable
     | Some EHOSTUNREACH \<Rightarrow> RepHostUnreachable
     | _ \<Rightarrow> r)"

definition sendReplyError :: "go_error \<Rightarrow> client \<Rightarrow> client" where
  "sendReplyError e c = snd (sendReply (reply_for e) None c)"

section \<open>Negotiation\<close>

text \<open>A loop over the offered methods that stops at the first match.\<close>

fun has_method :: "byte \<Rightarrow> bytes \<Rightarrow> bool" where
  "has_method m [] = False"
| "has_method m (x # xs) = (if x = m then True else has_method m xs)"

definition authenticateUserPass :: "AuthConfig \<Rightarrow> client \<Rightarrow> (go_error + unit) \<times> client" where
  "authenticateUserPass a c =
    reading 2 ''read auth header: '' c (\<lambda>h c1.
      if h ! 0 \<noteq> 1 then (Inl (Wrapped ''unsupported auth version'' []), sendAuthReply 1 c1)
      else let ulen = unat (h ! 1) in
        if ulen = 0 \<or> 255 < ulen
        then (Inl (Wrapped ''invalid username length'' []), sendAuthReply 1 c1)
        else reading ulen ''read username: '' c1 (\<lambda>username c2.
          reading 1 ''read password length: '' c2 (\<lambda>pl c3.
            let plen = unat (pl ! 0);
                verify = (\<lambda>password c4.
                  if bytes_str username \<noteq> User a \<or> bytes_str password \<noteq> Pass a
                  then (Inl (Wrapped ''authentication failed'' []), sendAuthReply 1 c4)
                  else (Inr (), sendAuthReply 0 c4))
            in if 0 < plen then reading plen ''read password: '' c3 verify
               else verify [] c3)))"

definition auth_required :: "AuthConfig option \<Rightarrow> bool" where
  "auth_required auth = (case auth of None \<Rightarrow> False | Some a \<Rightarrow> User a \<noteq> [])"

definition handshake_socks :: "AuthConfig option \<Rightarrow> client \<Rightarrow> (go_error + unit) \<times> client" where
  "handshake_socks auth c =
    reading 2 ''read header: '' c (\<lambda>h c1.
      if h ! 0 \<noteq> Version then (Inl (Wrapped ''unsupported version'' []), c1)
      else reading (unat (h ! 1)) ''read methods: '' c1 (\<lambda>methods c2.
        if auth_required auth then
          if \<not> has_method MethodUserPass methods
          then (Inl (Wrapped ''client does not support username/password auth'' []),
                snd (client_write [Version, MethodNoAcceptable] c2))
          else (case client_write [Version, MethodUserPass] c2 of
                  (Some e, c3) \<Rightarrow> (Inl e, c3)
                | (None, c3) \<Rightarrow> authenticateUserPass (the auth) c3)
        else
          if \<not> has_method MethodNoAuth methods
          then (Inl (Wrapped ''no acceptable auth method'' []),
                snd (client_write [Version, MethodNoAcceptable] c2))
          else (case client_write [Version, MethodNoAuth] c2 of
                  (Some e, c3) \<Rightarrow> (Inl e, c3)
                | (None, c3) \<Rightarrow> (Inr (), c3))))"

record Request =
  Cmd :: byte
  ReqAddr :: Addr

definition readRequest :: "client \<Rightarrow> (go_error + Request) \<times> client" where
  "readRequest c =
    reading 3 ''read request header: '' c (\<lambda>h c1.
      if h ! 0 \<noteq> Version then (Inl (Wrapped ''unsupported version'' []), c1)
      else (case ReadAddr (cend c1) (cin c1) of
              (Inl e, r) \<Rightarrow>
                (Inl (Wrapped ''read address: '' [e]),
                 snd (sendReply RepAddressNotSupported None (c1\<lparr>cin := r\<rparr>)))
            | (Inr a, r) \<Rightarrow> (Inr \<lparr>Cmd = h ! 1, ReqAddr = a\<rparr>, c1\<lparr>cin := r\<rparr>)))"

end
