(* ===== verification/SocksConn.thy ===== *)
theory SocksConn
  imports SocksServer
begin

text \<open>
  One SOCKS5 connection from accept to close (\<open>handleConn\<close>, \<open>handleConnect\<close>, the disconnect watcher
  and \<open>relay\<close> of \<open>internal/socks5/server.go\<close>).  The dial function of the configuration is a
  parameter: it gets the context deadline, whether the watcher cancelled the context, and the
  target text.  Counters are the global ones of the server record.
\<close>

section \<open>Watching for a client that disconnects while dialling\<close>

definition isConnClosedError :: "go_error \<Rightarrow> bool" where
  "isConnClosedError e =
    (as_errno e = Some ECONNRESET \<or> as_errno e = Some EPIPE \<or> as_errno e = Some ENOTCONN
     \<or> e = NetErrClosed \<or> e = OtherError ''use of closed network connection'')"

text \<open>
  What one round of the watcher meets: the context done, a deadline that cannot be set, a byte to
  peek at, or an error of the peek.  The result says whether it cancelled the dial.
\<close>

datatype probe = CtxDone | DeadlineNotSet | Peeked | PeekFailed go_error

fun watchClientDisconnect :: "probe list \<Rightarrow> bool" where
  "watchClientDisconnect [] = False"
| "watchClientDisconnect (CtxDone # ps) = False"
| "watchClientDisconnect (DeadlineNotSet # ps) = False"
| "watchClientDisconnect (Peeked # ps) = False"
| "watchClientDisconnect (PeekFailed e # ps) =
    (if as_net_timeout e = Some True then watchClientDisconnect ps
     else errors_is e IoEOF \<or> errors_is e NetErrClosed \<or> isConnClosedError e)"

text \<open>
  The deadline of the dial context: at most 30 seconds from now, earlier if the base context ends
  earlier.
\<close>

definition newDialContext :: "nanos option \<Rightarrow> nanos \<Rightarrow> nanos \<Rightarrow> nanos" where
  "newDialContext base now timeout =
    (case base of None \<Rightarrow> now + timeout | Some t \<Rightarrow> min t (now + timeout))"

section \<open>Relaying\<close>

text \<open>
  The Go types a connection can have here, as far as the assertion to an interface with
  \<open>CloseWrite\<close> can tell: a \<open>*bufferedConn\<close> embeds only the interface \<open>net.Conn\<close>, so it never has
  that method, whatever connection it holds.
\<close>

datatype conn_type = TCPConn | BufferedConn conn_type | PlainConn | WithCloseWrite

fun has_close_write :: "conn_type \<Rightarrow> bool" where
  "has_close_write TCPConn = True"
| "has_close_write WithCloseWrite = True"
| "has_close_write PlainConn = False"
| "has_close_write (BufferedConn t) = False"

definition newBufferedConn :: "conn_type \<Rightarrow> conn_type" where
  "newBufferedConn t = BufferedConn t"

text \<open>
  The two copy loops.  A copied chunk was read from one side and written to the other; a loop ends
  with end of file (\<open>None\<close>) or an error, after having written \<open>bs\<close> of its last chunk.
\<close>

datatype relay_event =
    UpChunk bytes | UpEnd bytes "go_error option"
  | DownChunk bytes | DownEnd bytes "go_error option"

record copyResult =
  copied :: bytes
  copyEnd :: "go_error option option"

record relay =
  up :: copyResult
  down :: copyResult
  remoteShut :: bool
  clientShut :: bool

definition relay_start :: relay where
  "relay_start = \<lparr>up = \<lparr>copied = [], copyEnd = None\<rparr>, down = \<lparr>copied = [], copyEnd = None\<rparr>,
     remoteShut = False, clientShut = False\<rparr>"

definition relay_step :: "conn_type \<Rightarrow> conn_type \<Rightarrow> relay_event \<Rightarrow> relay \<Rightarrow> relay" where
  "relay_step client remote ev s =
    (case ev of
       UpChunk bs \<Rightarrow> if copyEnd (up s) = None then s\<lparr>up := (up s)\<lparr>copied := copied (up s) @ bs\<rparr>\<rparr> else s
     | UpEnd bs e \<Rightarrow> if copyEnd (up s) = None
         then s\<lparr>up := \<lparr>copied = copied (up s) @ bs, copyEnd = Some e\<rparr>,
                remoteShut := has_close_write remote\<rparr> else s
     | DownChunk bs \<Rightarrow> if copyEnd (down s) = None then s\<lparr>down := (down s)\<lparr>copied := copied (down s) @ bs\<rparr>\<rparr> else s
     | DownEnd bs e \<Rightarrow> if copyEnd (down s) = None
         then s\<lparr>down := \<lparr>copied = copied (down s) @ bs, copyEnd = Some e\<rparr>,
                clientShut := has_close_write client\<rparr> else s)"

definition relay_run :: "conn_type \<Rightarrow> conn_type \<Rightarrow> relay_event list \<Rightarrow> relay" where
  "relay_run client remote evs = fold (relay_step client remote) evs relay_start"

text \<open>\<open>wg.Wait()\<close> returns.\<close>

definition relay_done :: "relay \<Rightarrow> bool" where
  "relay_done s \<longleftrightarrow> copyEnd (up s) \<noteq> None \<and> copyEnd (down s) \<noteq> None"

section \<open>CONNECT\<close>

record remote =
  localAddr :: net_addr
  remoteType :: conn_type

type_synonym dialer = "nanos \<Rightarrow> bool \<Rightarrow> string \<Rightarrow> go_error + remote"

text \<open>
  Where a handler is after the given events: it has returned (the deferred calls close the
  connections), or its relay still waits for a copy loop.
\<close>

datatype handled = Closed | Relaying relay | RelayClosedWith relay

definition handleConnect ::
  "dialer \<Rightarrow> nanos option \<Rightarrow> nanos \<Rightarrow> probe list \<Rightarrow> relay_event list \<Rightarrow> conn_type \<Rightarrow> Request
     \<Rightarrow> client \<Rightarrow> Server \<Rightarrow> handled \<times> client \<times> Server" where
  "handleConnect dial base now probes evs ctype req c s =
    (let deadline = newDialContext base now (seconds 30);
         target = Addr_String (ReqAddr req);
         res = dial deadline (watchClientDisconnect probes) target;
         c1 = SetDeadline None c
     in case res of
          Inl e \<Rightarrow> (Closed, sendReplyError e c1, count DialError s)
        | Inr remote \<Rightarrow>
            (case sendReply RepSuccess (Some (AddrFromNetAddr (localAddr remote))) c1 of
               (Some e, c2) \<Rightarrow> (Closed, c2, s)
             | (None, c2) \<Rightarrow>
                 let s1 = count ConnectSuccess s; r = relay_run ctype (remoteType remote) evs in
                 if relay_done r then (RelayClosedWith r, c2, count RelayClosed s1)
                 else (Relaying r, c2, s1)))"

text \<open>
  \<open>t1\<close>, \<open>t2\<close> and \<open>t3\<close> are the readings of the clock before the handshake, the request and the
  dial.  The deferred \<open>conn.Close()\<close> runs when the handler returns.
\<close>

definition close_if_returned :: "handled \<times> client \<times> Server \<Rightarrow> handled \<times> client \<times> Server" where
  "close_if_returned r =
    (case r of
       (Relaying x, c, s) \<Rightarrow> (Relaying x, c, s)
     | (h, c, s) \<Rightarrow> (h, c\<lparr>cclosed := True\<rparr>, s))"

definition handleConn ::
  "dialer \<Rightarrow> nanos option \<Rightarrow> nanos \<Rightarrow> nanos \<Rightarrow> nanos \<Rightarrow> probe list \<Rightarrow> relay_event list \<Rightarrow> conn_type
     \<Rightarrow> client \<Rightarrow> Server \<Rightarrow> handled \<times> client \<times> Server" where
  "handleConn dial base t1 t2 t3 probes evs ctype c s =
    close_if_returned
     (case handshake_socks (srvAuth s) (SetDeadline (Some (t1 + seconds 10)) c) of
        (Inl e, c1) \<Rightarrow> (Closed, c1, count HandshakeError s)
      | (Inr _, c1) \<Rightarrow>
          (case readRequest (SetDeadline (Some (t2 + seconds 10)) c1) of
             (Inl e, c2) \<Rightarrow> (Closed, c2, count RequestError s)
           | (Inr req, c2) \<Rightarrow>
               let c3 = SetDeadline None c2 in
               if Cmd req = CmdConnect
               then handleConnect dial base t3 probes evs (newBufferedConn ctype) req c3 s
               else (Closed, snd (sendReply RepCommandNotSupported None c3), count UnsupportedCmd s)))"

end
