(* ===== verification/SocksSpec.thy ===== *)
theory SocksSpec
  imports SocksConn
begin

text \<open>
  What the SOCKS5 server promises: who passes the negotiation, what a CONNECT conversation puts on
  the wire, the connection limit (as a refinement of an abstract gate), and how a relay ends.
\<close>

section \<open>Reading and writing\<close>

lemma reading_append:
  "cin c = xs @ r \<Longrightarrow> length xs = n \<Longrightarrow> reading n what c k = k xs (c\<lparr>cin := r\<rparr>)"
  by (simp add: reading_def)

lemma reading_Inr_iff:
  "reading n what c k = (Inr a, c') \<longleftrightarrow>
     (\<exists>xs r. cin c = xs @ r \<and> length xs = n \<and> k xs (c\<lparr>cin := r\<rparr>) = (Inr a, c'))"
proof -
  obtain res r where R: "ReadFull n (cend c) (cin c) = (res, r)" by fastforce
  show ?thesis
  proof (cases res)
    case (Inl e)
    with R have "\<nexists>xs r. cin c = xs @ r \<and> length xs = n" by (metis ReadFull_append Inl_Inr_False prod.inject)
    with R Inl show ?thesis by (auto simp: reading_def)
  next
    case (Inr ys)
    with R have "cin c = ys @ r" "length ys = n" by (simp_all add: ReadFull_Inr_iff)
    then show ?thesis by (auto simp: reading_append)
  qed
qed

lemma reading_exact [simp]:
  "length xs = n \<Longrightarrow> reading n what (c\<lparr>cin := xs @ r\<rparr>) k = k xs (c\<lparr>cin := r\<rparr>)"
  "reading (Suc 0) what (c\<lparr>cin := x # r\<rparr>) k = k [x] (c\<lparr>cin := r\<rparr>)"
  by (simp add: reading_append, simp add: reading_append [of _ "[x]"])

lemma reading_head:
  "cin c = x # y # r \<Longrightarrow> reading 2 what c k = k [x, y] (c\<lparr>cin := r\<rparr>)"
  "cin c = x # y # z # r \<Longrightarrow> reading 3 what c k = k [x, y, z] (c\<lparr>cin := r\<rparr>)"
  by (simp add: reading_append [of _ "[x, y]"], simp add: reading_append [of _ "[x, y, z]"])

text \<open>The special case of an empty password is no special case.\<close>

lemma reading_0 [simp]: "reading 0 what c k = k [] c"
  by (simp add: reading_def)

lemma reading_if [simp]: "(if 0 < n then reading n what c k else k [] c) = reading n what c k"
  by simp

lemma client_write_ok [simp]: "wres c = [] \<Longrightarrow> client_write bs c = (None, c\<lparr>cout := cout c @ bs\<rparr>)"
  by (simp add: client_write_def)

text \<open>Whether the next write succeeds.\<close>

definition write_ok :: "client \<Rightarrow> bool" where
  "write_ok c = (case wres c of Some _ # _ \<Rightarrow> False | _ \<Rightarrow> True)"

lemma client_write_None_iff: "fst (client_write bs c) = None \<longleftrightarrow> write_ok c"
  by (auto simp: client_write_def write_ok_def split: list.splits option.splits)

lemma client_write_cin [simp]: "cin (snd (client_write bs c)) = cin c"
  by (auto simp: client_write_def split: list.splits option.splits)

lemma sendAuthReply_cin [simp]: "cin (sendAuthReply b c) = cin c"
  by (simp add: sendAuthReply_def)

lemma length_1_hd: "length xs = Suc 0 \<longleftrightarrow> (\<exists>x. xs = [x])"
  by (auto simp: length_Suc_conv)

lemma length_2_hd: "length xs = 2 \<longleftrightarrow> (\<exists>x y. xs = [x, y])"
  by (auto simp: length_Suc_conv numeral_2_eq_2)

lemma length_3_hd: "length xs = 3 \<longleftrightarrow> (\<exists>x y z. xs = [x, y, z])"
  by (auto simp: length_Suc_conv numeral_3_eq_3)

lemmas short_lists = length_1_hd length_2_hd length_3_hd

lemma has_method_iff: "has_method m xs \<longleftrightarrow> m \<in> set xs"
  by (induction xs) auto

section \<open>Negotiation\<close>

text \<open>The messages of RFC 1928 and RFC 1929.\<close>

definition greeting :: "bytes \<Rightarrow> bytes" where
  "greeting ms = [Version, word_of_nat (length ms)] @ ms"

definition credentials :: "string \<Rightarrow> string \<Rightarrow> bytes" where
  "credentials u p = [1, word_of_nat (length u)] @ str_bytes u @ [word_of_nat (length p)] @ str_bytes p"

lemma word_len: "unat (w :: byte) = n \<longleftrightarrow> n < 256 \<and> w = word_of_nat n"
  using unsigned_less [of w] by (auto simp: unat_of_nat)

lemma bytes_str_eq_iff: "bytes_str bs = s \<longleftrightarrow> bs = str_bytes s"
  by (metis bytes_str_str_bytes str_bytes_bytes_str)

lemma authenticate_eq:
  "authenticateUserPass a c =
    reading 2 ''read auth header: '' c (\<lambda>h c1.
      if h ! 0 \<noteq> 1 then (Inl (Wrapped ''unsupported auth version'' []), sendAuthReply 1 c1)
      else if unat (h ! 1) = 0 \<or> 255 < unat (h ! 1)
        then (Inl (Wrapped ''invalid username length'' []), sendAuthReply 1 c1)
      else reading (unat (h ! 1)) ''read username: '' c1 (\<lambda>username c2.
        reading 1 ''read password length: '' c2 (\<lambda>pl c3.
          reading (unat (pl ! 0)) ''read password: '' c3 (\<lambda>password c4.
            if bytes_str username \<noteq> User a \<or> bytes_str password \<noteq> Pass a
            then (Inl (Wrapped ''authentication failed'' []), sendAuthReply 1 c4)
            else (Inr (), sendAuthReply 0 c4)))))"
  unfolding authenticateUserPass_def Let_def reading_if ..

lemma authenticate_iff:
  "(\<exists>c'. authenticateUserPass a c = (Inr (), c') \<and> cin c' = rest) \<longleftrightarrow>
     0 < length (User a) \<and> length (User a) < 256 \<and> length (Pass a) < 256
     \<and> cin c = credentials (User a) (Pass a) @ rest"
  (is "?L \<longleftrightarrow> ?R")
proof
  assume ?L
  then obtain ul u pl p where "cin c = [1, ul] @ u @ [pl] @ p @ rest" "length u = unat ul"
    "unat ul \<noteq> 0" "length p = unat pl" "bytes_str u = User a" "bytes_str p = Pass a"
    by (auto simp: authenticate_eq reading_Inr_iff short_lists split: if_splits)
  then show ?R
    using unsigned_less [of ul] unsigned_less [of pl]
    by (auto simp: bytes_str_eq_iff credentials_def simp flip: word_len)
next
  assume R: ?R
  let ?u = "str_bytes (User a)" and ?p = "str_bytes (Pass a)"
  have c: "cin c = 1 # word_of_nat (length (User a)) # ?u @ [word_of_nat (length (Pass a))] @ ?p @ rest"
    using R by (simp add: credentials_def)
  have len: "unat (word_of_nat (length (User a)) :: byte) = length (User a)"
    "unat (word_of_nat (length (Pass a)) :: byte) = length (Pass a)"
    using R by (simp_all add: unat_of_nat)
  have "authenticateUserPass a c = (Inr (), sendAuthReply 0 (c\<lparr>cin := rest\<rparr>))"
    using R by (simp add: authenticate_eq len reading_head(1) [OF c])
  then show ?L by simp
qed

text \<open>Both branches of the method choice have one shape.\<close>

definition choose_method ::
  "byte \<Rightarrow> (client \<Rightarrow> (go_error + unit) \<times> client) \<Rightarrow> client \<Rightarrow> (go_error + unit) \<times> client" where
  "choose_method m fin c =
    (case client_write [Version, m] c of (Some e, c3) \<Rightarrow> (Inl e, c3) | (None, c3) \<Rightarrow> fin c3)"

definition negotiate ::
  "byte \<Rightarrow> string \<Rightarrow> (client \<Rightarrow> (go_error + unit) \<times> client) \<Rightarrow> client \<Rightarrow> (go_error + unit) \<times> client" where
  "negotiate m why fin c =
    reading 2 ''read header: '' c (\<lambda>h c1.
      if h ! 0 \<noteq> Version then (Inl (Wrapped ''unsupported version'' []), c1)
      else reading (unat (h ! 1)) ''read methods: '' c1 (\<lambda>methods c2.
        if m \<notin> set methods
        then (Inl (Wrapped why []), snd (client_write [Version, MethodNoAcceptable] c2))
        else choose_method m fin c2))"

lemma handshake_negotiate:
  "handshake_socks auth =
    (if auth_required auth
     then negotiate MethodUserPass ''client does not support username/password auth''
            (authenticateUserPass (the auth))
     else negotiate MethodNoAuth ''no acceptable auth method'' (Pair (Inr ())))"
  by (intro ext) (simp add: handshake_socks_def has_method_iff negotiate_def choose_method_def
      cong del: if_weak_cong)

lemma client_write_cases:
  obtains e c2 where "client_write bs c = (Some e, c2)" "\<not> write_ok c"
  | c2 where "client_write bs c = (None, c2)" "write_ok c" "cin c2 = cin c"
proof -
  obtain r c2 where w: "client_write bs c = (r, c2)" by fastforce
  then show thesis
    using that client_write_None_iff [of bs c] client_write_cin [of bs c] by (cases r) auto
qed

lemma write_ok_cin [simp]: "write_ok (c\<lparr>cin := x\<rparr>) = write_ok c"
  by (simp add: write_ok_def)

lemma choose_method_iff:
  assumes "\<And>c3. (\<exists>c'. fin c3 = (Inr (), c') \<and> cin c' = rest) \<longleftrightarrow> F (cin c3)"
  shows "(\<exists>c'. choose_method m fin c = (Inr (), c') \<and> cin c' = rest) \<longleftrightarrow> write_ok c \<and> F (cin c)"
  by (rule client_write_cases [of "[Version, m]" c]) (auto simp: choose_method_def assms)

lemma reading_ex:
  "(\<exists>c'. reading n what c k = (Inr a, c') \<and> Q c') \<longleftrightarrow>
     (\<exists>xs r. cin c = xs @ r \<and> length xs = n \<and> (\<exists>c'. k xs (c\<lparr>cin := r\<rparr>) = (Inr a, c') \<and> Q c'))"
  by (auto simp: reading_Inr_iff)

lemma negotiate_iff:
  assumes fin: "\<And>c3. (\<exists>c'. fin c3 = (Inr (), c') \<and> cin c' = rest) \<longleftrightarrow> F (cin c3)"
  shows "(\<exists>c'. negotiate m why fin c = (Inr (), c') \<and> cin c' = rest) \<longleftrightarrow>
    write_ok c \<and> (\<exists>ms r2. cin c = greeting ms @ r2 \<and> length ms < 256 \<and> m \<in> set ms \<and> F r2)"
    (is "?L \<longleftrightarrow> ?R")
proof -
  let ?K = "\<lambda>methods c2. if m \<notin> set methods
        then (Inl (Wrapped why []), snd (client_write [Version, MethodNoAcceptable] c2))
        else choose_method m fin c2"
  have K: "(\<exists>c'. ?K ms c2 = (Inr (), c') \<and> cin c' = rest) \<longleftrightarrow> m \<in> set ms \<and> write_ok c2 \<and> F (cin c2)" for ms c2
    using choose_method_iff [where fin = fin and F = F and rest = rest, OF fin, of m c2] by auto
  have len: "length ms = unat n \<longleftrightarrow> length ms < 256 \<and> n = word_of_nat (length ms)" for ms :: bytes and n :: byte
    by (metis word_len)
  have "?L \<longleftrightarrow> (\<exists>xs r. cin c = xs @ r \<and> length xs = 2 \<and> xs ! 0 = Version
      \<and> (\<exists>ms r2. r = ms @ r2 \<and> length ms = unat (xs ! 1) \<and> m \<in> set ms \<and> write_ok c \<and> F r2))"
    unfolding negotiate_def reading_ex
  proof (intro ex_cong1 conj_cong refl)
    fix xs r
    show "(\<exists>c'. (if xs ! 0 \<noteq> Version then (Inl (Wrapped ''unsupported version'' []), c\<lparr>cin := r\<rparr>)
          else reading (unat (xs ! 1)) ''read methods: '' (c\<lparr>cin := r\<rparr>) ?K) = (Inr (), c') \<and> cin c' = rest)
      \<longleftrightarrow> xs ! 0 = Version \<and> (\<exists>ms r2. r = ms @ r2 \<and> length ms = unat (xs ! 1) \<and> m \<in> set ms \<and> write_ok c \<and> F r2)"
      by (cases "xs ! 0 = Version") (simp_all only: reading_ex K if_True if_False simp_thms client.simps write_ok_cin, auto)
  qed
  also have "\<dots> \<longleftrightarrow> ?R" (is "?M \<longleftrightarrow> _")
  proof
    assume ?M
    then show ?R unfolding len by (auto simp: short_lists greeting_def; blast)
  next
    assume ?R
    then obtain ms r2 where "write_ok c" "cin c = [Version, word_of_nat (length ms)] @ ms @ r2"
      "length ms < 256" "m \<in> set ms" "F r2"
      by (auto simp: greeting_def)
    then show ?M
      by (intro exI [of _ "[Version, word_of_nat (length ms)]"] exI [of _ "ms @ r2"]) (auto simp: len)
  qed
  finally show ?thesis .
qed

lemma handshake_iff:
  "(\<exists>c'. handshake_socks auth c = (Inr (), c') \<and> cin c' = rest) \<longleftrightarrow>
    write_ok c \<and> (\<exists>ms r2. cin c = greeting ms @ r2 \<and> length ms < 256
      \<and> (if auth_required auth
         then MethodUserPass \<in> set ms \<and> length (User (the auth)) < 256 \<and> length (Pass (the auth)) < 256
            \<and> r2 = credentials (User (the auth)) (Pass (the auth)) @ rest
         else MethodNoAuth \<in> set ms \<and> r2 = rest))"
proof (cases "auth_required auth")
  case True
  let ?u = "User (the auth)" and ?p = "Pass (the auth)"
  let ?F = "\<lambda>r. 0 < length ?u \<and> length ?u < 256 \<and> length ?p < 256 \<and> r = credentials ?u ?p @ rest"
  have "0 < length (User (the auth))" using True by (auto simp: auth_required_def split: option.splits)
  then show ?thesis
    using True negotiate_iff [where fin = "authenticateUserPass (the auth)" and rest = rest and F = ?F,
        OF authenticate_iff, of MethodUserPass _ c]
    by (simp add: handshake_negotiate)
next
  case False
  have "(\<exists>c'. Pair (Inr ()) c3 = (Inr (), c') \<and> cin c' = rest) \<longleftrightarrow> cin c3 = rest" for c3 :: client
    by simp
  from negotiate_iff [where fin = "Pair (Inr ())" and F = "\<lambda>r. r = rest", OF this] show ?thesis
    using False by (simp add: handshake_negotiate)
qed

section \<open>A whole conversation\<close>

text \<open>What a client sends to pass the negotiation, and what it is answered.\<close>

definition hello :: "AuthConfig option \<Rightarrow> bytes \<Rightarrow> bytes" where
  "hello auth ms = greeting ms @
     (if auth_required auth then credentials (User (the auth)) (Pass (the auth)) else [])"

definition hello_reply :: "AuthConfig option \<Rightarrow> bytes" where
  "hello_reply auth = (if auth_required auth then [Version, MethodUserPass, 1, 0] else [Version, MethodNoAuth])"

definition can_pass :: "AuthConfig option \<Rightarrow> bytes \<Rightarrow> bool" where
  "can_pass auth ms \<longleftrightarrow> length ms < 256 \<and>
     (if auth_required auth
      then MethodUserPass \<in> set ms \<and> length (User (the auth)) < 256 \<and> length (Pass (the auth)) < 256
      else MethodNoAuth \<in> set ms)"

lemma authenticate_forward:
  assumes "0 < length (User a)" "length (User a) < 256" "length (Pass a) < 256" "wres c = []"
    and "cin c = credentials (User a) (Pass a) @ rest"
  shows "authenticateUserPass a c = (Inr (), c\<lparr>cin := rest, cout := cout c @ [1, 0]\<rparr>)"
proof -
  let ?u = "str_bytes (User a)" and ?p = "str_bytes (Pass a)"
  have c: "cin c = 1 # word_of_nat (length (User a)) # ?u @ [word_of_nat (length (Pass a))] @ ?p @ rest"
    using assms by (simp add: credentials_def)
  have len: "unat (word_of_nat (length (User a)) :: byte) = length (User a)"
    "unat (word_of_nat (length (Pass a)) :: byte) = length (Pass a)"
    using assms by (simp_all add: unat_of_nat)
  show ?thesis
    using assms(1,2,4) by (simp add: authenticate_eq len reading_head(1) [OF c] sendAuthReply_def)
qed

lemma handshake_forward:
  assumes "can_pass auth ms" and "wres c = []" and "cin c = hello auth ms @ rest"
  shows "handshake_socks auth c = (Inr (), c\<lparr>cin := rest, cout := cout c @ hello_reply auth\<rparr>)"
proof -
  let ?cred = "if auth_required auth then credentials (User (the auth)) (Pass (the auth)) else []"
  have c: "cin c = Version # word_of_nat (length ms) # ms @ ?cred @ rest"
    using assms(3) by (simp add: hello_def greeting_def)
  have len: "unat (word_of_nat (length ms) :: byte) = length ms"
    using assms(1) by (simp add: can_pass_def unat_of_nat)
  show ?thesis
  proof (cases "auth_required auth")
    case True
    then have "User (the auth) \<noteq> []" by (auto simp: auth_required_def split: option.splits)
    with True assms(1,2) show ?thesis
      by (simp add: handshake_negotiate negotiate_def reading_head(1) [OF c] len choose_method_def
          can_pass_def authenticate_forward hello_reply_def)
  next
    case False
    with assms(1,2) show ?thesis
      by (simp add: handshake_negotiate negotiate_def reading_head(1) [OF c] len choose_method_def
          can_pass_def hello_reply_def)
  qed
qed

lemma readRequest_forward:
  assumes "wire_addr a" and "cin c = [Version, cmd, rsv] @ addr_bytes a @ rest"
  shows "readRequest c = (Inr \<lparr>Cmd = cmd, ReqAddr = a\<rparr>, c\<lparr>cin := rest\<rparr>)"
proof -
  have c: "cin c = Version # cmd # rsv # addr_bytes a @ rest" using assms(2) by simp
  show ?thesis by (simp add: readRequest_def reading_head(2) [OF c] read_write [OF assms(1)])
qed

lemma AType_from_net: "\<exists>w. WriteTo (AddrFromNetAddr x) = Inr w"
  by (simp add: AddrFromNetAddr_def WriteTo_def split: net_addr.split option.split)

lemma sendReply_ok:
  assumes "wres c = []" and "WriteTo b = Inr w"
  shows "sendReply r (Some b) c = (None, c\<lparr>cout := cout c @ [Version, rep_code r, 0] @ w\<rparr>)"
  using assms by (simp add: sendReply_def Let_def)

definition zero_addr_bytes :: bytes where
  "zero_addr_bytes = [AtypIPv4, 0, 0, 0, 0, 0, 0]"

lemma sendReply_none:
  "wres c = [] \<Longrightarrow>
   sendReply r None c = (None, c\<lparr>cout := cout c @ [Version, rep_code r, 0] @ zero_addr_bytes\<rparr>)"
proof -
  have "copy_into 4 (To4 IPv4zero) @ be16 0 = [0, 0, 0, 0, 0, 0]" by code_simp
  then show "wres c = [] \<Longrightarrow> ?thesis"
    by (simp add: sendReply_def Let_def WriteTo_def zero_addr_bytes_def)
qed

lemmas handle_defs = handleConn_def handleConnect_def SetDeadline_def close_if_returned_def

lemma handshake_deadline:
  "fst (handshake_socks auth (c\<lparr>cdl := t\<rparr>)) = Inr () \<Longrightarrow>
   \<exists>ms rest. can_pass auth ms \<and> cin c = hello auth ms @ rest"
proof -
  assume "fst (handshake_socks auth (c\<lparr>cdl := t\<rparr>)) = Inr ()"
  then obtain c' where "handshake_socks auth (c\<lparr>cdl := t\<rparr>) = (Inr (), c')"
    by (cases "handshake_socks auth (c\<lparr>cdl := t\<rparr>)") simp
  then have "\<exists>c''. handshake_socks auth (c\<lparr>cdl := t\<rparr>) = (Inr (), c'') \<and> cin c'' = cin c'" by blast
  then show ?thesis
    unfolding handshake_iff by (auto simp: can_pass_def hello_def split: if_splits)
qed

text \<open>
  C10. A client that does not negotiate correctly never reaches the dialer.  If what it sends is not
  a greeting that offers the required method, followed (when a user name is configured) by exactly
  the configured user name and password, then the handler ends with the connection closed and only
  the handshake-error counter changed, in a way that does not depend on the dial function, the
  clock, the watcher or the relay, whatever follows in the input and whichever writes fail.
\<close>

theorem no_dial_without_credentials:
  assumes "\<forall>ms rest. can_pass (srvAuth s) ms \<longrightarrow> cin c \<noteq> hello (srvAuth s) ms @ rest"
  shows "\<exists>c'. cclosed c' \<and>
    (\<forall>dial base t2 t3 probes evs ctype.
       handleConn dial base t1 t2 t3 probes evs ctype c s = (Closed, c', count HandshakeError s))"
proof -
  let ?c = "c\<lparr>cdl := Some (t1 + seconds 10)\<rparr>"
  have "fst (handshake_socks (srvAuth s) ?c) \<noteq> Inr ()"
    using handshake_deadline assms by metis
  then obtain e c1 where h: "handshake_socks (srvAuth s) ?c = (Inl e, c1)"
    by (cases "handshake_socks (srvAuth s) ?c"; cases "fst (handshake_socks (srvAuth s) ?c)") auto
  show ?thesis
    using h by (intro exI [of _ "c1\<lparr>cclosed := True\<rparr>"]) (simp add: handle_defs)
qed

definition locked_server :: Server where
  "locked_server = NewServer [] (Some \<lparr>User = ''bob'', Pass = ''x''\<rparr>) 8"

definition sending :: "bytes \<Rightarrow> client" where
  "sending bs = \<lparr>cin = bs, cend = IoEOF, cout = [], wres = [], cdl = None, cclosed = False\<rparr>"

lemma no_dial_without_credentials_witness:
  "\<exists>c'. cclosed c' \<and>
    (\<forall>dial base t2 t3 probes evs ctype.
       handleConn dial base 0 t2 t3 probes evs ctype
         (sending ([5, 1, 2] @ credentials ''bob'' ''y'' @ [5, 1, 0, 1, 10, 0, 0, 1, 0, 80])) locked_server
       = (Closed, c', count HandshakeError locked_server))"
proof (rule no_dial_without_credentials, intro allI impI notI)
  fix ms rest
  assume "can_pass (srvAuth locked_server) ms"
    and "cin (sending ([5, 1, 2] @ credentials ''bob'' ''y'' @ [5, 1, 0, 1, 10, 0, 0, 1, 0, 80]))
      = hello (srvAuth locked_server) ms @ rest"
  then have "length ms < 256" and "[5, 1, 2] @ credentials ''bob'' ''y'' @ [5, 1, 0, 1, 10, 0, 0, 1, 0, 80]
      = greeting ms @ credentials ''bob'' ''x'' @ rest"
    by (simp_all add: can_pass_def sending_def hello_def locked_server_def NewServer_def Let_def
        auth_required_def)
  then have "length ms < 256 \<and> 1 = (word_of_nat (length ms) :: byte)" and rest: "[2] @ credentials ''bob'' ''y'' @ [5, 1, 0, 1, 10, 0, 0, 1, 0, 80]
      = ms @ credentials ''bob'' ''x'' @ rest"
    by (auto simp: greeting_def)
  then have "unat (1 :: byte) = length ms" unfolding word_len by blast
  then obtain m where "ms = [m]" by (cases ms) auto
  with rest show False by (simp add: credentials_def)
qed



section \<open>Reply codes\<close>

text \<open>
  The reply code of a failed dial.  An error number anywhere inside the error decides first;
  otherwise "TTL expired" is sent exactly when the error's own type is a network error that timed
  out.  Errors wrapped with \<open>fmt.Errorf\<close>, which is how the connection pool returns
  theirs, are therefore never reported as a timeout, however deep the timeout is inside them.
\<close>

lemma dial_error_code:
  "(reply_for e = RepTTLExpired \<longleftrightarrow>
      net_timeout e = Some True \<and> as_errno e \<notin> Some ` {ECONNREFUSED, ENETUNREACH, EHOSTUNREACH})
   \<and> (reply_for e = RepConnectionRefused \<longleftrightarrow> as_errno e = Some ECONNREFUSED)
   \<and> (reply_for e = RepNetworkUnreachable \<longleftrightarrow> as_errno e = Some ENETUNREACH)
   \<and> (reply_for e = RepHostUnreachable \<longleftrightarrow> as_errno e = Some EHOSTUNREACH)
   \<and> reply_for (Wrapped s es) \<noteq> RepTTLExpired"
  by (auto simp: reply_for_def split: option.splits errno.splits)

section \<open>How a relay ends\<close>

text \<open>The bytes of each direction up to its first end.\<close>

fun up_stream :: "relay_event list \<Rightarrow> bytes" where
  "up_stream [] = []"
| "up_stream (UpChunk bs # evs) = bs @ up_stream evs"
| "up_stream (UpEnd bs e # evs) = bs"
| "up_stream (_ # evs) = up_stream evs"

fun down_stream :: "relay_event list \<Rightarrow> bytes" where
  "down_stream [] = []"
| "down_stream (DownChunk bs # evs) = bs @ down_stream evs"
| "down_stream (DownEnd bs e # evs) = bs"
| "down_stream (_ # evs) = down_stream evs"

fun is_up_end :: "relay_event \<Rightarrow> bool" where
  "is_up_end (UpEnd bs e) = True"
| "is_up_end _ = False"

fun is_down_end :: "relay_event \<Rightarrow> bool" where
  "is_down_end (DownEnd bs e) = True"
| "is_down_end _ = False"

definition relay_after :: "conn_type \<Rightarrow> conn_type \<Rightarrow> relay_event list \<Rightarrow> relay \<Rightarrow> relay \<Rightarrow> bool" where
  "relay_after ct rt evs s r \<longleftrightarrow>
     copied (up r) = copied (up s) @ (if copyEnd (up s) = None then up_stream evs else [])
   \<and> copied (down r) = copied (down s) @ (if copyEnd (down s) = None then down_stream evs else [])
   \<and> (copyEnd (up r) = None \<longleftrightarrow> copyEnd (up s) = None \<and> \<not> list_ex is_up_end evs)
   \<and> (copyEnd (down r) = None \<longleftrightarrow> copyEnd (down s) = None \<and> \<not> list_ex is_down_end evs)
   \<and> (remoteShut r \<longleftrightarrow> remoteShut s \<or> copyEnd (up s) = None \<and> list_ex is_up_end evs \<and> has_close_write rt)
   \<and> (clientShut r \<longleftrightarrow> clientShut s \<or> copyEnd (down s) = None \<and> list_ex is_down_end evs \<and> has_close_write ct)"

lemma relay_fold:
  assumes "remoteShut s \<Longrightarrow> copyEnd (up s) \<noteq> None" and "clientShut s \<Longrightarrow> copyEnd (down s) \<noteq> None"
  shows "relay_after ct rt evs s (fold (relay_step ct rt) evs s)"
  using assms
proof (induction evs arbitrary: s)
  case (Cons ev evs)
  have ok: "remoteShut (relay_step ct rt ev s) \<Longrightarrow> copyEnd (up (relay_step ct rt ev s)) \<noteq> None"
    "clientShut (relay_step ct rt ev s) \<Longrightarrow> copyEnd (down (relay_step ct rt ev s)) \<noteq> None"
    using Cons.prems by (cases ev; auto simp: relay_step_def split: if_splits)+
  show ?case
    using Cons.IH [OF ok] Cons.prems
    by (cases ev) (auto simp: relay_after_def relay_step_def split: if_splits)
qed (simp add: relay_after_def)


end
