(* ===== verification/SocksLimit.thy ===== *)
theory SocksLimit
  imports SocksServer
begin

text \<open>
  The connection limit of the SOCKS5 server.  The interface between the accept loop and the token
  channel is the locale \<open>gatekeeper\<close>; the accept loop with its handlers, the counters and the
  tokens is shown to refine an abstract gate that only counts who is inside.
\<close>

section \<open>The interface\<close>

text \<open>
  \<open>holds n s\<close> says that \<open>s\<close> is a state with \<open>n\<close> admissions not yet released; \<open>capacity\<close> is how many
  may be held at once.
\<close>

definition below :: "nat \<Rightarrow> nat option \<Rightarrow> bool" where
  "below n lim = (case lim of None \<Rightarrow> True | Some l \<Rightarrow> n < l)"

lemma below_simps [simp]: "below n None" "below n (Some l) \<longleftrightarrow> n < l"
  by (simp_all add: below_def)

locale gatekeeper =
  fixes acquire :: "'s \<Rightarrow> bool \<times> 's"
    and release :: "'s \<Rightarrow> 's"
    and holds :: "nat \<Rightarrow> 's \<Rightarrow> bool"
    and capacity :: "'s \<Rightarrow> nat option"
  assumes admit: "holds n s \<Longrightarrow> below n (capacity s) \<Longrightarrow>
      \<exists>s'. acquire s = (True, s') \<and> holds (Suc n) s' \<and> capacity s' = capacity s"
    and refuse: "holds n s \<Longrightarrow> \<not> below n (capacity s) \<Longrightarrow> acquire s = (False, s)"
    and leave: "holds (Suc n) s \<Longrightarrow> holds n (release s) \<and> capacity (release s) = capacity s"
begin

lemma admits_iff: "holds n s \<Longrightarrow> fst (acquire s) \<longleftrightarrow> below n (capacity s)"
  using admit [of n s] refuse [of n s] by (cases "below n (capacity s)") auto

lemma acquire_capacity: "holds n s \<Longrightarrow> capacity (snd (acquire s)) = capacity s"
  using admit [of n s] refuse [of n s] by (cases "below n (capacity s)") auto

lemma acquire_holds:
  "holds n s \<Longrightarrow> holds (if below n (capacity s) then Suc n else n) (snd (acquire s))"
  using admit [of n s] refuse [of n s] by (cases "below n (capacity s)") auto

end

section \<open>The token channel provides it\<close>

definition server_capacity :: "Server \<Rightarrow> nat option" where
  "server_capacity v = (if maxConns v > 0 then Some (nat (maxConns v)) else None)"

definition server_holds :: "nat \<Rightarrow> Server \<Rightarrow> bool" where
  "server_holds n v \<longleftrightarrow> activeConn v = to_i64 (int n)
     \<and> connTokens v = (if maxConns v > 0 then Some n else None)"

lemma to_i64_cong_add: "to_i64 (to_i64 x + y) = to_i64 (x + y)" "to_i64 (y + to_i64 x) = to_i64 (y + x)"
  by (simp_all add: to_i64_def mod_simps algebra_simps)

interpretation tokens: gatekeeper tryAcquireConn releaseConn server_holds server_capacity
proof
  fix n v
  assume h: "server_holds n v" and b: "below n (server_capacity v)"
  then show "\<exists>s'. tryAcquireConn v = (True, s') \<and> server_holds (Suc n) s' \<and> server_capacity s' = server_capacity v"
    by (auto simp: server_holds_def tryAcquireConn_def server_capacity_def to_i64_cong_add add.commute
        split: option.splits if_splits)
next
  fix n v
  assume "server_holds n v" and "\<not> below n (server_capacity v)"
  then show "tryAcquireConn v = (False, v)"
    by (auto simp: server_holds_def tryAcquireConn_def server_capacity_def split: if_splits)
next
  fix n v
  assume "server_holds (Suc n) v"
  then show "server_holds n (releaseConn v) \<and> server_capacity (releaseConn v) = server_capacity v"
    using to_i64_cong_add(1) [of "1 + int n" "- 1"]
    by (auto simp: server_holds_def releaseConn_def server_capacity_def Let_def)
qed

lemma server_count_irrelevant [simp]:
  "server_holds n (count k v) = server_holds n v" "server_capacity (count k v) = server_capacity v"
  "acceptedTotal (count k v) = acceptedTotal v" "connLimitRejectsTotal (count k v) = connLimitRejectsTotal v"
  by (cases k; simp add: server_holds_def server_capacity_def)+

lemma server_other_fields [simp]:
  "server_holds n (v\<lparr>acceptedTotal := x\<rparr>) = server_holds n v"
  "server_holds n (v\<lparr>connLimitRejectsTotal := x\<rparr>) = server_holds n v"
  "server_capacity (v\<lparr>acceptedTotal := x\<rparr>) = server_capacity v"
  "server_capacity (v\<lparr>connLimitRejectsTotal := x\<rparr>) = server_capacity v"
  by (simp_all add: server_holds_def server_capacity_def)

lemma acquire_counters [simp]:
  "acceptedTotal (snd (tryAcquireConn v)) = acceptedTotal v"
  "connLimitRejectsTotal (snd (tryAcquireConn v)) = connLimitRejectsTotal v"
  "acceptedTotal (releaseConn v) = acceptedTotal v"
  "connLimitRejectsTotal (releaseConn v) = connLimitRejectsTotal v"
  by (auto simp: tryAcquireConn_def releaseConn_def Let_def split: option.splits nat.splits)

section \<open>The abstract gate\<close>

text \<open>
  The specification: who is inside, how many were ever admitted and refused, and whether the gate
  still takes newcomers.  It has no tokens, no counters of fixed width and no delays.
\<close>

record gate =
  inside :: nat
  admitted :: nat
  refused :: nat
  open_gate :: bool

definition gate_start :: gate where
  "gate_start = \<lparr>inside = 0, admitted = 0, refused = 0, open_gate = True\<rparr>"

definition gate_move :: "nat option \<Rightarrow> serve_move \<Rightarrow> gate \<Rightarrow> gate" where
  "gate_move lim m g =
    (case m of
       Iterate ce Accepted \<Rightarrow>
         if \<not> open_gate g then g
         else if below (inside g) lim
         then g\<lparr>inside := Suc (inside g), admitted := Suc (admitted g)\<rparr>
         else g\<lparr>refused := Suc (refused g)\<rparr>
     | Iterate ce (AcceptFailed e) \<Rightarrow>
         g\<lparr>open_gate := open_gate g \<and> ce = None \<and> isTemporaryAcceptError e\<rparr>
     | Count k \<Rightarrow> g
     | Finish \<Rightarrow> g\<lparr>inside := inside g - 1\<rparr>)"

text \<open>How the server state shows the gate.\<close>

definition shows_gate :: "nat option \<Rightarrow> gate \<Rightarrow> serve \<Rightarrow> bool" where
  "shows_gate lim g s \<longleftrightarrow>
     workers s = inside g \<and> started s = admitted g \<and> (returned s = None \<longleftrightarrow> open_gate g)
   \<and> server_holds (inside g) (srv s) \<and> server_capacity (srv s) = lim
   \<and> acceptedTotal (srv s) = of_nat (admitted g + refused g)
   \<and> connLimitRejectsTotal (srv s) = of_nat (refused g)
   \<and> (tempDelay s = 0 \<or> millis 5 \<le> tempDelay s \<and> tempDelay s \<le> seconds 1)"

lemma next_delay_range: "0 \<le> d \<Longrightarrow> d \<le> seconds 1 \<Longrightarrow> d = 0 \<or> millis 5 \<le> d \<Longrightarrow>
  millis 5 \<le> next_delay d \<and> next_delay d \<le> seconds 1"
  by (auto simp: next_delay_def Let_def)

lemma accept_shows:
  assumes "shows_gate lim g s" and "open_gate g"
  shows "shows_gate lim (gate_move lim (Iterate ce Accepted) g) (snd (serve_iteration ce Accepted s))"
proof -
  let ?v = "(srv s)\<lparr>acceptedTotal := acceptedTotal (srv s) + 1\<rparr>"
  have h: "server_holds (inside g) ?v" and c: "server_capacity ?v = lim"
    using assms(1) by (simp_all add: shows_gate_def)
  obtain ok v where t: "tryAcquireConn ?v = (ok, v)" by fastforce
  from tokens.admits_iff [OF h] tokens.acquire_holds [OF h] tokens.acquire_capacity [OF h] t c
  have "ok \<longleftrightarrow> below (inside g) lim" and "server_capacity v = lim"
    and "server_holds (if below (inside g) lim then Suc (inside g) else inside g) v"
    by simp_all
  moreover have "acceptedTotal v = acceptedTotal (srv s) + 1"
    and "connLimitRejectsTotal v = connLimitRejectsTotal (srv s)"
    using acquire_counters(1,2) [of ?v] t by simp_all
  ultimately show ?thesis
    using assms t by (auto simp: shows_gate_def serve_iteration_def gate_move_def Let_def)
qed

lemma failed_shows:
  assumes "shows_gate lim g s" and "open_gate g"
  shows "shows_gate lim (gate_move lim (Iterate ce (AcceptFailed e)) g)
           (snd (serve_iteration ce (AcceptFailed e) s))"
  using assms next_delay_range [of "tempDelay s"]
  by (auto simp: shows_gate_def serve_iteration_def gate_move_def Let_def split: option.splits)

lemma move_shows:
  assumes "shows_gate lim g s"
  shows "shows_gate lim (gate_move lim m g) (serve_move m s)"
proof (cases m)
  case (Iterate ce r)
  show ?thesis
  proof (cases "open_gate g")
    case True
    then have "returned s = None" using assms by (simp add: shows_gate_def)
    then show ?thesis
      using accept_shows [OF assms True] failed_shows [OF assms True] Iterate
      by (cases r) (simp_all add: serve_move_def)
  next
    case False
    then obtain e where "returned s = Some e" using assms by (auto simp: shows_gate_def)
    then show ?thesis
      using assms False Iterate by (cases r) (simp_all add: serve_move_def gate_move_def shows_gate_def)
  qed
next
  case (Count k)
  then show ?thesis using assms by (cases "workers s = 0") (auto simp: serve_move_def gate_move_def shows_gate_def)
next
  case Finish
  show ?thesis
  proof (cases "inside g")
    case 0
    then show ?thesis using assms Finish by (simp add: serve_move_def gate_move_def shows_gate_def)
  next
    case (Suc n)
    then have "server_holds (Suc n) (srv s)" using assms by (simp add: shows_gate_def)
    from tokens.leave [OF this] show ?thesis
      using assms Finish Suc by (simp add: serve_move_def gate_move_def shows_gate_def)
  qed
qed

lemma run_shows: "shows_gate lim g s \<Longrightarrow> shows_gate lim (fold (gate_move lim) ms g) (serve_run ms s)"
  unfolding serve_run_def by (induction ms arbitrary: g s) (auto intro: move_shows)

lemma start_shows:
  "shows_gate (server_capacity (NewServer env auth n)) gate_start (ServeContext_start (NewServer env auth n))"
  by (simp add: shows_gate_def gate_start_def ServeContext_start_def server_holds_def NewServer_def
      server_capacity_def Let_def to_i64_def)

lemma gate_bound: "inside g \<le> l \<Longrightarrow> inside (fold (gate_move (Some l)) ms g) \<le> l"
proof (induction ms arbitrary: g)
  case (Cons m ms)
  have "inside (gate_move (Some l) m g) \<le> l"
    using Cons.prems by (auto simp: gate_move_def split: serve_move.split accept_result.split)
  then show ?case using Cons.IH by simp
qed simp

text \<open>
  The capacity is the configured number if positive, otherwise that of the environment variable
  (where zero or less means no limit), and 2048 when the variable is missing or not a number.
\<close>

lemma capacity_resolved:
  "server_capacity (NewServer env auth n) =
      (if n > 0 then Some (nat n)
       else case parse_int64 env of None \<Rightarrow> Some 2048 | Some v \<Rightarrow> if v > 0 then Some (nat v) else None)"
  by (auto simp: server_capacity_def NewServer_def Let_def resolveMaxConns_def parse_int64_def
      parse_digits_def defaultMaxConcurrentConns_def split: option.splits)

section \<open>Properties\<close>

text \<open>
  C12. The accept loop with its handlers, counters and tokens implements the abstract gate: from a
  new server, after every history of accepted connections, accept errors, handler counts and
  finished handlers, the state shows exactly the state of the gate after the same history.  So a
  connection is admitted precisely when fewer handlers than the limit are running, refused
  connections take nothing, every finished handler makes room again, the loop stops on the first
  error that is not temporary or with the context done, \<open>Stats\<close> reports the true numbers (modulo
  the width of the counters), and the retry delay is never above one second.  A server with a limit
  never runs more handlers than that.
\<close>

theorem serve_refines_gate:
  "shows_gate (server_capacity (NewServer env auth n))
     (fold (gate_move (server_capacity (NewServer env auth n))) ms gate_start)
     (serve_run ms (ServeContext_start (NewServer env auth n)))
   \<and> (case server_capacity (NewServer env auth n) of
        None \<Rightarrow> True
      | Some l \<Rightarrow> workers (serve_run ms (ServeContext_start (NewServer env auth n))) \<le> l)"
    (is "shows_gate ?lim ?g ?s \<and> _")
proof -
  have sh: "shows_gate ?lim ?g ?s" by (rule run_shows [OF start_shows])
  have "inside (fold (gate_move (Some l)) ms gate_start) \<le> l" for l
    by (rule gate_bound) (simp add: gate_start_def)
  with sh show ?thesis by (auto simp: shows_gate_def split: option.split)
qed

end
