(* ===== verification/Settings.thy ===== *)
theory Settings
  imports Prelude
begin

text \<open>
  The configuration (\<open>internal/config/config.go\<close>, \<open>options.go\<close>): validation with its defaults,
  legacy mode, and the reload of the watched file.  \<open>Options.Upstreams\<close> and \<open>Config.Upstreams\<close> are
  maps to shared \<open>*Upstream\<close> pointers, and \<open>validate\<close> writes its defaults through them, so upstreams
  live in an explicit store.  Parsing of flags, environment and YAML (pflag, viper) is a parameter.
\<close>

section \<open>Data\<close>

record SSHConfig =
  SshUser :: string
  SshKey :: string

record AWSConfig =
  Profile :: string
  Region :: string
  AccessKey :: string
  SecretKey :: string

record Upstream =
  SSH :: SSHConfig
  AWS :: AWSConfig
  Instances :: "string list"

type_synonym upstream_ptr = nat

record store =
  cell :: "upstream_ptr \<Rightarrow> Upstream"
  next_ptr :: upstream_ptr

definition new_upstream :: "Upstream \<Rightarrow> store \<Rightarrow> upstream_ptr \<times> store" where
  "new_upstream u h = (next_ptr h, h\<lparr>cell := (cell h)(next_ptr h := u), next_ptr := Suc (next_ptr h)\<rparr>)"

definition set_upstream :: "upstream_ptr \<Rightarrow> Upstream \<Rightarrow> store \<Rightarrow> store" where
  "set_upstream p u h = h\<lparr>cell := (cell h)(p := u)\<rparr>"

record Route =
  RMatch :: string
  RUpstream :: string

record ConfigAuth =
  CAuthUser :: string
  CAuthPass :: string

record Config =
  Listen :: string
  DiagListen :: string
  CfgAuth :: "ConfigAuth option"
  Upstreams :: "(string, upstream_ptr) gomap"
  Routes :: "Route list"
  Default :: string
  SleepDetectionThreshold :: nanos

record Options =
  OConfigFile :: string
  ODebug :: bool
  OListen :: string
  ODiagListen :: string
  OAuth :: "ConfigAuth option"
  ODefault :: string
  OSleep :: nanos
  OUpstreams :: "(string, upstream_ptr) gomap"
  ORoutes :: "Route list"
  OTarget :: string
  ORegion :: string
  OSSHUser :: string
  OSSHKey :: string
  OAWSProfile :: string

section \<open>Validation\<close>

text \<open>The error, if any, and the AWS settings afterwards.\<close>

definition validateAWSConfig :: "AWSConfig \<Rightarrow> go_error option \<times> AWSConfig" where
  "validateAWSConfig aws =
    (let hasProfile = (Profile aws \<noteq> []);
         hasAccessKey = (AccessKey aws \<noteq> []);
         hasSecretKey = (SecretKey aws \<noteq> [])
     in if hasAccessKey \<noteq> hasSecretKey
        then (Some (Wrapped ''access_key and secret_key must be provided together'' []), aws)
        else if hasProfile \<and> hasAccessKey
        then (Some (Wrapped ''profile and access_key/secret_key are mutually exclusive'' []), aws)
        else if hasAccessKey \<and> Region aws = []
        then (Some (Wrapped ''region is required when using access_key/secret_key'' []), aws)
        else if \<not> hasProfile \<and> \<not> hasAccessKey then (None, aws\<lparr>Profile := ''default''\<rparr>)
        else (None, aws))"

text \<open>The loop over the upstreams, in the order the map iteration gives.\<close>

fun validate_upstreams :: "(string, upstream_ptr) gomap \<Rightarrow> store \<Rightarrow> go_error option \<times> store" where
  "validate_upstreams [] h = (None, h)"
| "validate_upstreams ((name, p) # m) h =
    (let up = cell h p in
     if Instances up = [] then (Some (Wrapped ''upstream has no instances'' []), h)
     else
       let up1 = (if SshUser (SSH up) = [] then up\<lparr>SSH := (SSH up)\<lparr>SshUser := ''root''\<rparr>\<rparr> else up);
           h1 = set_upstream p up1 h
       in (case validateAWSConfig (AWS up1) of
             (Some e, aws) \<Rightarrow> (Some e, h1)
           | (None, aws) \<Rightarrow> validate_upstreams m (set_upstream p (up1\<lparr>AWS := aws\<rparr>) h1)))"

fun validate_routes :: "(string, upstream_ptr) gomap \<Rightarrow> Route list \<Rightarrow> go_error option" where
  "validate_routes ups [] = None"
| "validate_routes ups (r # rs) =
    (if RMatch r = [] then Some (Wrapped ''route has no match pattern'' [])
     else if RUpstream r \<noteq> ''DIRECT'' \<and> map_of ups (RUpstream r) = None
     then Some (Wrapped ''route references unknown upstream'' [])
     else validate_routes ups rs)"

definition validate :: "Config \<Rightarrow> store \<Rightarrow> go_error option \<times> Config \<times> store" where
  "validate c h =
    (if Upstreams c = [] then (Some (Wrapped ''at least one upstream is required'' []), c, h)
     else case validate_upstreams (Upstreams c) h of
         (Some e, h1) \<Rightarrow> (Some e, c, h1)
       | (None, h1) \<Rightarrow>
           if Default c \<noteq> [] \<and> Default c \<noteq> ''DIRECT'' \<and> map_of (Upstreams c) (Default c) = None
           then (Some (Wrapped ''default upstream not found'' []), c, h1)
           else (case validate_routes (Upstreams c) (Routes c) of
                   Some e \<Rightarrow> (Some e, c, h1)
                 | None \<Rightarrow>
                     let c1 = (if Listen c = [] then c\<lparr>Listen := ''127.0.0.1:28881''\<rparr> else c);
                         c2 = (if SleepDetectionThreshold c1 \<le> 0
                               then c1\<lparr>SleepDetectionThreshold := seconds 60\<rparr> else c1)
                     in (None, c2, h1)))"

definition validated :: "go_error option \<times> Config \<times> store \<Rightarrow> (go_error + Config) \<times> store" where
  "validated r = (case r of (Some e, c, h) \<Rightarrow> (Inl e, h) | (None, c, h) \<Rightarrow> (Inr c, h))"

section \<open>Options\<close>

definition toLegacyConfig :: "Options \<Rightarrow> store \<Rightarrow> (go_error + Config) \<times> store" where
  "toLegacyConfig opt h =
    (if OTarget opt = [] then (Inl (Wrapped ''--target is required'' []), h)
     else
       let (p, h1) = new_upstream
             \<lparr>SSH = \<lparr>SshUser = OSSHUser opt, SshKey = OSSHKey opt\<rparr>,
              AWS = \<lparr>Profile = OAWSProfile opt, Region = ORegion opt, AccessKey = [], SecretKey = []\<rparr>,
              Instances = [OTarget opt]\<rparr> h
       in validated (validate
            \<lparr>Listen = OListen opt, DiagListen = ODiagListen opt, CfgAuth = OAuth opt,
             Upstreams = [(''default'', p)], Routes = [], Default = ''default'',
             SleepDetectionThreshold = OSleep opt\<rparr> h1))"

definition ToConfig :: "Options \<Rightarrow> store \<Rightarrow> (go_error + Config) \<times> store" where
  "ToConfig opt h =
    (if OTarget opt \<noteq> [] \<and> OUpstreams opt = [] then toLegacyConfig opt h
     else validated (validate
            \<lparr>Listen = OListen opt, DiagListen = ODiagListen opt, CfgAuth = OAuth opt,
             Upstreams = OUpstreams opt, Routes = ORoutes opt, Default = ODefault opt,
             SleepDetectionThreshold = OSleep opt\<rparr> h))"

definition applyAuthOverrides :: "string \<Rightarrow> string \<Rightarrow> Options \<Rightarrow> Options" where
  "applyAuthOverrides authUser authPass opt =
    (if authUser \<noteq> [] \<and> authPass \<noteq> []
     then opt\<lparr>OAuth := Some \<lparr>CAuthUser = authUser, CAuthPass = authPass\<rparr>\<rparr> else opt)"

text \<open>
  The keys rewritten before unmarshalling: the ones viper lists and the two that may come from the
  environment only, without repetition; and the environment keys themselves.
\<close>

definition envOnlyKeys :: "string list" where
  "envOnlyKeys = [''log_file'', ''sleep_detection_threshold'']"

fun unseen_keys :: "string set \<Rightarrow> string list \<Rightarrow> string list" where
  "unseen_keys seen [] = []"
| "unseen_keys seen (k # ks) =
    (if k \<in> seen then unseen_keys seen ks else k # unseen_keys (insert k seen) ks)"

definition rehydrateKeys :: "string list \<Rightarrow> string list" where
  "rehydrateKeys allKeys = unseen_keys {} (allKeys @ envOnlyKeys)"

lemma unseen_keys_set: "set (unseen_keys seen ks) = set ks - seen \<and> distinct (unseen_keys seen ks)"
  by (induction ks arbitrary: seen) auto

lemma rehydrateKeys_set:
  "set (rehydrateKeys ks) = set ks \<union> set envOnlyKeys" "distinct (rehydrateKeys ks)"
  using unseen_keys_set [of "{}" "ks @ envOnlyKeys"] by (simp_all add: rehydrateKeys_def)

text \<open>The loop over the indices of two lists already known to have the same length.\<close>

fun instances_equal :: "string list \<Rightarrow> string list \<Rightarrow> bool" where
  "instances_equal (a # as) (b # bs) = (if a \<noteq> b then False else instances_equal as bs)"
| "instances_equal _ _ = True"

definition upstreamsEqual :: "Upstream \<Rightarrow> Upstream \<Rightarrow> bool" where
  "upstreamsEqual a b =
    (if SshUser (SSH a) \<noteq> SshUser (SSH b) \<or> SshKey (SSH a) \<noteq> SshKey (SSH b) then False
     else if Profile (AWS a) \<noteq> Profile (AWS b) \<or> Region (AWS a) \<noteq> Region (AWS b)
          \<or> AccessKey (AWS a) \<noteq> AccessKey (AWS b) \<or> SecretKey (AWS a) \<noteq> SecretKey (AWS b) then False
     else if length (Instances a) \<noteq> length (Instances b) then False
     else instances_equal (Instances a) (Instances b))"

definition upstream_changed :: go_error where
  "upstream_changed = Wrapped ''upstream configuration changed, restart required to apply'' []"

fun unchanged_loop ::
  "store \<Rightarrow> (string, upstream_ptr) gomap \<Rightarrow> (string, upstream_ptr) gomap \<Rightarrow> go_error option" where
  "unchanged_loop h [] new = None"
| "unchanged_loop h ((name, p) # m) new =
    (case map_of new name of
       None \<Rightarrow> Some upstream_changed
     | Some q \<Rightarrow> if \<not> upstreamsEqual (cell h p) (cell h q) then Some upstream_changed
                else unchanged_loop h m new)"

definition validateUpstreamsUnchanged ::
  "Options \<Rightarrow> (string, upstream_ptr) gomap \<Rightarrow> store \<Rightarrow> go_error option" where
  "validateUpstreamsUnchanged opt new h =
    (if length (OUpstreams opt) \<noteq> length new then Some upstream_changed
     else unchanged_loop h (OUpstreams opt) new)"

text \<open>
  \<open>parse cf h\<close> stands for \<open>New()\<close> followed by \<open>Parse()\<close> with the given configuration file: the new
  options, whose upstreams it allocates in the store.
\<close>

type_synonym parser = "string \<Rightarrow> store \<Rightarrow> (go_error + Options) \<times> store"

definition reload :: "parser \<Rightarrow> Options \<Rightarrow> store \<Rightarrow> (go_error + Config) \<times> store" where
  "reload parse opt h =
    (case parse (OConfigFile opt) h of
       (Inl e, h1) \<Rightarrow> (Inl (Wrapped ''reload config: '' [e]), h1)
     | (Inr newOpt, h1) \<Rightarrow>
         (case validateUpstreamsUnchanged opt (OUpstreams newOpt) h1 of
            Some e \<Rightarrow> (Inl e, h1)
          | None \<Rightarrow>
              ToConfig (newOpt\<lparr>OConfigFile := OConfigFile opt, ODebug := ODebug opt,
                         OListen := OListen opt\<rparr>) h1))"

end
