(* ===== verification/NetParse.thy ===== *)
theory NetParse
  imports SocksAddr
begin

unbundle bit_operations_syntax

text \<open>
  The parsers of \<open>net\<close> and \<open>net/netip\<close> that the router uses: \<open>SplitHostPort\<close>, \<open>ParseIP\<close>,
  \<open>ParseCIDR\<close> and \<open>IPNet.Contains\<close>, on strings of bytes, with the facts the router's proofs need:
  the text of an IPv4 address parses back, and a network contains an address exactly when their
  leading bits agree.
\<close>

section \<open>Splitting\<close>

fun split_on :: "char \<Rightarrow> string \<Rightarrow> string list" where
  "split_on c [] = [[]]"
| "split_on c (x # xs) =
    (if x = c then [] # split_on c xs
     else case split_on c xs of [] \<Rightarrow> [[x]] | p # ps \<Rightarrow> (x # p) # ps)"

text \<open>The text before and after the last occurrence of a character.\<close>

fun split_last :: "char \<Rightarrow> string \<Rightarrow> (string \<times> string) option" where
  "split_last c [] = None"
| "split_last c (x # xs) =
    (case split_last c xs of
       Some (a, b) \<Rightarrow> Some (x # a, b)
     | None \<Rightarrow> if x = c then Some ([], xs) else None)"

text \<open>
  \<open>net.SplitHostPort\<close>: host and port, or nothing where it gives an error.  The two final checks of
  the source are the conditions on stray brackets.
\<close>

definition SplitHostPort :: "string \<Rightarrow> (string \<times> string) option" where
  "SplitHostPort s =
    (case split_last CHR '':'' s of
       None \<Rightarrow> None
     | Some (before, port) \<Rightarrow>
         if s \<noteq> [] \<and> hd s = CHR ''['' then
           (let inner = takeWhile (\<lambda>c. c \<noteq> CHR '']'') (tl s);
                rest = dropWhile (\<lambda>c. c \<noteq> CHR '']'') (tl s)
            in if rest = [] then None
               else if Suc (length inner) + 1 \<noteq> length before then None
               else if CHR ''['' \<in> set (tl s) \<or> CHR '']'' \<in> set (tl rest) then None
               else Some (inner, port))
         else if CHR '':'' \<in> set before then None
         else if CHR ''['' \<in> set s \<or> CHR '']'' \<in> set s then None
         else Some (before, port))"

section \<open>Addresses\<close>

datatype netip = V4 ip | V6 ip

definition As16 :: "netip \<Rightarrow> ip" where
  "As16 a = (case a of V4 x \<Rightarrow> v4InV6Prefix @ x | V6 x \<Rightarrow> x)"

text \<open>A decimal octet: digits only, no leading zero, at most 255.\<close>

definition parse_octet :: "string \<Rightarrow> byte option" where
  "parse_octet s =
    (case parse_digits s of
       None \<Rightarrow> None
     | Some n \<Rightarrow> if 1 < length s \<and> hd s = CHR ''0'' \<or> 255 < n then None else Some (word_of_int n))"

definition parse_v4 :: "string \<Rightarrow> ip option" where
  "parse_v4 s =
    (case map parse_octet (split_on CHR ''.'' s) of
       [Some a, Some b, Some c, Some d] \<Rightarrow> Some [a, b, c, d]
     | _ \<Rightarrow> None)"

definition hex_digit_val :: "char \<Rightarrow> int option" where
  "hex_digit_val c =
    (let n = of_char c :: nat in
     if 48 \<le> n \<and> n \<le> 57 then Some (int n - 48)
     else if 97 \<le> n \<and> n \<le> 102 then Some (int n - 87)
     else if 65 \<le> n \<and> n \<le> 70 then Some (int n - 55)
     else None)"

definition is_hex :: "char \<Rightarrow> bool" where
  "is_hex c \<longleftrightarrow> hex_digit_val c \<noteq> None"

definition hex_value :: "string \<Rightarrow> int" where
  "hex_value s = foldl (\<lambda>a c. 16 * a + (case hex_digit_val c of None \<Rightarrow> 0 | Some d \<Rightarrow> d)) 0 s"

text \<open>
  The end of the IPv6 loop: nothing may be left over; an ellipsis at byte \<open>e\<close> expands to at least
  one field of zeros.
\<close>

definition v6_finish :: "ip \<Rightarrow> nat option \<Rightarrow> string \<Rightarrow> ip option" where
  "v6_finish out ell s =
    (if s \<noteq> [] then None
     else if length out < 16 then
       (case ell of
          None \<Rightarrow> None
        | Some e \<Rightarrow> Some (take e out @ replicate (16 - length out) 0 @ drop e out))
     else if ell \<noteq> None then None
     else Some out)"

lemma dropWhile_shorter: "dropWhile P s = c # r \<Longrightarrow> length r < length s"
  by (metis length_dropWhile_le length_Cons less_eq_Suc_le)

function v6_loop :: "ip \<Rightarrow> nat option \<Rightarrow> string \<Rightarrow> ip option" where
  "v6_loop out ell s =
    (if 16 \<le> length out then v6_finish out ell s
     else
       let h = takeWhile is_hex s; rest = dropWhile is_hex s;
           out2 = out @ [word_of_int (hex_value h div 256), word_of_int (hex_value h)]
       in if h = [] \<or> 4 < length h then None
          else case rest of
              [] \<Rightarrow> v6_finish out2 ell []
            | c # r \<Rightarrow>
                if c = CHR ''.'' then
                  (if ell = None \<and> length out \<noteq> 12 \<or> 16 < length out + 4 then None
                   else case parse_v4 s of None \<Rightarrow> None | Some b \<Rightarrow> v6_finish (out @ b) ell [])
                else if c \<noteq> CHR '':'' \<or> r = [] then None
                else if hd r = CHR '':'' then
                  (if ell \<noteq> None then None
                   else if tl r = [] then v6_finish out2 (Some (length out2)) []
                   else v6_loop out2 (Some (length out2)) (tl r))
                else v6_loop out2 ell r)"
  by pat_completeness auto
termination
proof (relation "measure (\<lambda>(out, ell, s). length s)")
  fix out :: ip and ell :: "nat option" and s :: string and h rest out2 c r
  assume "rest = dropWhile is_hex s" and "rest = c # r"
  then have *: "length r < length s" by (metis dropWhile_shorter)
  show "((out2, ell, r), out, ell, s) \<in> measure (\<lambda>(out, ell, s). length s)" using * by simp
  show "((out2, Some (length out2), tl r), out, ell, s) \<in> measure (\<lambda>(out, ell, s). length s)"
    using * by (cases r) auto
qed simp

declare v6_loop.simps [simp del]

definition parse_v6 :: "string \<Rightarrow> ip option" where
  "parse_v6 s =
    (if take 2 s = ''::'' then
       (if drop 2 s = [] then Some (replicate 16 0) else v6_loop [] (Some 0) (drop 2 s))
     else v6_loop [] None s)"

text \<open>
  \<open>netip.ParseAddr\<close> for addresses without a zone, which is how both callers use it: the first
  separator decides, and a percent sign (a zone) is an error for them.
\<close>

definition ParseAddr :: "string \<Rightarrow> netip option" where
  "ParseAddr s =
    (case dropWhile (\<lambda>c. c \<notin> {CHR ''.'', CHR '':'', CHR ''%''}) s of
       [] \<Rightarrow> None
     | c # _ \<Rightarrow>
         if c = CHR ''.'' then map_option V4 (parse_v4 s)
         else if c = CHR '':'' \<and> CHR ''%'' \<notin> set s then map_option V6 (parse_v6 s)
         else None)"

definition ParseIP :: "string \<Rightarrow> ip option" where
  "ParseIP s = map_option As16 (ParseAddr s)"

section \<open>Networks\<close>

fun CIDRMask :: "nat \<Rightarrow> nat \<Rightarrow> bytes" where
  "CIDRMask n 0 = []"
| "CIDRMask n (Suc l) =
    (if 8 \<le> n then 0xff # CIDRMask (n - 8) l else NOT (drop_bit n 0xff) # CIDRMask 0 l)"

text \<open>\<open>IP.Mask\<close>, for the 16-byte addresses and the masks of \<open>ParseCIDR\<close>.\<close>

definition ip_mask :: "ip \<Rightarrow> bytes \<Rightarrow> ip" where
  "ip_mask x m =
    (let y = (if length m = 4 \<and> length x = 16 \<and> take 12 x = v4InV6Prefix then drop 12 x else x)
     in if length y = length m then map2 (AND) y m else [])"

record IPNet =
  NetIP :: ip
  NetMask :: bytes

text \<open>The number after the slash: decimal digits only, below \<open>0xFFFFFF\<close>, at most the address width.\<close>

definition ParseCIDR :: "string \<Rightarrow> IPNet option" where
  "ParseCIDR s =
    (let addr = takeWhile (\<lambda>c. c \<noteq> CHR ''/'') s; rest = dropWhile (\<lambda>c. c \<noteq> CHR ''/'') s in
     if rest = [] then None
     else case (ParseAddr addr, parse_digits (tl rest)) of
         (Some a, Some n) \<Rightarrow>
           let width = (case a of V4 _ \<Rightarrow> 4 | V6 _ \<Rightarrow> 16) in
           if n \<le> int (8 * width)
           then (let m = CIDRMask (nat n) width in Some \<lparr>NetIP = ip_mask (As16 a) m, NetMask = m\<rparr>)
           else None
       | _ \<Rightarrow> None)"

text \<open>\<open>networkNumberAndMask\<close> and \<open>IPNet.Contains\<close>; \<open>None\<close> is the pair of nil slices.\<close>

definition networkNumberAndMask :: "IPNet \<Rightarrow> (ip \<times> bytes) option" where
  "networkNumberAndMask n =
    (case (case To4 (NetIP n) of Some x \<Rightarrow> Some x
           | None \<Rightarrow> if length (NetIP n) = 16 then Some (NetIP n) else None) of
       None \<Rightarrow> None
     | Some x \<Rightarrow>
         if length (NetMask n) = 4 then (if length x = 4 then Some (x, NetMask n) else None)
         else if length (NetMask n) = 16
         then Some (x, if length x = 4 then drop 12 (NetMask n) else NetMask n)
         else None)"

definition Contains :: "IPNet \<Rightarrow> ip \<Rightarrow> bool" where
  "Contains n x =
    (let y = (case To4 x of Some z \<Rightarrow> z | None \<Rightarrow> x) in
     case networkNumberAndMask n of
       None \<Rightarrow> y = []
     | Some (nn, m) \<Rightarrow> length y = length nn \<and> map2 (AND) nn m = map2 (AND) y m)"

section \<open>The text of an address parses back\<close>

lemma split_on_no_sep: "c \<notin> set s \<Longrightarrow> split_on c s = [s]"
  by (induction s) auto

lemma split_on_append: "c \<notin> set s \<Longrightarrow> split_on c (s @ c # t) = s # split_on c t"
  by (induction s) auto

lemma split_last_append: "c \<notin> set p \<Longrightarrow> split_last c (s @ c # p) = Some (s, p)"
proof -
  assume "c \<notin> set p"
  then have "split_last c p = None" by (induction p) auto
  then show ?thesis by (induction s) auto
qed

lemma takeWhile_to: "\<forall>x \<in> set h. P x \<Longrightarrow> \<not> P c \<Longrightarrow> takeWhile P (h @ c # t) = h"
  by (induction h) auto

lemma dropWhile_to: "\<forall>x \<in> set h. P x \<Longrightarrow> \<not> P c \<Longrightarrow> dropWhile P (h @ c # t) = c # t"
  by (induction h) auto

lemma itoa_nat_no_zero: "9 < n \<Longrightarrow> itoa_nat n \<noteq> [] \<and> hd (itoa_nat n) \<noteq> CHR ''0''"
proof (induction n rule: itoa_nat.induct)
  case (1 n)
  show ?case
  proof (cases "n div 10 < 10")
    case True
    have "hd (itoa_nat n) = char_of (48 + nat (n div 10))"
      using 1(2) True by (simp add: itoa_nat.simps [of n] itoa_nat.simps [of "n div 10"])
    moreover have "of_char (char_of (48 + nat (n div 10)) :: char) \<noteq> (48 :: nat)"
      using 1(2) True by simp
    moreover have "of_char CHR ''0'' = (48 :: nat)" by simp
    ultimately have "hd (itoa_nat n) \<noteq> CHR ''0''" by metis
    with 1(2) show ?thesis by (simp add: itoa_nat.simps [of n])
  next
    case False
    with 1 show ?thesis by (simp add: itoa_nat.simps [of n])
  qed
qed

lemma parse_octet_itoa: "parse_octet (itoa (uint (b :: byte))) = Some b"
proof -
  have r: "0 \<le> uint b" "uint b < 256" using uint_bounded [of b] by simp_all
  then have i: "itoa (uint b) = itoa_nat (uint b)" by (simp add: itoa_def)
  show ?thesis
  proof (cases "uint b < 10")
    case True
    then have "length (itoa_nat (uint b)) = 1" by (simp add: itoa_nat.simps [of "uint b"])
    with r i show ?thesis by (simp add: parse_octet_def parse_digits_itoa_nat)
  next
    case False
    with r i itoa_nat_no_zero [of "uint b"] show ?thesis
      by (simp add: parse_octet_def parse_digits_itoa_nat)
  qed
qed

lemma itoa_uint_chars: "c \<in> set (itoa (uint (w :: 'a::len word))) \<Longrightarrow> is_digit c"
  using itoa_nat_digits [of "uint w"] by (auto simp: itoa_def list_all_iff)

lemma not_digit_sep:
  "\<not> is_digit CHR ''.''" "\<not> is_digit CHR '':''" "\<not> is_digit CHR ''[''" "\<not> is_digit CHR '']''"
  "\<not> is_digit CHR ''%''"
  by (simp_all add: is_digit_def)

lemma itoa_no_sep [simp]:
  "CHR ''.'' \<notin> set (itoa (uint (w :: 'a::len word)))" "CHR '':'' \<notin> set (itoa (uint w))"
  "CHR ''['' \<notin> set (itoa (uint w))" "CHR '']'' \<notin> set (itoa (uint w))"
  "CHR ''%'' \<notin> set (itoa (uint w))"
  using itoa_uint_chars not_digit_sep by blast+

lemma length_4E:
  assumes "length x = 4"
  obtains a b c d where "x = [a, b, c, d]"
proof -
  have "length x = Suc (Suc (Suc (Suc 0)))" using assms by simp
  then show thesis using that by (auto simp: length_Suc_conv)
qed

lemma dotted_list:
  "dotted [a, b, c, d] = itoa (uint a) @ CHR ''.'' # itoa (uint b) @ CHR ''.'' # itoa (uint c)
     @ CHR ''.'' # itoa (uint d)"
  by (simp add: dotted_def numeral_eq_Suc)

lemma parse_v4_dotted:
  assumes "length x = 4"
  shows "parse_v4 (dotted x) = Some x"
proof -
  obtain a b c d where x: "x = [a, b, c, d]" using assms by (rule length_4E)
  have "split_on CHR ''.'' (dotted x) = [itoa (uint a), itoa (uint b), itoa (uint c), itoa (uint d)]"
    unfolding x dotted_list by (simp only: split_on_append split_on_no_sep itoa_no_sep not_False_eq_True)
  then show ?thesis by (simp add: parse_v4_def parse_octet_itoa x)
qed

lemma ParseIP_dotted:
  assumes "length x = 4"
  shows "ParseIP (dotted x) = Some (v4InV6Prefix @ x)"
proof -
  obtain a b c d where x: "x = [a, b, c, d]" using assms by (rule length_4E)
  have "dropWhile (\<lambda>c. c \<notin> {CHR ''.'', CHR '':'', CHR ''%''}) (itoa (uint a) @ CHR ''.'' # t)
      = CHR ''.'' # t" for t
    by (rule dropWhile_to) auto
  then show ?thesis
    using parse_v4_dotted [OF assms] by (simp add: ParseIP_def ParseAddr_def x dotted_list As16_def)
qed

lemma dotted_no_brackets:
  assumes "length x = 4"
  shows "CHR ''['' \<notin> set (dotted x)" "CHR '']'' \<notin> set (dotted x)" "CHR '':'' \<notin> set (dotted x)"
  using assms by (auto elim!: length_4E simp: dotted_list)

text \<open>Splitting undoes joining, for a host without brackets.\<close>

lemma split_join:
  assumes "CHR ''['' \<notin> set h" "CHR '']'' \<notin> set h" and "\<forall>c \<in> set p. c \<notin> {CHR '':'', CHR ''['', CHR '']''}"
  shows "SplitHostPort (JoinHostPort h p) = Some (h, p)"
proof -
  have p: "CHR '':'' \<notin> set p" "CHR ''['' \<notin> set p" "CHR '']'' \<notin> set p" using assms(3) by auto
  show ?thesis
  proof (cases "CHR '':'' \<in> set h")
    case False
    have "hd (h @ CHR '':'' # p) \<noteq> CHR ''[''" using assms(1) by (cases h) auto
    with False assms(1,2) p show ?thesis
      by (simp add: SplitHostPort_def JoinHostPort_def split_last_append)
  next
    case True
    let ?s = "CHR ''['' # h @ CHR '']'' # CHR '':'' # p"
    have "split_last CHR '':'' ?s = Some (CHR ''['' # h @ [CHR '']''], p)"
      using split_last_append [OF p(1), of "CHR ''['' # h @ [CHR '']'']"] by simp
    moreover have "takeWhile (\<lambda>c. c \<noteq> CHR '']'') (tl ?s) = h"
      "dropWhile (\<lambda>c. c \<noteq> CHR '']'') (tl ?s) = CHR '']'' # CHR '':'' # p"
      using assms(2) by (auto intro!: takeWhile_to dropWhile_to)
    ultimately show ?thesis
      using True assms(1) p by (simp add: SplitHostPort_def JoinHostPort_def Let_def)
  qed
qed

section \<open>Containment is agreement of leading bits\<close>

text \<open>The bits of an address, most significant first.\<close>

definition byte_bits :: "byte \<Rightarrow> bool list" where
  "byte_bits b = map (\<lambda>i. bit b (7 - i)) [0..<8]"

fun bits_of :: "bytes \<Rightarrow> bool list" where
  "bits_of [] = []"
| "bits_of (b # bs) = byte_bits b @ bits_of bs"

lemma length_byte_bits [simp]: "length (byte_bits b) = 8"
  by (simp add: byte_bits_def)

lemma take_byte_bits:
  assumes "n \<le> 8"
  shows "take n (byte_bits b) = take n (byte_bits c) \<longleftrightarrow> (\<forall>i < n. bit b (7 - i) = bit c (7 - i))"
proof -
  have "take n (byte_bits b) = map (\<lambda>i. bit b (7 - i)) [0..<n]" for b
    using assms by (simp add: byte_bits_def take_map)
  then show ?thesis by auto
qed

lemma mask_byte:
  assumes "n < 8"
  shows "b AND NOT (drop_bit n 0xff) = c AND NOT (drop_bit n (0xff :: byte))
    \<longleftrightarrow> take n (byte_bits b) = take n (byte_bits c)"
proof -
  have ff: "(0xff :: byte) = - 1" by simp
  have m: "bit (NOT (drop_bit n (0xff :: byte))) k \<longleftrightarrow> k < 8 \<and> 8 - n \<le> k" for k
    unfolding ff by (auto simp: bit_not_iff bit_drop_bit_eq bit_mask_iff)
  have "b AND NOT (drop_bit n 0xff) = c AND NOT (drop_bit n (0xff :: byte))
      \<longleftrightarrow> (\<forall>k. k < 8 \<and> 8 - n \<le> k \<longrightarrow> bit b k = bit c k)"
    by (simp add: bit_eq_iff bit_and_iff m) (auto)
  also have "\<dots> \<longleftrightarrow> (\<forall>i < n. bit b (7 - i) = bit c (7 - i))"
  proof
    assume *: "\<forall>k. k < 8 \<and> 8 - n \<le> k \<longrightarrow> bit b k = bit c k"
    show "\<forall>i < n. bit b (7 - i) = bit c (7 - i)"
    proof (rule allI, rule impI)
      fix i assume "i < n"
      then have "7 - i < 8 \<and> 8 - n \<le> 7 - i" using assms by linarith
      with * show "bit b (7 - i) = bit c (7 - i)" by blast
    qed
  next
    assume *: "\<forall>i < n. bit b (7 - i) = bit c (7 - i)"
    show "\<forall>k. k < 8 \<and> 8 - n \<le> k \<longrightarrow> bit b k = bit c k"
    proof (rule allI, rule impI)
      fix k assume "k < 8 \<and> 8 - n \<le> k"
      then have "7 - k < n" "7 - (7 - k) = k" by auto
      with * show "bit b k = bit c k" by metis
    qed
  qed
  finally show ?thesis using assms by (simp add: take_byte_bits)
qed

lemma mask_bits:
  "length x = l \<Longrightarrow> length y = l \<Longrightarrow>
   map2 (AND) x (CIDRMask n l) = map2 (AND) y (CIDRMask n l) \<longleftrightarrow> take n (bits_of x) = take n (bits_of y)"
proof (induction l arbitrary: n x y)
  case (Suc l)
  from Suc.prems obtain a xs b ys where xy: "x = a # xs" "y = b # ys" "length xs = l" "length ys = l"
    by (auto simp: length_Suc_conv)
  have full: "byte_bits a = byte_bits b \<longleftrightarrow> a = b"
  proof -
    have "byte_bits a = byte_bits b \<longleftrightarrow> (\<forall>i < 8. bit a (7 - i) = bit b (7 - i))"
      using take_byte_bits [of 8 a b] by simp
    also have "\<dots> \<longleftrightarrow> a = b"
    proof
      assume *: "\<forall>i < 8. bit a (7 - i) = bit b (7 - i)"
      have "bit a k = bit b k" if "k < 8" for k
        using * [rule_format, of "7 - k"] that by simp
      then show "a = b" by (intro bit_word_eqI) simp
    qed simp
    finally show ?thesis .
  qed
  show ?case
  proof (cases "8 \<le> n")
    case True
    have "(0xff :: byte) = - 1" by simp
    then have "a AND 0xff = a" "b AND 0xff = b" by (metis word_and_max)+
    with True xy Suc.IH [of xs ys "n - 8"] full show ?thesis by simp
  next
    case False
    have "map2 (AND) xs (CIDRMask 0 l) = map2 (AND) ys (CIDRMask 0 l)"
      using Suc.IH [of xs ys 0] xy by simp
    with False xy mask_byte [of n a b] show ?thesis by simp
  qed
qed simp

end
