(* ===== verification/OptionsParse.thy ===== *)
theory OptionsParse
  imports Settings NetParse
begin

text \<open>
  The command line (\<open>internal/config/options.go\<close>): \<open>New\<close>, \<open>Parse\<close> with its search for the configuration
  file, and the start of \<open>Watch\<close>.  The flag and configuration libraries (pflag, viper) are parameters,
  gathered in the record \<open>libraries\<close>, over a type \<open>'v\<close> of viper states and \<open>'a\<close> of configuration
  values; the functions of \<open>path/filepath\<close> are modelled for Unix.
\<close>

section \<open>Paths\<close>

text \<open>
  \<open>filepath.Clean\<close>: the elements kept so far are in reverse order; \<open>..\<close> takes one back, stays in front
  of a relative path and disappears at the root.
\<close>

fun clean_elements :: "bool \<Rightarrow> string list \<Rightarrow> string list \<Rightarrow> string list" where
  "clean_elements rooted out [] = rev out"
| "clean_elements rooted out (e # es) =
    (if e = [] \<or> e = ''.'' then clean_elements rooted out es
     else if e = ''..'' then
       (case out of
          [] \<Rightarrow> clean_elements rooted (if rooted then [] else [''..'']) es
        | p # ps \<Rightarrow> clean_elements rooted (if p = ''..'' then ''..'' # out else ps) es)
     else clean_elements rooted (e # out) es)"

fun join_elements :: "string list \<Rightarrow> string" where
  "join_elements [] = []"
| "join_elements [e] = e"
| "join_elements (e # es) = e @ ''/'' @ join_elements es"

definition is_abs :: "string \<Rightarrow> bool" where
  "is_abs p \<longleftrightarrow> p \<noteq> [] \<and> hd p = CHR ''/''"

definition filepath_Clean :: "string \<Rightarrow> string" where
  "filepath_Clean p =
    (if p = [] then ''.''
     else
       let es = clean_elements (is_abs p) [] (split_on CHR ''/'' p)
       in if is_abs p then ''/'' @ join_elements es
          else if es = [] then ''.'' else join_elements es)"

definition filepath_Join :: "string list \<Rightarrow> string" where
  "filepath_Join es =
    (let es1 = dropWhile (\<lambda>e. e = []) es
     in if es1 = [] then [] else filepath_Clean (join_elements es1))"

definition filepath_Dir :: "string \<Rightarrow> string" where
  "filepath_Dir p = filepath_Clean (rev (dropWhile (\<lambda>c. c \<noteq> CHR ''/'') (rev p)))"

text \<open>\<open>filepath.Abs\<close>, with the answer of \<open>os.Getwd\<close>.\<close>

definition filepath_Abs :: "go_error + string \<Rightarrow> string \<Rightarrow> go_error + string" where
  "filepath_Abs wd p =
    (if is_abs p then Inr (filepath_Clean p)
     else case wd of Inl e \<Rightarrow> Inl e | Inr d \<Rightarrow> Inr (filepath_Join [d, p]))"

section \<open>The options and what they are read from\<close>

text \<open>
  What the options ask for besides the configuration; \<open>cliOptions\<close> are the options that feed it.
\<close>

record CommandLine =
  ShowVersion :: bool
  ShowHelp :: bool
  ShowConfig :: bool
  LogFile :: string
  cliOptions :: Options

text \<open>The options of \<open>New\<close>: every flag at its default.\<close>

definition NewOptions :: CommandLine where
  "NewOptions = \<lparr>ShowVersion = False, ShowHelp = False, ShowConfig = False, LogFile = [],
     cliOptions = \<lparr>OConfigFile = [], ODebug = False, OListen = ''127.0.0.1:28881'', ODiagListen = [],
       OAuth = None, ODefault = [], OSleep = 0, OUpstreams = [], ORoutes = [], OTarget = [],
       ORegion = ''us-east-1'', OSSHUser = ''root'', OSSHKey = [], OAWSProfile = []\<rparr>\<rparr>"

record os_env =
  osArgs :: "string list"
  xdgConfigHome :: string
  userHomeDir :: "go_error + string"
  workDir :: "go_error + string"

datatype read_config = ConfigRead | ConfigNotFound go_error | ConfigBroken go_error

text \<open>
  The calls into pflag and viper.  Parsing the flags writes the options they are bound to, and viper sees
  the flags; \<open>Unmarshal\<close> writes the options and allocates the upstreams it reads.
\<close>

record ('v, 'a) libraries =
  parseFlags :: "string list \<Rightarrow> CommandLine \<Rightarrow> 'v \<Rightarrow> go_error option \<times> CommandLine \<times> 'v"
  AutomaticEnv :: "'v \<Rightarrow> 'v"
  SetEnvPrefix :: "string \<Rightarrow> 'v \<Rightarrow> 'v"
  SetEnvKeyReplacer :: "(string \<times> string) list \<Rightarrow> 'v \<Rightarrow> 'v"
  BindEnv :: "string \<Rightarrow> 'v \<Rightarrow> go_error option \<times> 'v"
  SetConfigFile :: "string \<Rightarrow> 'v \<Rightarrow> 'v"
  SetConfigName :: "string \<Rightarrow> 'v \<Rightarrow> 'v"
  SetConfigType :: "string \<Rightarrow> 'v \<Rightarrow> 'v"
  AddConfigPath :: "string \<Rightarrow> 'v \<Rightarrow> 'v"
  ReadInConfig :: "'v \<Rightarrow> read_config \<times> 'v"
  AllKeys :: "'v \<Rightarrow> string list"
  GetValue :: "string \<Rightarrow> 'v \<Rightarrow> 'a option"
  SetValue :: "string \<Rightarrow> 'a option \<Rightarrow> 'v \<Rightarrow> 'v"
  GetString :: "string \<Rightarrow> 'v \<Rightarrow> string"
  Unmarshal :: "'v \<Rightarrow> CommandLine \<Rightarrow> store \<Rightarrow> go_error option \<times> CommandLine \<times> store"
  ConfigFileUsed :: "'v \<Rightarrow> string"
  UnmarshalConfig :: "'v \<Rightarrow> Config \<Rightarrow> store \<Rightarrow> go_error option \<times> Config \<times> store"

section \<open>Parse\<close>

fun bind_env_loop :: "('v, 'a) libraries \<Rightarrow> string list \<Rightarrow> 'v \<Rightarrow> go_error option \<times> 'v" where
  "bind_env_loop lib [] v = (None, v)"
| "bind_env_loop lib (k # ks) v =
    (case BindEnv lib k v of
       (Some e, v1) \<Rightarrow> (Some (Wrapped (''bind env '' @ k) [e]), v1)
     | (None, v1) \<Rightarrow> bind_env_loop lib ks v1)"

definition bindEnvKeys :: "('v, 'a) libraries \<Rightarrow> 'v \<Rightarrow> go_error option \<times> 'v" where
  "bindEnvKeys lib v = bind_env_loop lib envOnlyKeys v"

definition captureConfigFileUsed :: "('v, 'a) libraries \<Rightarrow> os_env \<Rightarrow> 'v \<Rightarrow> Options \<Rightarrow> Options" where
  "captureConfigFileUsed lib os v opt =
    (let used = ConfigFileUsed lib v in
     if used = [] then opt
     else case filepath_Abs (workDir os) used of
         Inl e \<Rightarrow> opt\<lparr>OConfigFile := used\<rparr>
       | Inr p \<Rightarrow> opt\<lparr>OConfigFile := p\<rparr>)"

text \<open>The directories searched for \<open>config.yaml\<close> when neither a file nor a legacy target is given.\<close>

definition search_paths :: "os_env \<Rightarrow> string list" where
  "search_paths os =
    (let xdg = (if xdgConfigHome os = []
                then (case userHomeDir os of Inl e \<Rightarrow> [] | Inr home \<Rightarrow> filepath_Join [home, ''.config''])
                else xdgConfigHome os)
     in ''.'' # (if xdg = [] then [] else [filepath_Join [xdg, ''session-proxy'']]))"

definition read_config_file :: "('v, 'a) libraries \<Rightarrow> os_env \<Rightarrow> Options \<Rightarrow> 'v \<Rightarrow> go_error option \<times> 'v" where
  "read_config_file lib os opt v =
    (if OConfigFile opt \<noteq> [] then
       (case ReadInConfig lib (SetConfigFile lib (OConfigFile opt) v) of
          (ConfigRead, v1) \<Rightarrow> (None, v1)
        | (ConfigNotFound e, v1) \<Rightarrow> (Some (Wrapped (''read config file '' @ OConfigFile opt) [e]), v1)
        | (ConfigBroken e, v1) \<Rightarrow> (Some (Wrapped (''read config file '' @ OConfigFile opt) [e]), v1))
     else if OTarget opt = [] then
       (case ReadInConfig lib (fold (AddConfigPath lib) (search_paths os)
               (SetConfigType lib ''yaml'' (SetConfigName lib ''config'' v))) of
          (ConfigRead, v1) \<Rightarrow> (None, v1)
        | (ConfigNotFound e, v1) \<Rightarrow> (None, v1)
        | (ConfigBroken e, v1) \<Rightarrow> (Some (Wrapped ''read config: '' [e]), v1))
     else (None, v))"

definition rehydrate :: "('v, 'a) libraries \<Rightarrow> 'v \<Rightarrow> 'v" where
  "rehydrate lib v = fold (\<lambda>k v. SetValue lib k (GetValue lib k v) v) (rehydrateKeys (AllKeys lib v)) v"

definition Parse ::
  "('v, 'a) libraries \<Rightarrow> os_env \<Rightarrow> CommandLine \<Rightarrow> 'v \<Rightarrow> store
    \<Rightarrow> go_error option \<times> CommandLine \<times> 'v \<times> store" where
  "Parse lib os o0 v0 h =
    (case parseFlags lib (osArgs os) o0 v0 of
       (Some e, o1, v1) \<Rightarrow> (Some e, o1, v1, h)
     | (None, o1, v1) \<Rightarrow>
         if ShowVersion o1 \<or> ShowHelp o1 then (None, o1, v1, h)
         else
           let v2 = SetEnvKeyReplacer lib [(''-'', ''_''), (''.'', ''_'')]
                      (SetEnvPrefix lib ''SESSION_PROXY'' (AutomaticEnv lib v1))
           in case bindEnvKeys lib v2 of
               (Some e, v3) \<Rightarrow> (Some e, o1, v3, h)
             | (None, v3) \<Rightarrow>
                 (case read_config_file lib os (cliOptions o1) v3 of
                    (Some e, v4) \<Rightarrow> (Some e, o1, v4, h)
                  | (None, v4) \<Rightarrow>
                      let v5 = rehydrate lib v4
                      in case Unmarshal lib v5 o1 h of
                          (Some e, o2, h1) \<Rightarrow> (Some (Wrapped ''unmarshal config: '' [e]), o2, v5, h1)
                        | (None, o2, h1) \<Rightarrow>
                            (None,
                             o2\<lparr>cliOptions := captureConfigFileUsed lib os v5
                                  (applyAuthOverrides (GetString lib ''auth-user'' v5)
                                     (GetString lib ''auth-pass'' v5) (cliOptions o2))\<rparr>,
                             v5, h1)))"

text \<open>
  The parser that \<open>reload\<close> uses: a new \<open>Options\<close> (with a new viper \<open>v0\<close> its flags are bound to), the
  configuration file set, and \<open>Parse\<close>.
\<close>

definition fresh_parse :: "('v, 'a) libraries \<Rightarrow> os_env \<Rightarrow> 'v \<Rightarrow> parser" where
  "fresh_parse lib os v0 cf h =
    (case Parse lib os (NewOptions\<lparr>cliOptions := (cliOptions NewOptions)\<lparr>OConfigFile := cf\<rparr>\<rparr>) v0 h of
       (Some e, o1, v, h1) \<Rightarrow> (Inl e, h1)
     | (None, o1, v, h1) \<Rightarrow> (Inr (cliOptions o1), h1))"

text \<open>What \<open>main\<close> has after \<open>New\<close> and \<open>Parse\<close>.\<close>

definition command_line :: "('v, 'a) libraries \<Rightarrow> os_env \<Rightarrow> 'v \<Rightarrow> store \<Rightarrow> go_error + CommandLine \<times> store" where
  "command_line lib os v0 h =
    (case Parse lib os NewOptions v0 h of
       (Some e, o1, v, h1) \<Rightarrow> Inl e
     | (None, o1, v, h1) \<Rightarrow> Inr (o1, h1))"

section \<open>Loading a configuration directly\<close>

definition unmarshalAndValidate :: "('v, 'a) libraries \<Rightarrow> 'v \<Rightarrow> store \<Rightarrow> (go_error + Config) \<times> store" where
  "unmarshalAndValidate lib v h =
    (case UnmarshalConfig lib v
       \<lparr>Listen = [], DiagListen = [], CfgAuth = None, Upstreams = [], Routes = [], Default = [],
        SleepDetectionThreshold = 0\<rparr> h of
       (Some e, c, h1) \<Rightarrow> (Inl (Wrapped ''unmarshal config: '' [e]), h1)
     | (None, c, h1) \<Rightarrow> validated (validate c h1))"

definition load_with :: "('v, 'a) libraries \<Rightarrow> 'v \<Rightarrow> store \<Rightarrow> (go_error + Config) \<times> store" where
  "load_with lib v h =
    (case ReadInConfig lib v of
       (ConfigRead, v1) \<Rightarrow> unmarshalAndValidate lib v1 h
     | (ConfigNotFound e, v1) \<Rightarrow> (Inl (Wrapped ''read config: '' [e]), h)
     | (ConfigBroken e, v1) \<Rightarrow> (Inl (Wrapped ''read config: '' [e]), h))"

text \<open>\<open>v0\<close> is the result of \<open>viper.New\<close>.\<close>

definition Load :: "('v, 'a) libraries \<Rightarrow> 'v \<Rightarrow> string \<Rightarrow> store \<Rightarrow> (go_error + Config) \<times> store" where
  "Load lib v0 path h = load_with lib (SetConfigFile lib path v0) h"

definition LoadDefault :: "('v, 'a) libraries \<Rightarrow> os_env \<Rightarrow> 'v \<Rightarrow> store \<Rightarrow> (go_error + Config) \<times> store" where
  "LoadDefault lib os v0 h =
    (let v1 = AddConfigPath lib ''.'' (SetConfigType lib ''yaml'' (SetConfigName lib ''config'' v0));
         xdg = (if xdgConfigHome os = []
                then filepath_Join [(case userHomeDir os of Inl e \<Rightarrow> [] | Inr home \<Rightarrow> home), ''.config'']
                else xdgConfigHome os)
     in load_with lib (AddConfigPath lib (filepath_Join [xdg, ''session-proxy'']) v1) h)"

section \<open>Watching the file\<close>

text \<open>
  \<open>Watch\<close> up to the start of its goroutine: the error it returns, and the options afterwards;
  \<open>newWatcher\<close> is the error of \<open>fsnotify.NewWatcher\<close>.
\<close>

definition Watch ::
  "('v, 'a) libraries \<Rightarrow> os_env \<Rightarrow> go_error option \<Rightarrow> 'v \<Rightarrow> Options \<Rightarrow> go_error option \<times> Options" where
  "Watch lib os newWatcher v opt =
    (let opt1 = (if OConfigFile opt = [] then captureConfigFileUsed lib os v opt else opt)
     in if OConfigFile opt1 = [] then (Some (Wrapped ''no config file to watch'' []), opt1)
        else case newWatcher of
            Some e \<Rightarrow> (Some (Wrapped ''create watcher: '' [e]), opt1)
          | None \<Rightarrow> (None, opt1))"

text \<open>The directory the goroutine watches.\<close>

definition watched_dir :: "Options \<Rightarrow> string" where
  "watched_dir opt = filepath_Dir (OConfigFile opt)"

end
