(* ===== verification/Glob.thy ===== *)
theory Glob
  imports Strconv
begin

text \<open>
  \<open>filepath.Match\<close> (on Unix), which the router calls for its domain patterns: the pattern grammar,
  the library's algorithm (chunks between stars, each placed as far left as possible, with no
  backtracking over earlier chunks), and its equivalence with the declarative meaning of a pattern.
  Strings are taken byte by byte, so a rune is a byte: exact for ASCII text.
\<close>

section \<open>Patterns\<close>

datatype gitem = GChar char | GAny | GClass bool "(char \<times> char) list" | GStar

abbreviation (input) sep :: char where "sep \<equiv> CHR ''/''"

text \<open>One possibly escaped character of a class; something must follow it.\<close>

definition getEsc :: "string \<Rightarrow> (char \<times> string) option" where
  "getEsc s =
    (case s of
       [] \<Rightarrow> None
     | c # r \<Rightarrow>
         if c = CHR ''-'' \<or> c = CHR '']'' then None
         else (case (if c = CHR 0x5C then r else s) of
                 [] \<Rightarrow> None
               | d # t \<Rightarrow> if t = [] then None else Some (d, t)))"

lemma getEsc_shorter: "getEsc s = Some (c, t) \<Longrightarrow> length t < length s \<and> t \<noteq> []"
  by (auto simp: getEsc_def split: list.splits if_splits)

function parse_class :: "string \<Rightarrow> (char \<times> char) list \<Rightarrow> ((char \<times> char) list \<times> string) option" where
  "parse_class s acc =
    (if s \<noteq> [] \<and> hd s = CHR '']'' \<and> acc \<noteq> [] then Some (acc, tl s)
     else case getEsc s of
         None \<Rightarrow> None
       | Some (lo, t) \<Rightarrow>
           if hd t = CHR ''-'' then
             (case getEsc (tl t) of
                None \<Rightarrow> None
              | Some (hi, u) \<Rightarrow> parse_class u (acc @ [(lo, hi)]))
           else parse_class t (acc @ [(lo, lo)]))"
  by pat_completeness auto
termination
proof (relation "measure (\<lambda>(s, acc). length s)")
  fix s :: string and acc :: "(char \<times> char) list" and x lo t y hi u
  assume "getEsc s = Some x" "(lo, t) = x" "getEsc (tl t) = Some y" "(hi, u) = y"
  then have "length u < length (tl t)" "length t < length s"
    using getEsc_shorter [of s lo t] getEsc_shorter [of "tl t" hi u] by auto
  then show "((u, acc @ [(lo, hi)]), s, acc) \<in> measure (\<lambda>(s, acc). length s)" by simp
next
  fix s :: string and acc :: "(char \<times> char) list" and x lo t
  assume "getEsc s = Some x" "(lo, t) = x"
  then show "((t, acc @ [(lo, lo)]), s, acc) \<in> measure (\<lambda>(s, acc). length s)"
    using getEsc_shorter [of s lo t] by auto
qed simp

declare parse_class.simps [simp del]

lemma parse_class_shorter: "parse_class s acc = Some (rs, t) \<Longrightarrow> length t < length s"
proof (induction s acc rule: parse_class.induct)
  case (1 s acc)
  show ?case
  proof (cases "s \<noteq> [] \<and> hd s = CHR '']'' \<and> acc \<noteq> []")
    case True
    then have "t = tl s" using "1.prems" parse_class.simps [of s acc] by simp
    with True show ?thesis by (cases s) auto
  next
    case False
    then obtain lo u where e: "getEsc s = Some (lo, u)" and
      p: "(if hd u = CHR ''-'' then
             (case getEsc (tl u) of None \<Rightarrow> None | Some (hi, v) \<Rightarrow> parse_class v (acc @ [(lo, hi)]))
           else parse_class u (acc @ [(lo, lo)])) = Some (rs, t)"
      using "1.prems" parse_class.simps [of s acc] by (auto split: option.splits)
    have u: "length u < length s" using getEsc_shorter [OF e] by simp
    show ?thesis
    proof (cases "hd u = CHR ''-''")
      case True
      with p obtain hi v where v: "getEsc (tl u) = Some (hi, v)" "parse_class v (acc @ [(lo, hi)]) = Some (rs, t)"
        by (auto split: option.splits)
      then have "length t < length v" using "1.IH"(1) [OF False e refl True v(1) refl] by simp
      moreover have "length v < length (tl u)" using getEsc_shorter [OF v(1)] by simp
      ultimately show ?thesis using u length_tl [of u] by linarith
    next
      case False2: False
      with p have "length t < length u" using "1.IH"(2) [OF False e refl False2] by simp
      with u show ?thesis by simp
    qed
  qed
qed

text \<open>The items of a pattern, or nothing for a malformed one (\<open>ErrBadPattern\<close>).\<close>

function parse_glob :: "string \<Rightarrow> gitem list option" where
  "parse_glob [] = Some []"
| "parse_glob (c # r) =
    (if c = CHR ''*'' then map_option ((#) GStar) (parse_glob r)
     else if c = CHR ''?'' then map_option ((#) GAny) (parse_glob r)
     else if c = CHR ''['' then
       (let neg = (r \<noteq> [] \<and> hd r = CHR 0x5E) in
        case parse_class (if neg then tl r else r) [] of
          None \<Rightarrow> None
        | Some (rs, t) \<Rightarrow> map_option ((#) (GClass neg rs)) (parse_glob t))
     else if c = CHR 0x5C then
       (case r of [] \<Rightarrow> None | d # t \<Rightarrow> map_option ((#) (GChar d)) (parse_glob t))
     else map_option ((#) (GChar c)) (parse_glob r))"
  by pat_completeness auto
termination
proof (relation "measure length")
  fix c :: char and r neg x rs t
  assume "parse_class (if neg then tl r else r) [] = Some x" "(rs, t) = x"
  then have "length t < length (if neg then tl r else r)" using parse_class_shorter by metis
  also have "\<dots> \<le> length r" by simp
  finally show "(t, c # r) \<in> measure length" by simp
qed auto

section \<open>The algorithm\<close>

fun match_item :: "gitem \<Rightarrow> char \<Rightarrow> bool" where
  "match_item (GChar d) c = (c = d)"
| "match_item GAny c = (c \<noteq> sep)"
| "match_item (GClass neg rs) c =
    (list_ex (\<lambda>(lo, hi). (of_char lo :: nat) \<le> of_char c \<and> (of_char c :: nat) \<le> of_char hi) rs \<noteq> neg)"
| "match_item GStar c = False"

fun match_chunk :: "gitem list \<Rightarrow> string \<Rightarrow> string option" where
  "match_chunk [] s = Some s"
| "match_chunk (i # its) [] = None"
| "match_chunk (i # its) (c # s) = (if match_item i c then match_chunk its s else None)"

text \<open>The leftmost place for a chunk after a star; the last chunk must reach the end.\<close>

fun find_chunk :: "bool \<Rightarrow> gitem list \<Rightarrow> string \<Rightarrow> string option" where
  "find_chunk lst ch [] =
    (case match_chunk ch [] of Some t \<Rightarrow> if t = [] \<or> \<not> lst then Some t else None | None \<Rightarrow> None)"
| "find_chunk lst ch (c # s) =
    (let skip = (if c = sep then None else find_chunk lst ch s) in
     case match_chunk ch (c # s) of
       Some t \<Rightarrow> if t = [] \<or> \<not> lst then Some t else skip
     | None \<Rightarrow> skip)"

function chunks :: "gitem list \<Rightarrow> (bool \<times> gitem list) list" where
  "chunks items =
    (if items = [] then []
     else let rest = dropWhile (\<lambda>i. i = GStar) items in
       (hd items = GStar, takeWhile (\<lambda>i. i \<noteq> GStar) rest) # chunks (dropWhile (\<lambda>i. i \<noteq> GStar) rest))"
  by pat_completeness auto
termination
proof (relation "measure length")
  fix items :: "gitem list" and rest
  assume ne: "items \<noteq> []" and rest: "rest = dropWhile (\<lambda>i. i = GStar) items"
  have "length (dropWhile (\<lambda>i. i \<noteq> GStar) rest) < length items"
  proof (cases "hd items = GStar")
    case True
    then have "length rest < length items"
      using ne rest by (cases items) (auto simp: le_imp_less_Suc length_dropWhile_le)
    then show ?thesis using length_dropWhile_le [of "\<lambda>i. i \<noteq> GStar" rest] by simp
  next
    case False
    then obtain i its where "items = i # its" "i \<noteq> GStar" using ne by (cases items) auto
    then show ?thesis using rest length_dropWhile_le [of "\<lambda>i. i \<noteq> GStar" its] by (simp add: le_imp_less_Suc)
  qed
  then show "(dropWhile (\<lambda>i. i \<noteq> GStar) rest, items) \<in> measure length" by simp
qed simp

declare chunks.simps [simp del]

fun match_chunks :: "(bool \<times> gitem list) list \<Rightarrow> string \<Rightarrow> bool" where
  "match_chunks [] s = (s = [])"
| "match_chunks ((star, ch) # cs) s =
    (if star \<and> ch = [] then sep \<notin> set s
     else if star then
       (case find_chunk (cs = []) ch s of None \<Rightarrow> False | Some t \<Rightarrow> match_chunks cs t)
     else
       (case match_chunk ch s of
          None \<Rightarrow> False
        | Some t \<Rightarrow> (t = [] \<or> cs \<noteq> []) \<and> match_chunks cs t))"

definition filepath_Match :: "string \<Rightarrow> string \<Rightarrow> bool" where
  "filepath_Match pattern name =
    (case parse_glob pattern of None \<Rightarrow> False | Some items \<Rightarrow> match_chunks (chunks items) name)"

section \<open>The declarative meaning\<close>

text \<open>A star stands for any text without a separator; every other item for one character.\<close>

fun glob_spec :: "gitem list \<Rightarrow> string \<Rightarrow> bool" where
  "glob_spec [] s = (s = [])"
| "glob_spec (GStar # its) s = (\<exists>u v. s = u @ v \<and> sep \<notin> set u \<and> glob_spec its v)"
| "glob_spec (i # its) s = (\<exists>c v. s = c # v \<and> match_item i c \<and> glob_spec its v)"

text \<open>The same on chunks, for text without a separator.\<close>

fun glob_chunks :: "(bool \<times> gitem list) list \<Rightarrow> string \<Rightarrow> bool" where
  "glob_chunks [] s = (s = [])"
| "glob_chunks ((star, ch) # cs) s =
    (\<exists>u v t. s = u @ v \<and> (star \<or> u = []) \<and> match_chunk ch v = Some t \<and> glob_chunks cs t)"

lemma glob_spec_step: "i \<noteq> GStar \<Longrightarrow>
  glob_spec (i # its) s = (\<exists>c v. s = c # v \<and> match_item i c \<and> glob_spec its v)"
  by (cases i) auto

lemma glob_spec_chunk:
  "\<forall>i \<in> set ch. i \<noteq> GStar \<Longrightarrow>
   glob_spec (ch @ its) s = (\<exists>t. match_chunk ch s = Some t \<and> glob_spec its t)"
proof (induction ch arbitrary: s)
  case (Cons i ch)
  then show ?case by (cases s) (simp_all add: glob_spec_step)
qed simp

lemma glob_spec_stars:
  assumes "sep \<notin> set s"
  shows "glob_spec (replicate (Suc n) GStar @ its) s = (\<exists>u v. s = u @ v \<and> glob_spec its v)"
  using assms
proof (induction n arbitrary: s)
  case 0
  then have "s = u @ v \<Longrightarrow> sep \<notin> set u" for u v by auto
  then show ?case by (simp; blast)
next
  case (Suc n)
  have "glob_spec (replicate (Suc (Suc n)) GStar @ its) s
      = (\<exists>u v. s = u @ v \<and> sep \<notin> set u \<and> glob_spec (replicate (Suc n) GStar @ its) v)"
    by simp
  also have "\<dots> = (\<exists>u v. s = u @ v \<and> (\<exists>u' v'. v = u' @ v' \<and> glob_spec its v'))"
    using Suc.IH Suc.prems by (metis Un_iff set_append)
  also have "\<dots> = (\<exists>u v. s = u @ v \<and> glob_spec its v)"
    by (metis append.assoc append_Nil)
  finally show ?case .
qed

lemma match_chunk_drop:
  "match_chunk ch s = Some t \<Longrightarrow> length ch \<le> length s \<and> t = drop (length ch) s"
  by (induction ch s rule: match_chunk.induct) (auto split: if_splits)

lemma match_chunk_sep: "match_chunk ch s = Some t \<Longrightarrow> sep \<notin> set s \<Longrightarrow> sep \<notin> set t"
  using match_chunk_drop [of ch s t] by (metis in_set_dropD)

text \<open>Every pattern is its leading stars, a chunk, and the rest.\<close>

lemma items_split:
  fixes items :: "gitem list"
  defines "rest \<equiv> dropWhile (\<lambda>i. i = GStar) items"
  shows "\<exists>n. items = replicate n GStar @ takeWhile (\<lambda>i. i \<noteq> GStar) rest @ dropWhile (\<lambda>i. i \<noteq> GStar) rest
    \<and> (items \<noteq> [] \<longrightarrow> (0 < n \<longleftrightarrow> hd items = GStar))"
proof -
  have "takeWhile (\<lambda>i. i = GStar) items = replicate (length (takeWhile (\<lambda>i. i = GStar) items)) GStar"
    by (metis (full_types) replicate_length_same set_takeWhileD)
  then have "items = replicate (length (takeWhile (\<lambda>i. i = GStar) items)) GStar @ rest"
    unfolding rest_def by (metis takeWhile_dropWhile_id)
  moreover have "items \<noteq> [] \<longrightarrow> (0 < length (takeWhile (\<lambda>i. i = GStar) items) \<longleftrightarrow> hd items = GStar)"
    by (cases items) auto
  ultimately show ?thesis by (metis takeWhile_dropWhile_id)
qed

lemma glob_spec_chunks:
  "sep \<notin> set s \<Longrightarrow> glob_spec items s = glob_chunks (chunks items) s"
proof (induction items arbitrary: s rule: chunks.induct)
  case (1 items)
  show ?case
  proof (cases "items = []")
    case True
    then show ?thesis by (simp add: chunks.simps)
  next
    case False
    let ?rest = "dropWhile (\<lambda>i. i = GStar) items"
    let ?ch = "takeWhile (\<lambda>i. i \<noteq> GStar) ?rest" and ?tl = "dropWhile (\<lambda>i. i \<noteq> GStar) ?rest"
    obtain n where n: "items = replicate n GStar @ ?ch @ ?tl" "0 < n \<longleftrightarrow> hd items = GStar"
      using items_split [of items] False by blast
    have c: "chunks items = (hd items = GStar, ?ch) # chunks ?tl"
      using False by (simp add: chunks.simps [of items] Let_def)
    have IH: "sep \<notin> set t \<Longrightarrow> glob_spec ?tl t = glob_chunks (chunks ?tl) t" for t
      using "1.IH" [OF False refl] by blast
    have ch: "\<forall>i \<in> set ?ch. i \<noteq> GStar" by (auto dest: set_takeWhileD)
    have chunk: "glob_spec (?ch @ ?tl) v = (\<exists>t. match_chunk ?ch v = Some t \<and> glob_chunks (chunks ?tl) t)"
      if "sep \<notin> set v" for v
      using glob_spec_chunk [OF ch, of ?tl v] IH match_chunk_sep [OF _ that] by metis
    show ?thesis
    proof (cases n)
      case 0
      then have "glob_spec items s = glob_spec (?ch @ ?tl) s" using n(1) by simp
      then show ?thesis unfolding c using chunk "1.prems" 0 n(2) by auto
    next
      case (Suc m)
      then have "glob_spec items s = (\<exists>u v. s = u @ v \<and> glob_spec (?ch @ ?tl) v)"
        using n(1) glob_spec_stars [OF "1.prems", of m "?ch @ ?tl"] by simp
      also have "\<dots> = (\<exists>u v t. s = u @ v \<and> match_chunk ?ch v = Some t \<and> glob_chunks (chunks ?tl) t)"
        using chunk "1.prems" by (metis Un_iff set_append)
      finally show ?thesis unfolding c using Suc n(2) by simp
    qed
  qed
qed

section \<open>Leftmost placement loses nothing\<close>

text \<open>More text in front of a star changes nothing.\<close>

lemma glob_chunks_prefix:
  assumes "glob_chunks ((True, ch) # cs) t"
  shows "glob_chunks ((True, ch) # cs) (w @ t)"
proof -
  obtain u v t' where "t = u @ v" "match_chunk ch v = Some t'" "glob_chunks cs t'"
    using assms by auto
  then show ?thesis
    by (simp only: glob_chunks.simps) (intro exI [of _ "w @ u"] exI [of _ v] exI [of _ t'], simp)
qed

lemma find_chunk_Some:
  "find_chunk lst ch s = Some t \<Longrightarrow> \<exists>u v. s = u @ v \<and> match_chunk ch v = Some t \<and> (lst \<longrightarrow> t = [])"
proof (induction lst ch s rule: find_chunk.induct)
  case (1 lst ch)
  then show ?case by (auto split: option.splits if_splits)
next
  case (2 lst ch c s)
  show ?case
  proof (cases "\<exists>t'. match_chunk ch (c # s) = Some t' \<and> (t' = [] \<or> \<not> lst)")
    case True
    then have "match_chunk ch (c # s) = Some t \<and> (lst \<longrightarrow> t = [])"
      using "2.prems" by (auto split: option.splits if_splits)
    then show ?thesis by (intro exI [of _ "[]"] exI [of _ "c # s"]) simp
  next
    case False
    then have "c \<noteq> sep" "find_chunk lst ch s = Some t"
      using "2.prems" by (auto simp: Let_def split: option.splits if_splits)
    then obtain u v where "s = u @ v" "match_chunk ch v = Some t" "lst \<longrightarrow> t = []"
      using "2.IH" by (metis (full_types))
    then show ?thesis by (intro exI [of _ "c # u"] exI [of _ v]) simp
  qed
qed

lemma drop_more: "n \<le> length v \<Longrightarrow> \<exists>w. drop n (x @ v) = w @ drop n v"
proof -
  assume "n \<le> length v"
  then have "drop n ((x @ take n v) @ drop n v) = drop n (x @ take n v) @ drop n v"
    by (subst drop_append) simp
  then show ?thesis by auto
qed

text \<open>It finds the leftmost place, so the one it leaves more text behind.\<close>

lemma find_chunk_leftmost:
  "sep \<notin> set u \<Longrightarrow> match_chunk ch v = Some t \<Longrightarrow> (lst \<longrightarrow> t = []) \<Longrightarrow>
   \<exists>t' w. find_chunk lst ch (u @ v) = Some t' \<and> t' = w @ t"
proof (induction u)
  case Nil
  then have "find_chunk lst ch v = Some t" by (cases v) auto
  then show ?case by auto
next
  case (Cons c u)
  then obtain t' w where IH: "find_chunk lst ch (u @ v) = Some t'" "t' = w @ t" by auto
  show ?case
  proof (cases "\<exists>t'. match_chunk ch (c # u @ v) = Some t' \<and> (t' = [] \<or> \<not> lst)")
    case True
    then obtain t2 where t2: "match_chunk ch (c # u @ v) = Some t2" "t2 = [] \<or> \<not> lst" by blast
    then have f: "find_chunk lst ch ((c # u) @ v) = Some t2" by auto
    have "t2 = drop (length ch) ((c # u) @ v)" "t = drop (length ch) v" "length ch \<le> length v"
      using match_chunk_drop t2(1) Cons.prems(2) by (metis append_Cons, metis, metis)
    then have "\<exists>w. t2 = w @ t" by (metis drop_more)
    with f show ?thesis by auto
  next
    case False
    then have "find_chunk lst ch ((c # u) @ v) = find_chunk lst ch (u @ v)"
      using Cons.prems(1) by (auto simp: Let_def split: option.splits)
    with IH show ?thesis by auto
  qed
qed

text \<open>What \<open>chunks\<close> produces: only the first chunk may have no star, only the last may be empty.\<close>

fun wf_chunks :: "(bool \<times> gitem list) list \<Rightarrow> bool" where
  "wf_chunks [] = True"
| "wf_chunks ((star, ch) # cs) = ((ch = [] \<longrightarrow> cs = []) \<and> list_all fst cs \<and> wf_chunks cs)"

lemma chunks_Nil: "chunks items = [] \<longleftrightarrow> items = []"
  by (simp add: chunks.simps [of items] Let_def)

lemma takeWhile_first: "xs \<noteq> [] \<Longrightarrow> hd xs \<noteq> c \<Longrightarrow> takeWhile (\<lambda>i. i \<noteq> c) xs \<noteq> []"
  by (cases xs) auto

lemma wf_chunks_chunks: "wf_chunks (chunks items) \<and> list_all fst (tl (chunks items))
    \<and> (items \<noteq> [] \<and> hd items = GStar \<longrightarrow> list_all fst (chunks items))"
proof (induction items rule: chunks.induct)
  case (1 items)
  show ?case
  proof (cases "items = []")
    case False
    let ?rest = "dropWhile (\<lambda>i. i = GStar) items"
    let ?tl = "dropWhile (\<lambda>i. i \<noteq> GStar) ?rest"
    have c: "chunks items = (hd items = GStar, takeWhile (\<lambda>i. i \<noteq> GStar) ?rest) # chunks ?tl"
      using False by (simp add: chunks.simps [of items] Let_def)
    have IH: "wf_chunks (chunks ?tl)" "?tl \<noteq> [] \<and> hd ?tl = GStar \<longrightarrow> list_all fst (chunks ?tl)"
      using "1.IH" [OF False refl] by blast+
    have st: "list_all fst (chunks ?tl)"
    proof (cases "?tl = []")
      case True
      then have "chunks ?tl = []" by (simp only: chunks_Nil)
      then show ?thesis by simp
    next
      case False
      then have "hd ?tl = GStar" using hd_dropWhile [of "\<lambda>i. i \<noteq> GStar" ?rest] by blast
      with IH(2) False show ?thesis by blast
    qed
    have e: "?tl = []" if ch: "takeWhile (\<lambda>i. i \<noteq> GStar) ?rest = []"
    proof (cases "?rest = []")
      case ne: False
      then have "hd ?rest \<noteq> GStar" using hd_dropWhile [of "\<lambda>i. i = GStar" items] by blast
      then have "takeWhile (\<lambda>i. i \<noteq> GStar) ?rest \<noteq> []" by (rule takeWhile_first [OF ne])
      with ch show ?thesis by contradiction
    next
      case True
      then show ?thesis by (simp only: dropWhile.simps)
    qed
    have "takeWhile (\<lambda>i. i \<noteq> GStar) ?rest = [] \<longrightarrow> chunks ?tl = []"
      unfolding chunks_Nil using e by (rule impI)
    then show ?thesis unfolding c using IH(1) st by simp
  qed (simp add: chunks.simps)
qed

lemma match_chunks_glob:
  "wf_chunks cs \<Longrightarrow> sep \<notin> set s \<Longrightarrow> match_chunks cs s = glob_chunks cs s"
proof (induction cs arbitrary: s)
  case (Cons p cs)
  obtain star ch where p: "p = (star, ch)" by fastforce
  note wf = Cons.prems(1) [unfolded p]
  show ?case
  proof (cases star)
    case False
    have "match_chunks cs t = glob_chunks cs t" if "match_chunk ch s = Some t" for t
      using Cons.IH wf match_chunk_sep [OF that Cons.prems(2)] by simp
    then show ?thesis using False p by (cases "match_chunk ch s"; cases cs) auto
  next
    case star: True
    show ?thesis
    proof (cases "ch = []")
      case True
      then show ?thesis using star p wf Cons.prems(2) by simp
    next
      case False
      have m: "match_chunks (p # cs) s
          = (case find_chunk (cs = []) ch s of None \<Rightarrow> False | Some t \<Rightarrow> match_chunks cs t)"
        using star False p by simp
      show ?thesis
      proof
        assume "match_chunks (p # cs) s"
        then obtain t where t: "find_chunk (cs = []) ch s = Some t" "match_chunks cs t"
          unfolding m by (auto split: option.splits)
        from find_chunk_Some [OF t(1)] obtain u v where uv: "s = u @ v" "match_chunk ch v = Some t" by blast
        have "sep \<notin> set t" using match_chunk_sep [OF uv(2)] uv(1) Cons.prems(2) by auto
        then have "glob_chunks cs t" using Cons.IH wf t(2) by simp
        then show "glob_chunks (p # cs) s" using uv star p by auto
      next
        assume "glob_chunks (p # cs) s"
        then obtain u v t where g: "s = u @ v" "match_chunk ch v = Some t" "glob_chunks cs t"
          using p by auto
        then have "cs = [] \<longrightarrow> t = []" "sep \<notin> set u" using Cons.prems(2) by auto
        with find_chunk_leftmost [of u ch v t "cs = []"] g obtain t' w where
          f: "find_chunk (cs = []) ch s = Some t'" "t' = w @ t" by auto
        from find_chunk_Some [OF f(1)] obtain u' v' where
          f2: "s = u' @ v'" "match_chunk ch v' = Some t'" "cs = [] \<longrightarrow> t' = []" by blast
        have "glob_chunks cs t'"
        proof (cases cs)
          case Nil
          then show ?thesis using f2 by simp
        next
          case (Cons q cs2)
          then obtain ch2 where "q = (True, ch2)" using wf by (cases q) auto
          then show ?thesis using glob_chunks_prefix g(3) f(2) Cons by simp
        qed
        moreover have "sep \<notin> set t'" using match_chunk_sep [OF f2(2)] f2(1) Cons.prems(2) by auto
        ultimately have "match_chunks cs t'" using Cons.IH wf by simp
        then show "match_chunks (p # cs) s" unfolding m using f(1) by simp
      qed
    qed
  qed
qed simp

text \<open>The library's algorithm decides the declarative meaning, for text without a separator.\<close>

lemma filepath_Match_spec:
  assumes "sep \<notin> set name"
  shows "filepath_Match pattern name \<longleftrightarrow> (\<exists>items. parse_glob pattern = Some items \<and> glob_spec items name)"
  using match_chunks_glob [OF _ assms] wf_chunks_chunks glob_spec_chunks [OF assms]
  by (auto simp: filepath_Match_def split: option.splits)

end
