(* ===== verification/Router.thy ===== *)
theory Router
  imports NetParse Glob
begin

text \<open>
  The router (\<open>internal/router/router.go\<close>): rules from CIDR and domain patterns, first match, hot
  update.  \<open>uni\<close> is the Unicode case mapping that \<open>strings.ToLower\<close> applies to text with a byte
  above 127; it is a parameter of everything that lowers text.
\<close>

section \<open>The code\<close>

record route =
  RouteMatch :: string
  RouteUpstream :: string

record rule =
  cidr :: "IPNet option"
  domain :: string
  upstream :: string

record Router =
  rules :: "rule list"
  defaultName :: string

record RouterConfig =
  CfgRoutes :: "route list"
  CfgDefault :: string

definition DirectConnection :: string where
  "DirectConnection = ''DIRECT''"

definition lower_char :: "char \<Rightarrow> char" where
  "lower_char c =
    (let n = of_char c :: nat in if 65 \<le> n \<and> n \<le> 90 then char_of (n + 32) else c)"

definition ToLower :: "(string \<Rightarrow> string) \<Rightarrow> string \<Rightarrow> string" where
  "ToLower uni s = (if list_all (\<lambda>c. (of_char c :: nat) < 128) s then map lower_char s else uni s)"

fun parseRules :: "(string \<Rightarrow> string) \<Rightarrow> route list \<Rightarrow> go_error + rule list" where
  "parseRules uni [] = Inr []"
| "parseRules uni (r # rs) =
    (case (if CHR ''/'' \<in> set (RouteMatch r) then
             (case ParseCIDR (RouteMatch r) of
                None \<Rightarrow> Inl (Wrapped ''invalid CIDR: '' [OtherError ''invalid CIDR address''])
              | Some n \<Rightarrow> Inr \<lparr>cidr = Some n, domain = [], upstream = RouteUpstream r\<rparr>)
           else Inr \<lparr>cidr = None, domain = ToLower uni (RouteMatch r), upstream = RouteUpstream r\<rparr>) of
       Inl e \<Rightarrow> Inl e
     | Inr rl \<Rightarrow>
         (case parseRules uni rs of
            Inl e \<Rightarrow> Inl e
          | Inr rls \<Rightarrow> Inr (rl # rls)))"

definition NewRouter :: "(string \<Rightarrow> string) \<Rightarrow> RouterConfig \<Rightarrow> go_error + Router" where
  "NewRouter uni cfg =
    (case parseRules uni (CfgRoutes cfg) of
       Inl e \<Rightarrow> Inl e
     | Inr rls \<Rightarrow> Inr \<lparr>rules = rls, defaultName = CfgDefault cfg\<rparr>)"

text \<open>\<open>Update\<close>: the new error, if any, and the router afterwards.\<close>

definition Update :: "(string \<Rightarrow> string) \<Rightarrow> RouterConfig \<Rightarrow> Router \<Rightarrow> go_error option \<times> Router" where
  "Update uni cfg r =
    (case parseRules uni (CfgRoutes cfg) of
       Inl e \<Rightarrow> (Some e, r)
     | Inr rls \<Rightarrow> (None, r\<lparr>rules := rls, defaultName := CfgDefault cfg\<rparr>))"

definition has_prefix :: "string \<Rightarrow> string \<Rightarrow> bool" where
  "has_prefix s p = (take (length p) s = p)"

definition has_suffix :: "string \<Rightarrow> string \<Rightarrow> bool" where
  "has_suffix s p = (length p \<le> length s \<and> drop (length s - length p) s = p)"

definition matchDomain :: "string \<Rightarrow> string \<Rightarrow> bool" where
  "matchDomain pattern host =
    (if has_prefix pattern ''*.'' then has_suffix host (tl pattern)
     else filepath_Match pattern host)"

fun match_ip_rules :: "ip \<Rightarrow> rule list \<Rightarrow> string option" where
  "match_ip_rules x [] = None"
| "match_ip_rules x (rl # rls) =
    (case cidr rl of
       Some n \<Rightarrow> if Contains n x then Some (upstream rl) else match_ip_rules x rls
     | None \<Rightarrow> match_ip_rules x rls)"

fun match_domain_rules :: "string \<Rightarrow> rule list \<Rightarrow> string option" where
  "match_domain_rules h [] = None"
| "match_domain_rules h (rl # rls) =
    (if domain rl \<noteq> [] \<and> matchDomain (domain rl) h then Some (upstream rl)
     else match_domain_rules h rls)"

definition Match :: "(string \<Rightarrow> string) \<Rightarrow> string \<Rightarrow> Router \<Rightarrow> string" where
  "Match uni addr r =
    (let host = (case SplitHostPort addr of Some (h, _) \<Rightarrow> h | None \<Rightarrow> addr) in
     case (case ParseIP host of
             Some x \<Rightarrow> match_ip_rules x (rules r)
           | None \<Rightarrow> match_domain_rules (ToLower uni host) (rules r)) of
       Some u \<Rightarrow> u
     | None \<Rightarrow> defaultName r)"

section \<open>Networks against IPv4 addresses\<close>

text \<open>
  What a CIDR route means for an IPv4 address: its first \<open>n\<close> bits; an IPv6 network covers IPv4
  addresses only below the mapped prefix, so with at least 96 bits.
\<close>

definition covers_v4 :: "string \<Rightarrow> ip \<Rightarrow> bool" where
  "covers_v4 m x =
    (case (ParseAddr (takeWhile (\<lambda>c. c \<noteq> CHR ''/'') m), parse_digits (tl (dropWhile (\<lambda>c. c \<noteq> CHR ''/'') m))) of
       (Some (V4 net), Some n) \<Rightarrow> take (nat n) (bits_of net) = take (nat n) (bits_of x)
     | (Some (V6 net), Some n) \<Rightarrow>
         96 \<le> n \<and> take (nat n) (bits_of net) = take (nat n) (bits_of (v4InV6Prefix @ x))
     | _ \<Rightarrow> False)"

lemma map2_and_idem: "map2 (AND) (map2 (AND) a m) m = map2 (AND) a (m :: bytes)"
  by (induction a arbitrary: m) (auto split: list.splits simp: zip_Cons1 and.assoc)

lemma length_CIDRMask [simp]: "length (CIDRMask n l) = l"
  by (induction n l rule: CIDRMask.induct) auto

lemma length_v4InV6Prefix [simp]: "length v4InV6Prefix = 12"
  by (simp add: v4InV6Prefix_def)

lemma CIDRMask_full: "8 * k \<le> n \<Longrightarrow> k \<le> l \<Longrightarrow> take k (CIDRMask n l) = replicate k 0xff"
proof (induction n l arbitrary: k rule: CIDRMask.induct)
  case (2 n l)
  then show ?case by (cases k) auto
qed simp

lemma CIDRMask_part: "n < 8 * Suc k \<Longrightarrow> k < l \<Longrightarrow> CIDRMask n l ! k \<noteq> 0xff"
proof (induction n l arbitrary: k rule: CIDRMask.induct)
  case (2 n l)
  show ?case
  proof (cases k)
    case 0
    with 2 have n: "n < 8" by simp
    have ff: "(0xff :: byte) = - 1" by simp
    have "\<not> bit (NOT (drop_bit n (0xff :: byte))) 0"
      using n unfolding ff by (simp add: bit_not_iff bit_drop_bit_eq bit_mask_iff)
    then have "NOT (drop_bit n (0xff :: byte)) \<noteq> 0xff" unfolding ff by auto
    with n 0 show ?thesis by simp
  next
    case (Suc k')
    then show ?thesis using 2 by (cases "8 \<le> n") auto
  qed
qed simp

lemma and_full: "map2 (AND) x (replicate (length x) (0xff :: byte)) = x"
proof -
  have ff: "(0xff :: byte) = - 1" by simp
  show ?thesis unfolding ff by (induction x) auto
qed

text \<open>The first twelve bytes of a masked 16-byte address are the mapped prefix.\<close>

lemma take_map2: "take k (map2 f xs ys) = map2 f (take k xs) (take k ys)"
  by (simp add: take_map take_zip)

lemma drop_map2: "drop k (map2 f xs ys) = map2 f (drop k xs) (drop k ys)"
  by (simp add: drop_map drop_zip)

lemma map2_append: "length a = length m \<Longrightarrow> map2 f (a @ b) (m @ m') = map2 f a m @ map2 f b m'"
  by simp

lemma and_all_ones:
  assumes "a AND b = (- 1 :: byte)"
  shows "b = - 1"
proof (rule bit_word_eqI)
  fix k :: nat assume "k < LENGTH(8)"
  then have "bit (a AND b) k" using assms by simp
  then show "bit b k = bit (- 1 :: byte) k" using \<open>k < LENGTH(8)\<close> by (simp add: bit_and_iff)
qed

lemma mapped_prefix_bits:
  assumes net: "length net = 16" and n: "n \<le> 128"
  shows "take 12 (map2 (AND) net (CIDRMask n 16)) = v4InV6Prefix
    \<longleftrightarrow> 96 \<le> n \<and> take 12 net = v4InV6Prefix"
proof (cases "96 \<le> n")
  case True
  then have "take 12 (CIDRMask n 16) = replicate 12 0xff" using CIDRMask_full [of 12 n 16] by simp
  moreover have "length (take 12 net) = 12" using net by simp
  ultimately show ?thesis using True and_full [of "take 12 net"] by (simp add: take_map2)
next
  case False
  have "take 12 (map2 (AND) net (CIDRMask n 16)) \<noteq> v4InV6Prefix"
  proof
    assume "take 12 (map2 (AND) net (CIDRMask n 16)) = v4InV6Prefix"
    moreover have "take 12 (map2 (AND) net (CIDRMask n 16)) ! 11 = map2 (AND) net (CIDRMask n 16) ! 11"
      by (rule nth_take) simp
    ultimately have "map2 (AND) net (CIDRMask n 16) ! 11 = v4InV6Prefix ! 11" by simp
    then have m: "net ! 11 AND CIDRMask n 16 ! 11 = 0xff"
      using net by (simp add: v4InV6Prefix_list)
    have "CIDRMask n 16 ! 11 = 0xff"
    proof -
      have ff: "(0xff :: byte) = - 1" by simp
      show ?thesis using and_all_ones m unfolding ff by blast
    qed
    then show False using CIDRMask_part [of n 11 16] False by simp
  qed
  with False show ?thesis by simp
qed

lemma Contains_v4_net:
  assumes "length net = 4" "length x = 4" "n \<le> 32"
  shows "Contains \<lparr>NetIP = ip_mask (v4InV6Prefix @ net) (CIDRMask n 4), NetMask = CIDRMask n 4\<rparr> (v4InV6Prefix @ x)
    \<longleftrightarrow> take n (bits_of net) = take n (bits_of x)"
proof -
  have "ip_mask (v4InV6Prefix @ net) (CIDRMask n 4) = map2 (AND) net (CIDRMask n 4)"
    using assms by (simp add: ip_mask_def)
  moreover have "To4 (v4InV6Prefix @ x) = Some x" using assms by (simp add: To4_def)
  ultimately show ?thesis
    using assms mask_bits [of net 4 x n]
    by (simp add: Contains_def networkNumberAndMask_def map2_and_idem)
qed

lemma Contains_v6_net:
  assumes "length net = 16" "length x = 4" "n \<le> 128"
  shows "Contains \<lparr>NetIP = ip_mask net (CIDRMask n 16), NetMask = CIDRMask n 16\<rparr> (v4InV6Prefix @ x)
    \<longleftrightarrow> 96 \<le> n \<and> take n (bits_of net) = take n (bits_of (v4InV6Prefix @ x))"
proof -
  let ?m = "CIDRMask n 16"
  let ?y = "map2 (AND) net ?m"
  have y: "ip_mask net ?m = ?y" "length ?y = 16" using assms by (simp_all add: ip_mask_def)
  have x: "To4 (v4InV6Prefix @ x) = Some x" using assms by (simp add: To4_def)
  show ?thesis
  proof (cases "take 12 ?y = v4InV6Prefix")
    case False
    then have "To4 ?y = None" using y by (simp add: To4_def)
    then have "\<not> Contains \<lparr>NetIP = ip_mask net ?m, NetMask = ?m\<rparr> (v4InV6Prefix @ x)"
      using assms y x by (simp add: Contains_def networkNumberAndMask_def)
    moreover have "take 12 net = v4InV6Prefix"
      if "96 \<le> n" "take n (bits_of net) = take n (bits_of (v4InV6Prefix @ x))"
    proof -
      have "map2 (AND) net ?m = map2 (AND) (v4InV6Prefix @ x) ?m"
        using mask_bits [of net 16 "v4InV6Prefix @ x" n] assms that by simp
      then have "take 12 ?y = map2 (AND) v4InV6Prefix (take 12 ?m)" by (simp add: take_map2)
      also have "take 12 ?m = replicate 12 0xff" using CIDRMask_full [of 12 n 16] that by simp
      finally have "take 12 ?y = v4InV6Prefix" using and_full [of v4InV6Prefix] by simp
      with False show ?thesis by contradiction
    qed
    ultimately show ?thesis using False mapped_prefix_bits [OF assms(1,3)] by blast
  next
    case True
    then have n: "96 \<le> n" "take 12 net = v4InV6Prefix" using mapped_prefix_bits [OF assms(1,3)] by simp_all
    have "To4 ?y = Some (drop 12 ?y)" using True y by (simp add: To4_def)
    then have "Contains \<lparr>NetIP = ip_mask net ?m, NetMask = ?m\<rparr> (v4InV6Prefix @ x)
        \<longleftrightarrow> map2 (AND) (drop 12 ?y) (drop 12 ?m) = map2 (AND) x (drop 12 ?m)"
      using assms y x by (simp add: Contains_def networkNumberAndMask_def)
    also have "\<dots> \<longleftrightarrow> map2 (AND) (drop 12 net) (drop 12 ?m) = map2 (AND) x (drop 12 ?m)"
      by (simp add: drop_map2 map2_and_idem)
    also have "\<dots> \<longleftrightarrow> map2 (AND) net ?m = map2 (AND) (v4InV6Prefix @ x) ?m"
    proof -
      have "map2 (AND) net ?m = map2 (AND) (take 12 net) (take 12 ?m) @ map2 (AND) (drop 12 net) (drop 12 ?m)"
        by (metis append_take_drop_id drop_map2 take_map2)
      moreover have "map2 (AND) (v4InV6Prefix @ x) ?m
          = map2 (AND) v4InV6Prefix (take 12 ?m) @ map2 (AND) x (drop 12 ?m)"
        using map2_append [of v4InV6Prefix "take 12 ?m" "(AND)" x "drop 12 ?m"] by simp
      ultimately show ?thesis using n(2) by simp
    qed
    also have "\<dots> \<longleftrightarrow> take n (bits_of net) = take n (bits_of (v4InV6Prefix @ x))"
      using mask_bits [of net 16 "v4InV6Prefix @ x" n] assms by simp
    finally show ?thesis using n by simp
  qed
qed

section \<open>Lengths of parsed addresses\<close>

lemma parse_v4_length: "parse_v4 s = Some x \<Longrightarrow> length x = 4"
  by (auto simp: parse_v4_def split: list.splits option.splits)

lemma v6_finish_length: "v6_finish out ell s = Some x \<Longrightarrow> length out \<le> 16 \<Longrightarrow> length x = 16"
  by (auto simp: v6_finish_def split: if_splits option.splits)

lemma v6_loop_length:
  "v6_loop out ell s = Some x \<Longrightarrow> length out \<le> 16 \<Longrightarrow> even (length out) \<Longrightarrow> length x = 16"
proof (induction out ell s rule: v6_loop.induct)
  case (1 out ell s)
  let ?h = "takeWhile is_hex s"
  let ?out2 = "out @ [word_of_int (hex_value ?h div 256), word_of_int (hex_value ?h)]"
  show ?case
  proof (cases "16 \<le> length out")
    case True
    then show ?thesis using "1.prems" v6_finish_length by (simp add: v6_loop.simps [of out])
  next
    case False
    then have "length out < 16" by simp
    moreover have "length out \<noteq> 15" using "1.prems"(3) by auto
    ultimately have o2: "length ?out2 \<le> 16" "even (length ?out2)" using "1.prems"(3) by auto
    from "1.prems"(1) False consider
        "v6_finish ?out2 ell [] = Some x"
      | b where "parse_v4 s = Some b" "length out + 4 \<le> 16" "v6_finish (out @ b) ell [] = Some x"
      | "v6_finish ?out2 (Some (length ?out2)) [] = Some x"
      | c r where "\<not> (?h = [] \<or> 4 < length ?h)" "dropWhile is_hex s = c # r" "c \<noteq> CHR ''.''" "\<not> (c \<noteq> CHR '':'' \<or> r = [])"
          "hd r = CHR '':''" "\<not> ell \<noteq> None" "tl r \<noteq> []" "v6_loop ?out2 (Some (length ?out2)) (tl r) = Some x"
      | c r where "\<not> (?h = [] \<or> 4 < length ?h)" "dropWhile is_hex s = c # r" "c \<noteq> CHR ''.''" "\<not> (c \<noteq> CHR '':'' \<or> r = [])"
          "hd r \<noteq> CHR '':''" "v6_loop ?out2 ell r = Some x"
      unfolding v6_loop.simps [of out]
      by (auto simp: Let_def split: if_splits list.splits option.splits)
    then show ?thesis
    proof cases
      case 1
      then show ?thesis using o2 v6_finish_length by blast
    next
      case (2 b)
      then show ?thesis using v6_finish_length [of "out @ b"] parse_v4_length [of s b] by simp
    next
      case 3
      then show ?thesis using o2 v6_finish_length by blast
    next
      case (4 c r)
      then show ?thesis using "1.IH"(1) [OF False refl refl refl 4(1,2,3,4,5,6,7,8) o2] by blast
    next
      case (5 c r)
      then show ?thesis using "1.IH"(2) [OF False refl refl refl 5(1,2,3,4,5,6) o2] by blast
    qed
  qed
qed

lemma ParseAddr_length:
  "ParseAddr s = Some (V4 x) \<Longrightarrow> length x = 4" "ParseAddr s = Some (V6 x) \<Longrightarrow> length x = 16"
  by (auto simp: ParseAddr_def parse_v6_def parse_v4_length v6_loop_length
      split: list.splits if_splits option.splits)

lemma parse_digits_nonneg: "parse_digits s = Some n \<Longrightarrow> 0 \<le> n"
proof -
  have "list_all is_digit s \<Longrightarrow> 0 \<le> digits_val s"
    by (induction s rule: rev_induct) (auto simp: digits_val_def digit_val_def is_digit_def)
  then show "parse_digits s = Some n \<Longrightarrow> 0 \<le> n" by (auto simp: parse_digits_def split: if_splits)
qed

text \<open>So a parsed CIDR route contains an IPv4 address exactly when its text covers it.\<close>

lemma Contains_covers:
  assumes "ParseCIDR m = Some n" and x: "length x = 4"
  shows "Contains n (v4InV6Prefix @ x) = covers_v4 m x"
proof -
  obtain a k where a: "ParseAddr (takeWhile (\<lambda>c. c \<noteq> CHR ''/'') m) = Some a"
    and k: "parse_digits (tl (dropWhile (\<lambda>c. c \<noteq> CHR ''/'') m)) = Some k"
    using assms(1) by (auto simp: ParseCIDR_def Let_def split: if_splits option.splits)
  have k0: "0 \<le> k" using parse_digits_nonneg [OF k] .
  show ?thesis
  proof (cases a)
    case (V4 net)
    with assms(1) a k have "k \<le> 32"
      "n = \<lparr>NetIP = ip_mask (v4InV6Prefix @ net) (CIDRMask (nat k) 4), NetMask = CIDRMask (nat k) 4\<rparr>"
      by (auto simp: ParseCIDR_def Let_def As16_def split: if_splits)
    moreover have "length net = 4" using ParseAddr_length(1) a V4 by simp
    ultimately show ?thesis
      using Contains_v4_net [of net x "nat k"] x k0 a k V4 by (simp add: covers_v4_def)
  next
    case (V6 net)
    with assms(1) a k have "k \<le> 128"
      "n = \<lparr>NetIP = ip_mask net (CIDRMask (nat k) 16), NetMask = CIDRMask (nat k) 16\<rparr>"
      by (auto simp: ParseCIDR_def Let_def As16_def split: if_splits)
    moreover have "length net = 16" using ParseAddr_length(2) a V6 by simp
    ultimately show ?thesis
      using Contains_v6_net [of net x "nat k"] x k0 a k V6 by (simp add: covers_v4_def le_nat_iff)
  qed
qed

end
