(* ===== verification/RouterSpec.thy ===== *)
theory RouterSpec
  imports Router
begin

text \<open>
  What routing means for the targets the SOCKS5 server hands to the router: the text of an IPv4
  address with a port is routed by the first network route that covers its bits, a domain name by
  the first pattern that describes it.
\<close>

section \<open>First match\<close>

definition network_route :: "route \<Rightarrow> bool" where
  "network_route r \<longleftrightarrow> CHR ''/'' \<in> set (RouteMatch r)"

text \<open>The meaning of a domain pattern for a host, both in lower case.\<close>

definition describes :: "string \<Rightarrow> string \<Rightarrow> bool" where
  "describes p h \<longleftrightarrow>
     (if take 2 p = ''*.'' then \<exists>u. h = u @ tl p
      else \<exists>items. parse_glob p = Some items \<and> glob_spec items h)"

text \<open>The upstream of the first route that satisfies a condition, or the default.\<close>

definition first_route :: "(route \<Rightarrow> bool) \<Rightarrow> route list \<Rightarrow> string \<Rightarrow> string" where
  "first_route P routes dflt = (case find P routes of Some r \<Rightarrow> RouteUpstream r | None \<Rightarrow> dflt)"

lemma match_ip_rules_find:
  assumes "parseRules uni routes = Inr rls" and x: "length x = 4"
  shows "match_ip_rules (v4InV6Prefix @ x) rls
    = map_option RouteUpstream (find (\<lambda>r. network_route r \<and> covers_v4 (RouteMatch r) x) routes)"
  using assms(1)
proof (induction routes arbitrary: rls)
  case (Cons r rs)
  show ?case
  proof (cases "network_route r")
    case True
    then obtain n rls' where "ParseCIDR (RouteMatch r) = Some n" "parseRules uni rs = Inr rls'"
      "rls = \<lparr>cidr = Some n, domain = [], upstream = RouteUpstream r\<rparr> # rls'"
      using Cons.prems by (auto simp: network_route_def split: option.splits sum.splits)
    then show ?thesis using Cons.IH Contains_covers [OF _ x] True by simp
  next
    case False
    then obtain rls' where "parseRules uni rs = Inr rls'"
      "rls = \<lparr>cidr = None, domain = ToLower uni (RouteMatch r), upstream = RouteUpstream r\<rparr> # rls'"
      using Cons.prems by (auto simp: network_route_def split: sum.splits)
    then show ?thesis using Cons.IH False by simp
  qed
qed simp

lemma match_domain_rules_find:
  assumes "parseRules uni routes = Inr rls"
  shows "match_domain_rules h rls
    = map_option RouteUpstream (find (\<lambda>r. \<not> network_route r \<and> ToLower uni (RouteMatch r) \<noteq> []
        \<and> matchDomain (ToLower uni (RouteMatch r)) h) routes)"
  using assms
proof (induction routes arbitrary: rls)
  case (Cons r rs)
  then show ?case by (auto simp: network_route_def split: option.splits sum.splits if_splits)
qed simp

lemma matchDomain_describes:
  assumes "sep \<notin> set h"
  shows "matchDomain p h \<longleftrightarrow> describes p h"
proof (cases "take 2 p = ''*.''")
  case True
  have "has_suffix h (tl p) \<longleftrightarrow> (\<exists>u. h = u @ tl p)"
    unfolding has_suffix_def
  proof
    assume "length (tl p) \<le> length h \<and> drop (length h - length (tl p)) h = tl p"
    then show "\<exists>u. h = u @ tl p" by (metis append_take_drop_id)
  qed auto
  with True show ?thesis by (simp add: matchDomain_def has_prefix_def describes_def numeral_2_eq_2)
next
  case False
  then show ?thesis
    using filepath_Match_spec [OF assms] by (simp add: matchDomain_def has_prefix_def describes_def numeral_2_eq_2)
qed

lemma lower_char_sep: "lower_char c = sep \<Longrightarrow> c = sep"
proof -
  assume l: "lower_char c = sep"
  show "c = sep"
  proof (cases "65 \<le> (of_char c :: nat) \<and> (of_char c :: nat) \<le> 90")
    case True
    then have "of_char (lower_char c) = (of_char c + 32 :: nat)" by (simp add: lower_char_def)
    moreover have "of_char sep = (47 :: nat)" by simp
    ultimately show ?thesis using l True by simp
  qed (use l in \<open>auto simp: lower_char_def Let_def\<close>)
qed

lemma ToLower_sep: "list_all (\<lambda>c. (of_char c :: nat) < 128) s \<Longrightarrow> sep \<notin> set s \<Longrightarrow> sep \<notin> set (ToLower uni s)"
  by (auto simp: ToLower_def) (metis lower_char_sep)

section \<open>Routing a request\<close>

definition ipv4_addr :: "ip \<Rightarrow> u16 \<Rightarrow> Addr" where
  "ipv4_addr x p = \<lparr>AType = AtypIPv4, IP = x, ADomain = [], APort = p\<rparr>"

definition domain_addr :: "string \<Rightarrow> u16 \<Rightarrow> Addr" where
  "domain_addr d p = \<lparr>AType = AtypDomain, IP = [], ADomain = d, APort = p\<rparr>"

lemma port_chars: "\<forall>c \<in> set (itoa (uint (p :: u16))). c \<notin> {CHR '':'', CHR ''['', CHR '']''}"
  using itoa_no_sep by (metis insert_iff empty_iff)

lemma ipv4_target:
  assumes "length x = 4"
  shows "SplitHostPort (Addr_String (ipv4_addr x p)) = Some (dotted x, itoa (uint p))"
proof -
  have "x \<noteq> []" using assms by auto
  then have "Addr_String (ipv4_addr x p) = JoinHostPort (dotted x) (itoa (uint p))"
    using assms by (simp add: Addr_String_def ipv4_addr_def IP_String_def)
  then show ?thesis using split_join [OF dotted_no_brackets(1) [OF assms] dotted_no_brackets(2) [OF assms] port_chars] by simp
qed

lemma route_ipv4:
  assumes "parseRules uni (CfgRoutes cfg) = Inr rls" and "length x = 4"
  shows "Match uni (Addr_String (ipv4_addr x p)) \<lparr>rules = rls, defaultName = CfgDefault cfg\<rparr>
    = first_route (\<lambda>r. network_route r \<and> covers_v4 (RouteMatch r) x) (CfgRoutes cfg) (CfgDefault cfg)"
  using match_ip_rules_find [OF assms] ipv4_target [OF assms(2)] ParseIP_dotted [OF assms(2)]
  by (simp add: Match_def first_route_def split: option.split)

text \<open>
  C22. Where a request for an IPv4 address goes.  For every configuration the router accepts, and
  every address and port in the textual form the SOCKS5 server produces, the result is the upstream
  of the first route in the configuration whose network, read from its text, has the same leading
  bits as the address (an IPv6 network covers it only below the mapped prefix), and the default if
  there is none; routes without a slash are never used for it.
\<close>

theorem route_ipv4_request:
  assumes "NewRouter uni cfg = Inr r" and "length x = 4"
  shows "Match uni (Addr_String (ipv4_addr x p)) r
    = first_route (\<lambda>r. network_route r \<and> covers_v4 (RouteMatch r) x) (CfgRoutes cfg) (CfgDefault cfg)"
  using assms route_ipv4 [of uni cfg _ x p] by (auto simp: NewRouter_def split: sum.splits)

text \<open>
  C23. Where a request for a domain name goes.  For every accepted configuration and every name of
  plain characters that is not the text of an IP address, the result is the upstream of the first
  route without a slash whose pattern describes the name, both in lower case: a pattern that starts
  with a star and a dot describes the names that end with the rest, dot included (at any depth);
  any other pattern is read by the grammar of \<open>filepath.Match\<close>, whose leftmost-chunk algorithm
  agrees with the declarative meaning of stars, question marks and classes; a malformed pattern
  describes nothing.
\<close>

theorem route_domain_request:
  assumes "NewRouter uni cfg = Inr r" and "ParseIP d = None"
    and "\<forall>c \<in> set d. (of_char c :: nat) < 128 \<and> c \<notin> {CHR ''/'', CHR ''['', CHR '']''}"
  shows "Match uni (Addr_String (domain_addr d p)) r
    = first_route (\<lambda>r. \<not> network_route r \<and> ToLower uni (RouteMatch r) \<noteq> []
        \<and> describes (ToLower uni (RouteMatch r)) (ToLower uni d)) (CfgRoutes cfg) (CfgDefault cfg)"
proof -
  obtain rls where p: "parseRules uni (CfgRoutes cfg) = Inr rls"
    and r: "r = \<lparr>rules = rls, defaultName = CfgDefault cfg\<rparr>"
    using assms(1) by (auto simp: NewRouter_def split: sum.splits)
  have b: "CHR ''['' \<notin> set d" "CHR '']'' \<notin> set d" using assms(3) by auto
  have s: "SplitHostPort (Addr_String (domain_addr d p)) = Some (d, itoa (uint p))"
    using split_join [OF b port_chars] by (simp add: Addr_String_def domain_addr_def)
  have "sep \<notin> set (ToLower uni d)"
    using assms(3) by (intro ToLower_sep) (auto simp: list_all_iff)
  then show ?thesis
    using match_domain_rules_find [OF p] assms(2)
    by (simp add: Match_def s r first_route_def matchDomain_describes split: option.split)
qed

section \<open>The example configuration\<close>

text \<open>The routes of \<open>config.example.yaml\<close>, in its order.\<close>

definition example_config :: RouterConfig where
  "example_config = \<lparr>CfgRoutes =
     [\<lparr>RouteMatch = ''10.0.0.0/8'', RouteUpstream = ''dev''\<rparr>,
      \<lparr>RouteMatch = ''10.1.0.0/16'', RouteUpstream = ''prod''\<rparr>,
      \<lparr>RouteMatch = ''*.dev.internal'', RouteUpstream = ''dev''\<rparr>,
      \<lparr>RouteMatch = ''*.prod.internal'', RouteUpstream = ''prod''\<rparr>], CfgDefault = ''dev''\<rparr>"

lemma route_ipv4_request_witness:
  "\<exists>r. NewRouter id example_config = Inr r
     \<and> Match id (Addr_String (ipv4_addr [10, 1, 2, 3] 80)) r = ''dev''"
proof -
  have "\<not> (case NewRouter id example_config of Inl _ \<Rightarrow> True | Inr _ \<Rightarrow> False)" by code_simp
  then obtain r where r: "NewRouter id example_config = Inr r" by (auto split: sum.splits)
  have "first_route (\<lambda>r. network_route r \<and> covers_v4 (RouteMatch r) [10, 1, 2, 3]) (CfgRoutes example_config)
      (CfgDefault example_config) = ''dev''" by code_simp
  with route_ipv4_request [OF r, of "[10, 1, 2, 3]" 80] r show ?thesis by auto
qed

lemma route_domain_request_witness:
  "\<exists>r. NewRouter id example_config = Inr r
     \<and> Match id (Addr_String (domain_addr ''DB.prod.internal'' 5432)) r = ''prod''"
proof -
  have "\<not> (case NewRouter id example_config of Inl _ \<Rightarrow> True | Inr _ \<Rightarrow> False)" by code_simp
  then obtain r where r: "NewRouter id example_config = Inr r" by (auto split: sum.splits)
  have ip: "ParseIP ''DB.prod.internal'' = None" by code_simp
  have lower: "ToLower id ''DB.prod.internal'' = ''db.prod.internal''"
    "ToLower id ''*.dev.internal'' = ''*.dev.internal''" "ToLower id ''*.prod.internal'' = ''*.prod.internal''"
    by code_simp+
  have "describes ''*.prod.internal'' ''db.prod.internal''"
    by (simp add: describes_def numeral_2_eq_2)
  moreover have "\<not> describes ''*.dev.internal'' ''db.prod.internal''"
  proof -
    have "\<not> has_suffix ''db.prod.internal'' ''.dev.internal''" by code_simp
    then show ?thesis by (auto simp: describes_def numeral_2_eq_2 has_suffix_def)
  qed
  ultimately have "first_route (\<lambda>r. \<not> network_route r \<and> ToLower id (RouteMatch r) \<noteq> []
        \<and> describes (ToLower id (RouteMatch r)) (ToLower id ''DB.prod.internal''))
        (CfgRoutes example_config) (CfgDefault example_config) = ''prod''"
    by (simp add: first_route_def example_config_def network_route_def lower)
  with route_domain_request [OF r ip, of 5432] r show ?thesis by auto
qed

section \<open>Shadowed routes\<close>

text \<open>The network of a version 4 CIDR route.\<close>

definition route_net :: "string \<Rightarrow> (ip \<times> nat) option" where
  "route_net m =
    (case (ParseAddr (takeWhile (\<lambda>c. c \<noteq> CHR ''/'') m), parse_digits (tl (dropWhile (\<lambda>c. c \<noteq> CHR ''/'') m))) of
       (Some (V4 net), Some n) \<Rightarrow> Some (net, nat n)
     | _ \<Rightarrow> None)"

lemma covers_route_net:
  "route_net m = Some (net, n) \<Longrightarrow> covers_v4 m x \<longleftrightarrow> take n (bits_of net) = take n (bits_of x)"
  by (auto simp: route_net_def covers_v4_def split: option.splits netip.splits)

lemma find_shadowed: "(P b \<Longrightarrow> P a) \<Longrightarrow> find P (pre @ a # mid @ b # post) = find P (pre @ a # mid @ post)"
proof (induction pre)
  case Nil
  have "\<not> P b \<Longrightarrow> find P (mid @ b # post) = find P (mid @ post)" by (induction mid) auto
  with Nil show ?case by auto
qed auto

text \<open>
  A route whose network lies inside the network of an earlier route is dead: for every IPv4
  address the router answers as if that route were not there, wherever it stands after the wider
  one, because the first match wins and not the longest prefix.  The example configuration has
  such a route: \<open>10.1.0.0/16\<close> to \<open>prod\<close> after \<open>10.0.0.0/8\<close> to \<open>dev\<close>.
\<close>

lemma wider_route_shadows:
  assumes "NewRouter uni \<lparr>CfgRoutes = pre @ r1 # mid @ r2 # post, CfgDefault = d\<rparr> = Inr r"
    and "NewRouter uni \<lparr>CfgRoutes = pre @ r1 # mid @ post, CfgDefault = d\<rparr> = Inr r'"
    and "route_net (RouteMatch r1) = Some (n1, k1)" and "route_net (RouteMatch r2) = Some (n2, k2)"
    and "k1 \<le> k2" and "take k1 (bits_of n1) = take k1 (bits_of n2)" and "network_route r1"
    and "length x = 4"
  shows "Match uni (Addr_String (ipv4_addr x p)) r = Match uni (Addr_String (ipv4_addr x p)) r'"
proof -
  let ?P = "\<lambda>r. network_route r \<and> covers_v4 (RouteMatch r) x"
  have "?P r1" if "?P r2"
  proof -
    have "take k2 (bits_of n2) = take k2 (bits_of x)" using that covers_route_net [OF assms(4)] by simp
    then have "take k1 (bits_of n2) = take k1 (bits_of x)" using assms(5) by (metis min.absorb1 take_take)
    with assms(6,7) covers_route_net [OF assms(3)] show ?thesis by simp
  qed
  then have "first_route ?P (pre @ r1 # mid @ r2 # post) d = first_route ?P (pre @ r1 # mid @ post) d"
    using find_shadowed [of ?P r2 r1] by (simp add: first_route_def)
  moreover obtain rls rls' where "parseRules uni (pre @ r1 # mid @ r2 # post) = Inr rls"
    "r = \<lparr>rules = rls, defaultName = d\<rparr>" "parseRules uni (pre @ r1 # mid @ post) = Inr rls'"
    "r' = \<lparr>rules = rls', defaultName = d\<rparr>"
    using assms(1,2) by (auto simp: NewRouter_def split: sum.splits)
  ultimately show ?thesis
    using route_ipv4 [of uni "\<lparr>CfgRoutes = pre @ r1 # mid @ r2 # post, CfgDefault = d\<rparr>" rls x p]
      route_ipv4 [of uni "\<lparr>CfgRoutes = pre @ r1 # mid @ post, CfgDefault = d\<rparr>" rls' x p] assms(8)
    by simp
qed

lemma wider_route_shadows_witness:
  "\<exists>r r'. NewRouter id \<lparr>CfgRoutes = CfgRoutes example_config, CfgDefault = ''x''\<rparr> = Inr r
     \<and> NewRouter id \<lparr>CfgRoutes = [hd (CfgRoutes example_config)] @ drop 2 (CfgRoutes example_config), CfgDefault = ''x''\<rparr> = Inr r'
     \<and> Match id (Addr_String (ipv4_addr [10, 1, 2, 3] 80)) r = Match id (Addr_String (ipv4_addr [10, 1, 2, 3] 80)) r'"
proof -
  let ?cs = "CfgRoutes example_config"
  let ?c = "\<lparr>CfgRoutes = ?cs, CfgDefault = ''x''\<rparr>" and ?c' = "\<lparr>CfgRoutes = [hd ?cs] @ drop 2 ?cs, CfgDefault = ''x''\<rparr>"
  have split: "?cs = [] @ hd ?cs # [] @ ?cs ! 1 # drop 2 ?cs" "[hd ?cs] @ drop 2 ?cs = [] @ hd ?cs # [] @ drop 2 ?cs"
    by (simp_all add: example_config_def)
  have "\<not> (case NewRouter id ?c of Inl _ \<Rightarrow> True | Inr _ \<Rightarrow> False)"
    "\<not> (case NewRouter id ?c' of Inl _ \<Rightarrow> True | Inr _ \<Rightarrow> False)" by code_simp+
  then obtain r r' where r: "NewRouter id ?c = Inr r" "NewRouter id ?c' = Inr r'" by (auto split: sum.splits)
  have n: "route_net (RouteMatch (hd ?cs)) = Some ([10, 0, 0, 0], 8)"
    "route_net (RouteMatch (?cs ! 1)) = Some ([10, 1, 0, 0], 16)" "network_route (hd ?cs)"
    "take 8 (bits_of [10, 0, 0, 0]) = take 8 (bits_of [10, 1, 0, 0])"
    by code_simp+
  have "Match id (Addr_String (ipv4_addr [10, 1, 2, 3] 80)) r = Match id (Addr_String (ipv4_addr [10, 1, 2, 3] 80)) r'"
  proof (rule wider_route_shadows [where pre = "[]" and mid = "[]" and post = "drop 2 ?cs" and d = "''x''",
        OF _ _ n(1,2) _ n(4,3)])
    show "NewRouter id \<lparr>CfgRoutes = [] @ hd ?cs # [] @ ?cs ! 1 # drop 2 ?cs, CfgDefault = ''x''\<rparr> = Inr r"
      using r(1) split(1) by metis
    show "NewRouter id \<lparr>CfgRoutes = [] @ hd ?cs # [] @ drop 2 ?cs, CfgDefault = ''x''\<rparr> = Inr r'"
      using r(2) split(2) by metis
  qed simp_all
  with r show ?thesis by blast
qed

end
