(* ===== verification/SettingsSpec.thy ===== *)
theory SettingsSpec
  imports Settings
begin

text \<open>
  What validation accepts and changes, and when a reload of the configuration file can succeed.
\<close>

section \<open>Validation\<close>

definition aws_ok :: "AWSConfig \<Rightarrow> bool" where
  "aws_ok a \<longleftrightarrow> (AccessKey a = [] \<longleftrightarrow> SecretKey a = []) \<and> (Profile a = [] \<or> AccessKey a = [])
     \<and> (AccessKey a = [] \<or> Region a \<noteq> [])"

definition acceptable :: "Upstream \<Rightarrow> bool" where
  "acceptable u \<longleftrightarrow> Instances u \<noteq> [] \<and> aws_ok (AWS u)"

text \<open>The two defaults of an upstream, and the upstreams that rely on one.\<close>

definition with_defaults :: "Upstream \<Rightarrow> Upstream" where
  "with_defaults u = u\<lparr>
     SSH := (if SshUser (SSH u) = [] then (SSH u)\<lparr>SshUser := ''root''\<rparr> else SSH u),
     AWS := (if Profile (AWS u) = [] \<and> AccessKey (AWS u) = [] then (AWS u)\<lparr>Profile := ''default''\<rparr> else AWS u)\<rparr>"

definition relies_on_default :: "Upstream \<Rightarrow> bool" where
  "relies_on_default u \<longleftrightarrow> SshUser (SSH u) = [] \<or> Profile (AWS u) = [] \<and> AccessKey (AWS u) = []"

lemma validateAWSConfig_iff:
  "fst (validateAWSConfig a) = None \<longleftrightarrow> aws_ok a"
  "aws_ok a \<Longrightarrow> validateAWSConfig a =
     (None, if Profile a = [] \<and> AccessKey a = [] then a\<lparr>Profile := ''default''\<rparr> else a)"
  by (auto simp: validateAWSConfig_def aws_ok_def Let_def)

lemma with_defaults_idem [simp]: "with_defaults (with_defaults u) = with_defaults u"
  by (simp add: with_defaults_def)

lemma acceptable_with_defaults [simp]: "acceptable (with_defaults u) = acceptable u"
  by (auto simp: acceptable_def with_defaults_def aws_ok_def)

lemma with_defaults_id: "with_defaults u = u \<longleftrightarrow> \<not> relies_on_default u"
proof
  assume w: "with_defaults u = u"
  have "\<not> relies_on_default (with_defaults u)"
    by (simp add: relies_on_default_def with_defaults_def)
  then show "\<not> relies_on_default u" unfolding w .
qed (simp add: relies_on_default_def with_defaults_def)

lemma upstreamsEqual_iff: "upstreamsEqual a b \<longleftrightarrow> a = b"
proof -
  have "length xs = length ys \<Longrightarrow> instances_equal xs ys \<longleftrightarrow> xs = ys" for xs ys
    by (induction xs ys rule: list_induct2) auto
  then show ?thesis
    by (cases a; cases b; cases "SSH a"; cases "SSH b"; cases "AWS a"; cases "AWS b")
      (auto simp: upstreamsEqual_def)
qed

text \<open>The store after the loop: every upstream of the map has its defaults.\<close>

definition defaults_in :: "upstream_ptr set \<Rightarrow> store \<Rightarrow> store" where
  "defaults_in P h = h\<lparr>cell := \<lambda>p. if p \<in> P then with_defaults (cell h p) else cell h p\<rparr>"

lemma set_upstream_twice [simp]: "set_upstream p u (set_upstream p v h) = set_upstream p u h"
  by (simp add: set_upstream_def)

lemma defaults_in_single: "defaults_in {p} h = set_upstream p (with_defaults (cell h p)) h"
  by (simp add: defaults_in_def set_upstream_def fun_eq_iff)

lemma validate_upstreams_step:
  assumes "acceptable (cell h p)"
  shows "validate_upstreams ((name, p) # m) h = validate_upstreams m (defaults_in {p} h)"
  using assms validateAWSConfig_iff(2) [of "AWS (cell h p)"]
  by (simp add: acceptable_def Let_def defaults_in_single with_defaults_def)

lemma validate_upstreams_bad:
  assumes "\<not> acceptable (cell h p)"
  shows "fst (validate_upstreams ((name, p) # m) h) \<noteq> None"
proof (cases "Instances (cell h p) = []")
  case False
  then have "fst (validateAWSConfig (AWS (cell h p))) \<noteq> None"
    using assms validateAWSConfig_iff(1) by (simp add: acceptable_def)
  then obtain e a where "validateAWSConfig (AWS (cell h p)) = (Some e, a)"
    by (cases "validateAWSConfig (AWS (cell h p))") auto
  then show ?thesis using False by (simp add: Let_def)
qed (simp add: Let_def)

lemma cell_defaults_in: "cell (defaults_in P h) p = (if p \<in> P then with_defaults (cell h p) else cell h p)"
  by (simp add: defaults_in_def)

lemma defaults_in_defaults_in: "defaults_in P (defaults_in Q h) = defaults_in (Q \<union> P) h"
  by (auto simp: defaults_in_def fun_eq_iff)

lemma validate_upstreams_iff:
  "fst (validate_upstreams m h) = None \<longleftrightarrow> (\<forall>(name, p) \<in> set m. acceptable (cell h p))"
proof (induction m arbitrary: h)
  case (Cons x m)
  obtain name p where x: "x = (name, p)" by fastforce
  show ?case
  proof (cases "acceptable (cell h p)")
    case True
    have "(\<forall>(n, q) \<in> set m. acceptable (cell (defaults_in {p} h) q)) \<longleftrightarrow> (\<forall>(n, q) \<in> set m. acceptable (cell h q))"
      by (intro ball_cong refl) (auto simp: cell_defaults_in)
    then show ?thesis using Cons.IH validate_upstreams_step [OF True, of name m] True x by simp
  next
    case False
    then show ?thesis using validate_upstreams_bad [OF False, of name m] x by auto
  qed
qed simp

lemma validate_upstreams_store:
  "validate_upstreams m h = (None, h1) \<Longrightarrow> h1 = defaults_in (snd ` set m) h"
proof (induction m arbitrary: h)
  case Nil
  then show ?case by (simp add: defaults_in_def)
next
  case (Cons x m)
  obtain name p where x: "x = (name, p)" by fastforce
  have "acceptable (cell h p)"
    using Cons.prems validate_upstreams_bad [of h p name m] x by auto
  then show ?case
    using Cons validate_upstreams_step [of h p name m] x by (simp add: defaults_in_defaults_in)
qed

lemma validate_routes_iff:
  "validate_routes ups rs = None \<longleftrightarrow>
     (\<forall>r \<in> set rs. RMatch r \<noteq> [] \<and> (RUpstream r = ''DIRECT'' \<or> RUpstream r \<in> set (gm_keys ups)))"
  by (induction rs) (auto simp: gm_get_None_iff)

definition known_default :: "Config \<Rightarrow> bool" where
  "known_default c \<longleftrightarrow> Default c = [] \<or> Default c = ''DIRECT'' \<or> Default c \<in> set (gm_keys (Upstreams c))"

definition known_routes :: "Config \<Rightarrow> bool" where
  "known_routes c \<longleftrightarrow>
     (\<forall>r \<in> set (Routes c). RMatch r \<noteq> [] \<and> (RUpstream r = ''DIRECT'' \<or> RUpstream r \<in> set (gm_keys (Upstreams c))))"

lemma validate_cases:
  "validate c h = (None, c', h') \<longleftrightarrow>
     Upstreams c \<noteq> [] \<and> (\<forall>(name, p) \<in> set (Upstreams c). acceptable (cell h p)) \<and> known_default c \<and> known_routes c
     \<and> h' = defaults_in (snd ` set (Upstreams c)) h
     \<and> c' = c\<lparr>Listen := (if Listen c = [] then ''127.0.0.1:28881'' else Listen c),
              SleepDetectionThreshold := (if SleepDetectionThreshold c \<le> 0 then seconds 60 else SleepDetectionThreshold c)\<rparr>"
  (is "?L \<longleftrightarrow> ?R")
proof -
  obtain r h1 where v: "validate_upstreams (Upstreams c) h = (r, h1)" by fastforce
  have ok: "r = None \<longleftrightarrow> (\<forall>(name, p) \<in> set (Upstreams c). acceptable (cell h p))"
    using validate_upstreams_iff [of "Upstreams c" h] v by simp
  have st: "r = None \<Longrightarrow> h1 = defaults_in (snd ` set (Upstreams c)) h"
    using validate_upstreams_store v by blast
  have d: "\<not> (Default c \<noteq> [] \<and> Default c \<noteq> ''DIRECT'' \<and> map_of (Upstreams c) (Default c) = None) \<longleftrightarrow> known_default c"
    by (auto simp: known_default_def gm_get_None_iff)
  have rt: "validate_routes (Upstreams c) (Routes c) = None \<longleftrightarrow> known_routes c"
    by (simp add: validate_routes_iff known_routes_def)
  show ?thesis
  proof (cases "Upstreams c \<noteq> [] \<and> r = None \<and> known_default c \<and> known_routes c")
    case True
    then have "validate c h = (None, c\<lparr>Listen := (if Listen c = [] then ''127.0.0.1:28881'' else Listen c),
              SleepDetectionThreshold := (if SleepDetectionThreshold c \<le> 0 then seconds 60 else SleepDetectionThreshold c)\<rparr>, h1)"
      using v d rt by (simp add: validate_def Let_def)
    then show ?thesis using True ok st by auto
  next
    case False
    then have "fst (validate c h) \<noteq> None"
      using v d rt by (auto simp: validate_def split: option.splits)
    then show ?thesis using False ok by auto
  qed
qed

section \<open>Reloading\<close>

definition options_config :: "Options \<Rightarrow> Config" where
  "options_config opt =
     \<lparr>Listen = OListen opt, DiagListen = ODiagListen opt, CfgAuth = OAuth opt,
      Upstreams = OUpstreams opt, Routes = ORoutes opt, Default = ODefault opt,
      SleepDetectionThreshold = OSleep opt\<rparr>"

lemma ToConfig_file:
  "OTarget opt = [] \<or> OUpstreams opt \<noteq> [] \<Longrightarrow> ToConfig opt h = validated (validate (options_config opt) h)"
  by (auto simp: ToConfig_def options_config_def)

lemma unchanged_loop_iff:
  "unchanged_loop h m new = None \<longleftrightarrow>
     (\<forall>(name, p) \<in> set m. \<exists>q. map_of new name = Some q \<and> cell h p = cell h q)"
proof (induction m)
  case (Cons x m)
  then show ?case by (cases x; cases "map_of new (fst x)") (auto simp: upstreamsEqual_iff)
qed simp

lemma unchanged_loop_error: "unchanged_loop h m new = Some e \<Longrightarrow> e = upstream_changed"
  by (induction m) (auto split: option.splits if_splits)

text \<open>
  The new options read the same upstreams as the old options once did: the same names, with the
  contents the old ones had before any default was written.
\<close>

definition same_upstreams :: "Options \<Rightarrow> store \<Rightarrow> Options \<Rightarrow> store \<Rightarrow> bool" where
  "same_upstreams opt h opt2 h2 \<longleftrightarrow>
     length (OUpstreams opt2) = length (OUpstreams opt)
   \<and> (\<forall>(name, p) \<in> set (OUpstreams opt).
        \<exists>q. map_of (OUpstreams opt2) name = Some q \<and> cell h2 q = cell h p)"

lemma validated_Inr: "validated r = (Inr c, h) \<longleftrightarrow> r = (None, c, h)"
  by (auto simp: validated_def split: prod.splits option.splits)

lemma ToConfig_success:
  assumes "ToConfig opt h = (Inr c, h1)" and "OTarget opt = [] \<or> OUpstreams opt \<noteq> []"
  shows "\<forall>(name, p) \<in> set (OUpstreams opt). acceptable (cell h p) \<and> cell h1 p = with_defaults (cell h p)"
proof -
  have "validate (options_config opt) h = (None, c, h1)"
    using assms by (simp add: ToConfig_file validated_Inr)
  then have "\<forall>(name, p) \<in> set (OUpstreams opt). acceptable (cell h p)"
    and "h1 = defaults_in (snd ` set (OUpstreams opt)) h"
    by (simp_all add: validate_cases options_config_def)
  then show ?thesis by (force simp: cell_defaults_in)
qed

lemma reload_unchanged_iff:
  assumes same: "same_upstreams opt h opt2 h2"
    and kept: "\<forall>(name, p) \<in> set (OUpstreams opt). cell h2 p = with_defaults (cell h p)"
  shows "validateUpstreamsUnchanged opt (OUpstreams opt2) h2 = None
    \<longleftrightarrow> (\<forall>(name, p) \<in> set (OUpstreams opt). \<not> relies_on_default (cell h p))"
proof -
  have "validateUpstreamsUnchanged opt (OUpstreams opt2) h2 = None \<longleftrightarrow>
      (\<forall>(name, p) \<in> set (OUpstreams opt). \<exists>q. map_of (OUpstreams opt2) name = Some q \<and> cell h2 p = cell h2 q)"
    using same by (simp add: validateUpstreamsUnchanged_def same_upstreams_def unchanged_loop_iff)
  also have "\<dots> \<longleftrightarrow> (\<forall>(name, p) \<in> set (OUpstreams opt). with_defaults (cell h p) = cell h p)"
    using same kept by (fastforce simp: same_upstreams_def)
  finally show ?thesis by (simp add: with_defaults_id)
qed


definition plain_upstream :: Upstream where
  "plain_upstream = \<lparr>SSH = \<lparr>SshUser = [], SshKey = ''id''\<rparr>,
     AWS = \<lparr>Profile = ''work'', Region = [], AccessKey = [], SecretKey = []\<rparr>, Instances = [''i-1'']\<rparr>"

definition file_options :: "upstream_ptr \<Rightarrow> string \<Rightarrow> Options" where
  "file_options p d = \<lparr>OConfigFile = ''c.yaml'', ODebug = False, OListen = ''l'', ODiagListen = [],
     OAuth = None, ODefault = d, OSleep = 0, OUpstreams = [(''dev'', p)], ORoutes = [],
     OTarget = [], ORegion = [], OSSHUser = [], OSSHKey = [], OAWSProfile = []\<rparr>"

definition first_store :: store where
  "first_store = \<lparr>cell = \<lambda>_. plain_upstream, next_ptr = 2\<rparr>"

definition file_parser :: parser where
  "file_parser cf h = (Inr (file_options 1 ''DIRECT''), set_upstream 1 plain_upstream h)"


end
