(* ===== verification/Proxy.thy ===== *)
theory Proxy
  imports RouterSpec SettingsSpec SocksServer
begin

text \<open>
  The proxy (\<open>internal/proxy/server.go\<close>) and the wiring of \<open>cmd/session-proxy/main.go\<close>: the router
  built from the configuration, the dial decision per request, the authentication handed to the
  SOCKS5 server, and hot reload.  The pool's and the operating system's dialers are parameters.
\<close>

section \<open>Wiring\<close>

definition router_config :: "Config \<Rightarrow> RouterConfig" where
  "router_config c =
     \<lparr>CfgRoutes = map (\<lambda>r. \<lparr>RouteMatch = RMatch r, RouteUpstream = RUpstream r\<rparr>) (Routes c),
      CfgDefault = Default c\<rparr>"

definition buildRouter :: "(string \<Rightarrow> string) \<Rightarrow> Config \<Rightarrow> go_error + Router" where
  "buildRouter uni c = NewRouter uni (router_config c)"

definition onConfigReload :: "(string \<Rightarrow> string) \<Rightarrow> Config \<Rightarrow> Router \<Rightarrow> Router" where
  "onConfigReload uni c r = snd (Update uni (router_config c) r)"

text \<open>Where the dialer of \<open>NewRoutingServer\<close> sends a request.\<close>

datatype route_choice = Direct | Via string

definition choose_route :: "(string \<Rightarrow> string) \<Rightarrow> Router \<Rightarrow> string \<Rightarrow> route_choice" where
  "choose_route uni r addr =
    (let u = Match uni addr r in
     if u = [] \<or> u = DirectConnection then Direct else Via u)"

text \<open>The dialer, over the direct dialer and the pool's \<open>Dial\<close>.\<close>

definition proxy_dial ::
  "(string \<Rightarrow> 'c) \<Rightarrow> (string \<Rightarrow> string \<Rightarrow> 'c) \<Rightarrow> (string \<Rightarrow> string) \<Rightarrow> Router \<Rightarrow> string \<Rightarrow> 'c" where
  "proxy_dial direct pool uni r addr =
    (case choose_route uni r addr of Direct \<Rightarrow> direct addr | Via u \<Rightarrow> pool u addr)"

definition proxy_auth :: "Config \<Rightarrow> AuthConfig option" where
  "proxy_auth c =
    (case CfgAuth c of
       None \<Rightarrow> None
     | Some a \<Rightarrow> if CAuthUser a \<noteq> [] then Some \<lparr>User = CAuthUser a, Pass = CAuthPass a\<rparr> else None)"

text \<open>
  \<open>filepath.Base\<close> on Unix, and the events of the file watcher on the configuration directory: a
  change with its path and whether it is a write or a creation (with what parsing the file then
  gives), or an error of the watcher.
\<close>

definition filepath_Base :: "string \<Rightarrow> string" where
  "filepath_Base path =
    (if path = [] then ''.''
     else let p = rev (dropWhile (\<lambda>c. c = CHR ''/'') (rev path));
              b = rev (takeWhile (\<lambda>c. c \<noteq> CHR ''/'') (rev p))
          in if b = [] then ''/'' else b)"

datatype watch_input = FileEvent string bool parser | WatcherError

text \<open>
  One round of the loop in \<open>Watch\<close> with the callback of \<open>main.go\<close>: a write or creation of the
  configuration file reloads it, and a successful reload updates the router.
\<close>

definition watch_event ::
  "(string \<Rightarrow> string) \<Rightarrow> Options \<Rightarrow> watch_input \<Rightarrow> Router \<times> store \<Rightarrow> Router \<times> store" where
  "watch_event uni opt ev rs =
    (case ev of
       WatcherError \<Rightarrow> rs
     | FileEvent name changed parse \<Rightarrow>
         if filepath_Base name \<noteq> filepath_Base (OConfigFile opt) then rs
         else if \<not> changed then rs
         else (case reload parse opt (snd rs) of
                 (Inl e, h) \<Rightarrow> (fst rs, h)
               | (Inr c, h) \<Rightarrow> (onConfigReload uni c (fst rs), h)))"

definition watch_run :: "(string \<Rightarrow> string) \<Rightarrow> Options \<Rightarrow> watch_input list \<Rightarrow> Router \<times> store \<Rightarrow> Router \<times> store" where
  "watch_run uni opt evs rs = fold (watch_event uni opt) evs rs"

text \<open>
  The goroutine: it gives up when the directory cannot be watched, and stops when the context is done
  or the watcher's channels are closed; \<open>onConfigReload\<close> is the callback.
\<close>

datatype watch_wait = WatchInput watch_input | WatchStop

fun watch_loop :: "(string \<Rightarrow> string) \<Rightarrow> Options \<Rightarrow> watch_wait list \<Rightarrow> Router \<times> store \<Rightarrow> Router \<times> store" where
  "watch_loop uni opt [] rs = rs"
| "watch_loop uni opt (WatchStop # ws) rs = rs"
| "watch_loop uni opt (WatchInput ev # ws) rs = watch_loop uni opt ws (watch_event uni opt ev rs)"

definition watch_goroutine ::
  "(string \<Rightarrow> string) \<Rightarrow> go_error option \<Rightarrow> Options \<Rightarrow> watch_wait list \<Rightarrow> Router \<times> store \<Rightarrow> Router \<times> store" where
  "watch_goroutine uni addErr opt ws rs = (case addErr of Some e \<Rightarrow> rs | None \<Rightarrow> watch_loop uni opt ws rs)"

text \<open>So what it does is \<open>watch_run\<close> on the inputs before the first stop.\<close>

fun inputs_before_stop :: "watch_wait list \<Rightarrow> watch_input list" where
  "inputs_before_stop (WatchInput ev # ws) = ev # inputs_before_stop ws"
| "inputs_before_stop ws = []"

lemma watch_goroutine_runs: "watch_goroutine uni None opt ws rs = watch_run uni opt (inputs_before_stop ws) rs"
proof -
  have "watch_loop uni opt ws rs = watch_run uni opt (inputs_before_stop ws) rs"
    by (induction ws arbitrary: rs rule: inputs_before_stop.induct) (simp_all add: watch_run_def)
  then show ?thesis by (simp add: watch_goroutine_def)
qed

section \<open>Every answer of the router is an upstream that exists\<close>

definition answers_in :: "string set \<Rightarrow> Router \<Rightarrow> bool" where
  "answers_in K r \<longleftrightarrow> upstream ` set (rules r) \<subseteq> K \<union> {''DIRECT''}
     \<and> defaultName r \<in> K \<union> {''DIRECT'', []}"

lemma match_ip_rules_in: "match_ip_rules x rls = Some u \<Longrightarrow> u \<in> upstream ` set rls"
  by (induction rls) (auto split: option.splits if_splits)

lemma match_domain_rules_in: "match_domain_rules h rls = Some u \<Longrightarrow> u \<in> upstream ` set rls"
  by (induction rls) (auto split: if_splits)

lemma choose_route_in:
  assumes "answers_in K r"
  shows "case choose_route uni r addr of Direct \<Rightarrow> True | Via u \<Rightarrow> u \<in> K"
proof -
  have "Match uni addr r \<in> upstream ` set (rules r) \<or> Match uni addr r = defaultName r"
    using match_ip_rules_in match_domain_rules_in by (fastforce simp: Match_def split: option.splits)
  then show ?thesis
    using assms by (auto simp: choose_route_def answers_in_def DirectConnection_def Let_def)
qed

lemma parseRules_upstreams: "parseRules uni routes = Inr rls \<Longrightarrow> upstream ` set rls = RouteUpstream ` set routes"
proof (induction routes arbitrary: rls)
  case (Cons r rs)
  then obtain n d rls' where "rls = \<lparr>cidr = n, domain = d, upstream = RouteUpstream r\<rparr> # rls'" "parseRules uni rs = Inr rls'"
    by (auto split: if_splits option.splits sum.splits)
  then show ?case using Cons.IH by simp
qed simp

definition known_targets :: "Config \<Rightarrow> bool" where
  "known_targets c \<longleftrightarrow> known_default c \<and> known_routes c"

lemma rules_answers_in:
  assumes "known_targets c" and "parseRules uni (CfgRoutes (router_config c)) = Inr rls"
  shows "answers_in (set (gm_keys (Upstreams c))) \<lparr>rules = rls, defaultName = Default c\<rparr>"
  using parseRules_upstreams [OF assms(2)] assms(1)
  by (auto simp: answers_in_def router_config_def known_targets_def known_default_def known_routes_def image_image)

lemma buildRouter_answers_in:
  "known_targets c \<Longrightarrow> buildRouter uni c = Inr r \<Longrightarrow> answers_in (set (gm_keys (Upstreams c))) r"
  using rules_answers_in [of c uni]
  by (auto simp: buildRouter_def NewRouter_def router_config_def split: sum.splits)

lemma onConfigReload_answers_in:
  assumes "answers_in K r" and "known_targets c" and "set (gm_keys (Upstreams c)) = K"
  shows "answers_in K (onConfigReload uni c r)"
proof (cases "parseRules uni (CfgRoutes (router_config c))")
  case (Inl e)
  then show ?thesis using assms(1) by (simp add: onConfigReload_def Update_def)
next
  case (Inr rls)
  with rules_answers_in [OF assms(2) Inr] assms(3) show ?thesis
    by (simp add: onConfigReload_def Update_def router_config_def answers_in_def)
qed

text \<open>The upstream names of the configuration made from options.\<close>

definition option_names :: "Options \<Rightarrow> string set" where
  "option_names opt =
    (if OTarget opt \<noteq> [] \<and> OUpstreams opt = [] then {''default''} else set (gm_keys (OUpstreams opt)))"

lemma validated_known: "validated (validate c h) = (Inr c', h') \<Longrightarrow> known_targets c' \<and> Upstreams c' = Upstreams c"
  by (auto simp: validated_Inr validate_cases known_targets_def known_default_def known_routes_def)

lemma ToConfig_known:
  assumes "ToConfig opt h = (Inr c, h1)"
  shows "known_targets c \<and> set (gm_keys (Upstreams c)) = option_names opt
    \<and> (gm_ok (OUpstreams opt) \<longrightarrow> gm_ok (Upstreams c))"
proof (cases "OTarget opt \<noteq> [] \<and> OUpstreams opt = []")
  case True
  let ?cfg = "\<lparr>Listen = OListen opt, DiagListen = ODiagListen opt, CfgAuth = OAuth opt,
     Upstreams = [(''default'', next_ptr h)], Routes = [], Default = ''default'', SleepDetectionThreshold = OSleep opt\<rparr>"
  let ?u = "\<lparr>SSH = \<lparr>SshUser = OSSHUser opt, SshKey = OSSHKey opt\<rparr>,
    AWS = \<lparr>Profile = OAWSProfile opt, Region = ORegion opt, AccessKey = [], SecretKey = []\<rparr>,
    Instances = [OTarget opt]\<rparr>"
  have "ToConfig opt h = toLegacyConfig opt h" using True by (simp add: ToConfig_def)
  also have "\<dots> = validated (validate ?cfg (snd (new_upstream ?u h)))"
    using True by (simp only: toLegacyConfig_def new_upstream_def Let_def prod.case snd_conv if_False)
  finally have "validated (validate ?cfg (snd (new_upstream ?u h))) = (Inr c, h1)" using assms by (simp only:)
  from validated_known [OF this] True show ?thesis by (simp add: option_names_def)
next
  case False
  then have "validated (validate (options_config opt) h) = (Inr c, h1)"
    using assms ToConfig_file [of opt h] by auto
  from validated_known [OF this] False show ?thesis
    by (auto simp: options_config_def option_names_def)
qed

lemma unchanged_names:
  assumes "validateUpstreamsUnchanged opt new h = None" and "gm_ok (OUpstreams opt)" and "gm_ok new"
  shows "set (gm_keys new) = set (gm_keys (OUpstreams opt))"
proof -
  have len: "length (OUpstreams opt) = length new"
    and all: "\<forall>(name, p) \<in> set (OUpstreams opt). \<exists>q. map_of new name = Some q"
    using assms(1) by (auto simp: validateUpstreamsUnchanged_def unchanged_loop_iff split: if_splits)
  have sub: "set (gm_keys (OUpstreams opt)) \<subseteq> set (gm_keys new)"
  proof
    fix name assume "name \<in> set (gm_keys (OUpstreams opt))"
    then obtain p where "(name, p) \<in> set (OUpstreams opt)" by (auto simp: gm_keys_def)
    with all obtain q where "map_of new name = Some q" by blast
    then show "name \<in> set (gm_keys new)" by (rule gm_get_Some_key)
  qed
  have "card (set (gm_keys m)) = length m" if "gm_ok m" for m :: "(string, upstream_ptr) gomap"
    using that by (metis distinct_card gm_ok_def length_gm_keys)
  then have "card (set (gm_keys (OUpstreams opt))) = card (set (gm_keys new))"
    using assms(2,3) len by simp
  with sub show ?thesis by (metis card_subset_eq List.finite_set)
qed

text \<open>
  What is assumed of the parser: it gives maps with distinct keys, and the command line, hence the
  legacy target, is the same on every reading.
\<close>

definition honest_parser :: "Options \<Rightarrow> parser \<Rightarrow> bool" where
  "honest_parser opt p \<longleftrightarrow>
     (\<forall>cf h opt2 h2. p cf h = (Inr opt2, h2) \<longrightarrow> gm_ok (OUpstreams opt2) \<and> OTarget opt2 = OTarget opt)"

lemma reload_known:
  assumes "reload p opt h = (Inr c, h1)" and "honest_parser opt p" and "gm_ok (OUpstreams opt)"
  shows "known_targets c \<and> set (gm_keys (Upstreams c)) = option_names opt"
proof -
  obtain opt2 h2 where p: "p (OConfigFile opt) h = (Inr opt2, h2)"
    and u: "validateUpstreamsUnchanged opt (OUpstreams opt2) h2 = None"
    and t: "ToConfig (opt2\<lparr>OConfigFile := OConfigFile opt, ODebug := ODebug opt, OListen := OListen opt\<rparr>) h2 = (Inr c, h1)"
    using assms(1) by (auto simp: reload_def split: prod.splits sum.splits option.splits)
  have o: "gm_ok (OUpstreams opt2)" "OTarget opt2 = OTarget opt"
    using assms(2) p by (auto simp: honest_parser_def)
  have "set (gm_keys (OUpstreams opt2)) = set (gm_keys (OUpstreams opt))"
    by (rule unchanged_names [OF u assms(3) o(1)])
  moreover from this have "OUpstreams opt2 = [] \<longleftrightarrow> OUpstreams opt = []" by (metis gm_keys_empty_iff set_empty)
  ultimately show ?thesis using ToConfig_known [OF t] o(2) by (simp add: option_names_def)
qed

definition honest_event :: "Options \<Rightarrow> watch_input \<Rightarrow> bool" where
  "honest_event opt ev = (case ev of FileEvent name changed p \<Rightarrow> honest_parser opt p | WatcherError \<Rightarrow> True)"

lemma watch_event_answers_in:
  assumes "answers_in (option_names opt) (fst rs)" and "honest_event opt ev" and "gm_ok (OUpstreams opt)"
  shows "answers_in (option_names opt) (fst (watch_event uni opt ev rs))"
proof (cases ev)
  case (FileEvent name changed p)
  obtain res h1 where res: "reload p opt (snd rs) = (res, h1)" by fastforce
  show ?thesis
  proof (cases res)
    case (Inl e)
    then show ?thesis using res assms(1) FileEvent by (simp add: watch_event_def)
  next
    case (Inr c)
    then have "known_targets c \<and> set (gm_keys (Upstreams c)) = option_names opt"
      using reload_known res assms(2,3) FileEvent by (auto simp: honest_event_def)
    then show ?thesis
      using res Inr FileEvent onConfigReload_answers_in [OF assms(1)] assms(1) by (simp add: watch_event_def)
  qed
qed (use assms in \<open>simp add: watch_event_def\<close>)

lemma watch_run_answers_in:
  "answers_in (option_names opt) (fst rs) \<Longrightarrow> list_all (honest_event opt) evs \<Longrightarrow> gm_ok (OUpstreams opt) \<Longrightarrow>
   answers_in (option_names opt) (fst (watch_run uni opt evs rs))"
  unfolding watch_run_def by (induction evs arbitrary: rs) (simp_all add: watch_event_answers_in)

text \<open>
  From a start-up configuration that passed validation, through every sequence of edits of the
  configuration file (readable or not, valid or not, accepted by the router or not), each
  request is dialled directly or sent to an upstream of the start-up configuration.
\<close>

lemma watched_routes_known:
  assumes "ToConfig opt h = (Inr c, h1)" and "buildRouter uni c = Inr r"
    and "gm_ok (OUpstreams opt)" and "list_all (honest_event opt) evs"
  shows "case choose_route uni (fst (watch_run uni opt evs (r, h1))) addr of
      Direct \<Rightarrow> True | Via u \<Rightarrow> u \<in> set (gm_keys (Upstreams c))"
proof -
  have k: "known_targets c" "set (gm_keys (Upstreams c)) = option_names opt"
    using ToConfig_known [OF assms(1)] by simp_all
  have "answers_in (option_names opt) (fst (r, h1))" using buildRouter_answers_in [OF k(1) assms(2)] k(2) by simp
  from choose_route_in [OF watch_run_answers_in [OF this assms(4,3)]] show ?thesis unfolding k(2) .
qed

end
