(* ===== verification/OptionsSpec.thy ===== *)
theory OptionsSpec
  imports OptionsParse Proxy
begin

text \<open>
  What the command line does: where the configuration is looked for, which failures stop the program, and
  that the file watcher reacts to exactly the file that was read.
\<close>

section \<open>Absolute paths\<close>

text \<open>An element that cleaning keeps.\<close>

definition plain :: "string \<Rightarrow> bool" where
  "plain e \<longleftrightarrow> e \<noteq> [] \<and> e \<noteq> ''.'' \<and> e \<noteq> ''..'' \<and> CHR ''/'' \<notin> set e"

lemma split_on_nonempty: "split_on c s \<noteq> []"
  by (cases "(c, s)" rule: split_on.cases) (auto split: list.splits)

lemma split_on_sep: "split_on c (s @ c # t) = split_on c s @ split_on c t"
proof (induction s)
  case (Cons x s)
  then show ?case using split_on_nonempty [of c s] by (cases "split_on c s") auto
qed simp

lemma split_on_elements: "\<forall>e \<in> set (split_on c s). c \<notin> set e"
  by (induction c s rule: split_on.induct) (auto split: list.splits)

lemma clean_elements_plain:
  assumes "\<forall>e \<in> set es. CHR ''/'' \<notin> set e" "\<forall>e \<in> set out. plain e"
  shows "\<forall>e \<in> set (clean_elements True out es). plain e"
  using assms
proof (induction es arbitrary: out)
  case step: (Cons e es)
  have rest: "\<forall>x \<in> set es. CHR ''/'' \<notin> set x" and e: "CHR ''/'' \<notin> set e" using step.prems(1) by simp_all
  note IH = step.IH [OF rest]
  show ?case
  proof (cases out)
    case Nil
    then show ?thesis using IH [of "[]"] IH [of "[e]"] e by (simp add: plain_def [of e])
  next
    case (Cons p ps)
    then have "p \<noteq> ''..''" "\<forall>x \<in> set ps. plain x" "\<forall>x \<in> set out. plain x"
      using step.prems(2) plain_def [of p] by simp_all
    note facts = this IH [OF this(2)] IH [OF this(3)]
    consider "e = [] \<or> e = ''.''" | "e = ''..''" | "plain e" using e by (auto simp: plain_def)
    then show ?thesis
    proof cases
      case 3
      then have "\<forall>x \<in> set (e # out). plain x" using facts(3) by simp
      from IH [OF this] show ?thesis using 3 by (simp add: plain_def [of e])
    qed (use facts Cons in auto)
  qed
qed simp

lemma clean_elements_keep:
  "\<forall>e \<in> set es. e = [] \<or> plain e \<Longrightarrow> clean_elements True out es = rev out @ filter (\<lambda>e. e \<noteq> []) es"
  by (induction es arbitrary: out) (auto simp: plain_def)

definition abs_path :: "string list \<Rightarrow> string" where
  "abs_path es = ''/'' @ join_elements es"

lemma is_abs_path [simp]: "is_abs (abs_path es)" "abs_path es \<noteq> []"
  by (simp_all add: abs_path_def is_abs_def)

lemma Clean_abs:
  assumes "is_abs p"
  obtains es where "filepath_Clean p = abs_path es" "\<forall>e \<in> set es. plain e"
proof (rule that)
  show "filepath_Clean p = abs_path (clean_elements True [] (split_on CHR ''/'' p))"
    using assms by (auto simp: filepath_Clean_def abs_path_def is_abs_def Let_def)
  show "\<forall>e \<in> set (clean_elements True [] (split_on CHR ''/'' p)). plain e"
    by (rule clean_elements_plain) (use split_on_elements in auto)
qed

lemma Clean_kept:
  assumes "\<forall>e \<in> set (split_on CHR ''/'' s). e = [] \<or> plain e"
  shows "filepath_Clean (CHR ''/'' # s) = abs_path (filter (\<lambda>e. e \<noteq> []) (split_on CHR ''/'' s))"
  using assms clean_elements_keep [of "split_on CHR ''/'' s" "[]"]
  by (simp add: filepath_Clean_def abs_path_def is_abs_def)

lemma split_join_elements:
  assumes "\<forall>e \<in> set es. plain e"
  shows "filter (\<lambda>e. e \<noteq> []) (split_on CHR ''/'' (join_elements es)) = es"
    and "\<forall>e \<in> set (split_on CHR ''/'' (join_elements es)). e = [] \<or> plain e"
proof -
  have "split_on CHR ''/'' (join_elements es) = (if es = [] then [[]] else es)"
    using assms by (induction es rule: join_elements.induct) (auto simp: plain_def split_on_append split_on_no_sep)
  then show "filter (\<lambda>e. e \<noteq> []) (split_on CHR ''/'' (join_elements es)) = es"
    "\<forall>e \<in> set (split_on CHR ''/'' (join_elements es)). e = [] \<or> plain e"
    using assms by (auto simp: plain_def filter_id_conv)
qed

lemma takeWhile_before: "x \<notin> set xs \<Longrightarrow> takeWhile (\<lambda>c. c \<noteq> x) (xs @ x # ys) = xs"
  by (induction xs) auto

lemma dropWhile_before: "x \<notin> set xs \<Longrightarrow> dropWhile (\<lambda>c. c \<noteq> x) (xs @ x # ys) = x # ys"
  by (induction xs) auto

lemma join_elements_snoc: "join_elements (es @ [e]) = (if es = [] then e else join_elements es @ ''/'' @ e)"
  by (induction es rule: join_elements.induct) auto

lemma Join_abs:
  assumes "\<forall>e \<in> set es. plain e" "plain n"
  shows "filepath_Join [abs_path es, n] = abs_path (es @ [n])"
proof -
  let ?s = "join_elements es @ CHR ''/'' # n"
  have sp: "split_on CHR ''/'' ?s = split_on CHR ''/'' (join_elements es) @ [n]"
    using assms(2) by (simp add: split_on_sep split_on_no_sep plain_def)
  have "filepath_Clean (CHR ''/'' # ?s) = abs_path (es @ [n])"
    using Clean_kept [of ?s] split_join_elements [OF assms(1)] assms(2) by (simp add: sp plain_def)
  then show ?thesis by (simp add: filepath_Join_def abs_path_def)
qed

lemma Base_abs:
  assumes "plain n"
  shows "filepath_Base (abs_path (es @ [n])) = n"
proof -
  have "\<exists>t. abs_path (es @ [n]) = t @ CHR ''/'' # n" by (auto simp: abs_path_def join_elements_snoc)
  then obtain t where t: "abs_path (es @ [n]) = t @ CHR ''/'' # n" by blast
  have n: "CHR ''/'' \<notin> set (rev n)" "rev n \<noteq> []" using assms by (auto simp: plain_def)
  have drop: "dropWhile (\<lambda>c. c = CHR ''/'') (rev n @ CHR ''/'' # rev t) = rev n @ CHR ''/'' # rev t"
    using n by (cases "rev n") auto
  have "takeWhile (\<lambda>c. c \<noteq> CHR ''/'') (rev n @ CHR ''/'' # rev t) = rev n"
    using n(1) by (rule takeWhile_before)
  then show ?thesis using n by (simp add: t filepath_Base_def drop)
qed

lemma Dir_abs:
  assumes "\<forall>e \<in> set (es @ [n]). plain e"
  shows "filepath_Dir (abs_path (es @ [n])) = abs_path es"
proof -
  have n: "CHR ''/'' \<notin> set (rev n)" using assms by (simp add: plain_def)
  have drop: "rev (dropWhile (\<lambda>c. c \<noteq> CHR ''/'') (rev (t @ CHR ''/'' # n))) = t @ ''/''" for t
    using n by (simp add: dropWhile_before)
  show ?thesis
  proof (cases "es = []")
    case True
    then show ?thesis using drop [of "[]"] by (simp add: filepath_Dir_def abs_path_def filepath_Clean_def is_abs_def)
  next
    case False
    let ?s = "join_elements es @ CHR ''/'' # []"
    have "abs_path (es @ [n]) = (CHR ''/'' # join_elements es) @ CHR ''/'' # n"
      using False by (simp add: abs_path_def join_elements_snoc)
    then have "filepath_Dir (abs_path (es @ [n])) = filepath_Clean (CHR ''/'' # ?s)"
      using drop [of "CHR ''/'' # join_elements es"] by (simp add: filepath_Dir_def)
    moreover have "split_on CHR ''/'' ?s = split_on CHR ''/'' (join_elements es) @ [[]]"
      by (simp add: split_on_sep)
    ultimately show ?thesis using Clean_kept [of ?s] split_join_elements [of es] assms by simp
  qed
qed

section \<open>Parsing\<close>

definition env_viper :: "('v, 'a) libraries \<Rightarrow> 'v \<Rightarrow> 'v" where
  "env_viper lib v = SetEnvKeyReplacer lib [(''-'', ''_''), (''.'', ''_'')]
     (SetEnvPrefix lib ''SESSION_PROXY'' (AutomaticEnv lib v))"

text \<open>The flags were read, and they do not ask for the version or the usage only.\<close>

definition flags_given ::
  "('v, 'a) libraries \<Rightarrow> os_env \<Rightarrow> CommandLine \<Rightarrow> 'v \<Rightarrow> CommandLine \<Rightarrow> 'v \<Rightarrow> bool" where
  "flags_given lib os o0 v0 o1 v1 \<longleftrightarrow>
     parseFlags lib (osArgs os) o0 v0 = (None, o1, v1) \<and> \<not> ShowVersion o1 \<and> \<not> ShowHelp o1"

text \<open>The stages that a successful \<open>Parse\<close> went through.\<close>

lemma Parse_stages:
  assumes "Parse lib os o0 v0 h = (None, o2, v, h1)" and "flags_given lib os o0 v0 o1 v1"
  obtains v3 v4 o3 where "bindEnvKeys lib (env_viper lib v1) = (None, v3)"
    "read_config_file lib os (cliOptions o1) v3 = (None, v4)" "v = rehydrate lib v4"
    "Unmarshal lib v o1 h = (None, o3, h1)"
    "o2 = o3\<lparr>cliOptions := captureConfigFileUsed lib os v
       (applyAuthOverrides (GetString lib ''auth-user'' v) (GetString lib ''auth-pass'' v) (cliOptions o3))\<rparr>"
  using assms
  by (auto simp: Parse_def flags_given_def Let_def env_viper_def split: prod.splits option.splits if_splits)

lemma captured_path:
  assumes "ConfigFileUsed lib v \<noteq> []" and "workDir os = Inr d" and "is_abs d"
  obtains es where "OConfigFile (captureConfigFileUsed lib os v opt) = abs_path es" "\<forall>e \<in> set es. plain e"
proof -
  let ?used = "ConfigFileUsed lib v"
  let ?p = "if is_abs ?used then ?used else join_elements [d, ?used]"
  have "is_abs ?p" using assms(3) by (auto simp: is_abs_def)
  moreover have "filepath_Abs (workDir os) ?used = Inr (filepath_Clean ?p)"
    using assms by (auto simp: filepath_Abs_def filepath_Join_def is_abs_def)
  ultimately obtain es where "filepath_Abs (workDir os) ?used = Inr (abs_path es)" "\<forall>e \<in> set es. plain e"
    using Clean_abs by metis
  then show ?thesis using that [of es] assms(1) by (simp add: captureConfigFileUsed_def)
qed

text \<open>Among the entries of the watched directory, only the file itself passes the filter of the watcher.\<close>

lemma watched_entry:
  assumes "OConfigFile opt = abs_path es" "\<forall>e \<in> set es. plain e" "plain n"
  shows "filepath_Base (filepath_Join [watched_dir opt, n]) = filepath_Base (OConfigFile opt)
    \<longleftrightarrow> filepath_Join [watched_dir opt, n] = OConfigFile opt"
proof (cases es rule: rev_cases)
  case Nil
  have "filepath_Base (abs_path []) = ''/''" "filepath_Dir (abs_path []) = abs_path []" by code_simp+
  moreover have "n \<noteq> ''/''" using assms(3) by (auto simp: plain_def)
  moreover have "abs_path [n] \<noteq> abs_path []" using assms(3) by (simp add: abs_path_def plain_def)
  ultimately show ?thesis using assms Base_abs [of n "[]"] Join_abs [of "[]" n] Nil
    by (simp add: watched_dir_def)
next
  case (snoc ds f)
  then have "filepath_Dir (OConfigFile opt) = abs_path ds" "filepath_Base (OConfigFile opt) = f" "plain f"
    using assms Dir_abs [of ds f] Base_abs [of f ds] by simp_all
  moreover have "filepath_Join [abs_path ds, n] = abs_path (ds @ [n])" using assms snoc by (intro Join_abs) auto
  moreover have "n = f \<longleftrightarrow> abs_path (ds @ [n]) = abs_path (ds @ [f])"
    using Base_abs [OF assms(3), of ds] Base_abs [OF \<open>plain f\<close>, of ds] by metis
  ultimately show ?thesis using snoc assms Base_abs [of n ds] by (simp add: watched_dir_def)
qed

text \<open>
  C27. The watcher reacts to the configuration file and to nothing else.  When \<open>Parse\<close> read a file, relative or
  absolute, searched or named, then \<open>Watch\<close> starts, and a write or creation of an entry \<open>n\<close> of the
  directory it watches reloads the configuration if the entry is the file that was read, and does
  nothing if it is any other.
\<close>

theorem watch_is_exact:
  assumes "Parse lib os o0 v0 h = (None, o2, v, h1)" and "flags_given lib os o0 v0 o1 v1"
    and "ConfigFileUsed lib v \<noteq> []" and "workDir os = Inr d" and "is_abs d" and "plain n"
    and "opt = cliOptions o2" and "file = filepath_Join [watched_dir opt, n]"
  shows "Watch lib os None v opt = (None, opt)
    \<and> watch_event uni opt (FileEvent file True parse) (rt, h2) =
       (if file = OConfigFile opt
        then case reload parse opt h2 of (Inl e, h3) \<Rightarrow> (rt, h3) | (Inr c, h3) \<Rightarrow> (onConfigReload uni c rt, h3)
        else (rt, h2))"
proof -
  from Parse_stages [OF assms(1,2)] obtain o3 :: CommandLine and a b where
    "o2 = o3\<lparr>cliOptions := captureConfigFileUsed lib os v (applyAuthOverrides a b (cliOptions o3))\<rparr>"
    by metis
  then have "OConfigFile opt = OConfigFile (captureConfigFileUsed lib os v (applyAuthOverrides a b (cliOptions o3)))"
    using assms(7) by simp
  then obtain es where es: "OConfigFile opt = abs_path es" "\<forall>e \<in> set es. plain e"
    using captured_path [OF assms(3-5)] by metis
  have "Watch lib os None v opt = (None, opt)" by (simp add: Watch_def es)
  moreover obtain res h3 where "reload parse opt h2 = (res, h3)" by fastforce
  ultimately show ?thesis using watched_entry [OF es assms(6)] assms(8)
    by (cases res) (auto simp: watch_event_def)
qed

section \<open>Which failures are fatal\<close>

lemma bind_env_reader [simp]: "bind_env_loop (lib\<lparr>ReadInConfig := r\<rparr>) ks v = bind_env_loop lib ks v"
  by (induction ks arbitrary: v) (simp_all split: prod.splits option.splits)

lemma reader_unused [simp]:
  "bindEnvKeys (lib\<lparr>ReadInConfig := r\<rparr>) v = bindEnvKeys lib v"
  "rehydrate (lib\<lparr>ReadInConfig := r\<rparr>) v = rehydrate lib v"
  "captureConfigFileUsed (lib\<lparr>ReadInConfig := r\<rparr>) os v opt = captureConfigFileUsed lib os v opt"
  by (simp_all add: bindEnvKeys_def rehydrate_def captureConfigFileUsed_def)

text \<open>With a legacy target and no named file, no configuration file is read.\<close>

lemma legacy_reads_no_file:
  assumes "flags_given lib os o0 v0 o1 v1" and "OTarget (cliOptions o1) \<noteq> []" "OConfigFile (cliOptions o1) = []"
  shows "Parse (lib\<lparr>ReadInConfig := r\<rparr>) os o0 v0 h = Parse lib os o0 v0 h"
  using assms by (simp add: Parse_def flags_given_def read_config_file_def Let_def cong: option.case_cong)

lemma missing_read:
  assumes "\<forall>v. \<exists>e v'. ReadInConfig lib v = (ConfigNotFound e, v')"
  shows "fst (read_config_file lib os opt v) = None \<longleftrightarrow> OConfigFile opt = []"
proof -
  have nf: "\<exists>e. fst (ReadInConfig lib w) = ConfigNotFound e" for w using assms by (metis fst_conv)
  show ?thesis
    using nf [of "SetConfigFile lib (OConfigFile opt) v"]
      nf [of "fold (AddConfigPath lib) (search_paths os) (SetConfigType lib ''yaml'' (SetConfigName lib ''config'' v))"]
    by (auto simp: read_config_file_def split: prod.splits)
qed

text \<open>A file that is not found is an error exactly when it was named on the command line.\<close>

lemma missing_file:
  assumes "flags_given lib os o0 v0 o1 v1" and "bindEnvKeys lib (env_viper lib v1) = (None, v3)"
    and "\<forall>v. \<exists>e v'. ReadInConfig lib v = (ConfigNotFound e, v')" and "\<forall>v o' h'. fst (Unmarshal lib v o' h') = None"
  shows "fst (Parse lib os o0 v0 h) = None \<longleftrightarrow> OConfigFile (cliOptions o1) = []"
proof -
  obtain e v4 where r: "read_config_file lib os (cliOptions o1) v3 = (e, v4)" by fastforce
  then have "e = None \<longleftrightarrow> OConfigFile (cliOptions o1) = []"
    using missing_read [OF assms(3), of os "cliOptions o1" v3] by simp
  note r = r this
  obtain o2 h1 where "Unmarshal lib (rehydrate lib v4) o1 h = (None, o2, h1)"
    using assms(4) by (metis prod_cases3 fst_conv)
  then show ?thesis using assms(1,2) r
    by (cases e) (auto simp: Parse_def flags_given_def env_viper_def Let_def)
qed

text \<open>Validation is idempotent: what \<open>Load\<close> and \<open>LoadDefault\<close> return has its defaults and validates as it is.\<close>

lemma validate_idem:
  assumes "validate c h = (None, c1, h1)"
  shows "validate c1 h1 = (None, c1, h1)"
proof -
  let ?P = "snd ` set (Upstreams c)"
  note v = assms [unfolded validate_cases]
  have "acceptable (cell (defaults_in ?P h) p)" if "(n, p) \<in> set (Upstreams c)" for n p
    using v that by (auto simp: cell_defaults_in)
  moreover have "defaults_in ?P (defaults_in ?P h) = defaults_in ?P h" by (simp add: defaults_in_defaults_in)
  ultimately show ?thesis using v by (auto simp: validate_cases known_default_def known_routes_def)
qed

lemma loaded_valid:
  assumes "load_with lib v h = (Inr c, h1)"
  shows "validate c h1 = (None, c, h1)"
proof -
  obtain c0 h0 where "validate c0 h0 = (None, c, h1)"
    using assms by (auto simp: load_with_def unmarshalAndValidate_def validated_Inr
        split: prod.splits read_config.splits option.splits)
  then show ?thesis by (rule validate_idem)
qed

section \<open>Every configuration the program makes is well formed\<close>

definition upstream_wf :: "Upstream \<Rightarrow> bool" where
  "upstream_wf u \<longleftrightarrow> Instances u \<noteq> [] \<and> SshUser (SSH u) \<noteq> []
     \<and> (Profile (AWS u) \<noteq> [] \<and> AccessKey (AWS u) = [] \<and> SecretKey (AWS u) = []
       \<or> Profile (AWS u) = [] \<and> AccessKey (AWS u) \<noteq> [] \<and> SecretKey (AWS u) \<noteq> [] \<and> Region (AWS u) \<noteq> [])"

definition config_wf :: "Config \<Rightarrow> store \<Rightarrow> bool" where
  "config_wf c h \<longleftrightarrow> Upstreams c \<noteq> [] \<and> (\<forall>(name, p) \<in> set (Upstreams c). upstream_wf (cell h p))
     \<and> (Default c \<in> {[], ''DIRECT''} \<or> Default c \<in> set (gm_keys (Upstreams c)))
     \<and> (\<forall>r \<in> set (Routes c). RMatch r \<noteq> []
         \<and> (RUpstream r = ''DIRECT'' \<or> RUpstream r \<in> set (gm_keys (Upstreams c))))
     \<and> Listen c \<noteq> [] \<and> SleepDetectionThreshold c > 0"

lemma upstream_wf_iff: "upstream_wf u \<longleftrightarrow> acceptable u \<and> with_defaults u = u"
  by (auto simp: upstream_wf_def acceptable_def aws_ok_def with_defaults_id relies_on_default_def)

lemma defaults_in_id: "defaults_in P h = h \<longleftrightarrow> (\<forall>p \<in> P. with_defaults (cell h p) = cell h p)"
proof
  assume "defaults_in P h = h"
  then show "\<forall>p \<in> P. with_defaults (cell h p) = cell h p" by (metis cell_defaults_in)
qed (cases h, auto simp: defaults_in_def fun_eq_iff)

text \<open>The well-formed configurations are exactly those that validation accepts and leaves alone.\<close>

lemma config_wf_iff: "config_wf c h \<longleftrightarrow> validate c h = (None, c, h)"
proof -
  have e: "c = c\<lparr>Listen := l, SleepDetectionThreshold := t\<rparr> \<longleftrightarrow> Listen c = l \<and> SleepDetectionThreshold c = t" for l t
    by (cases c) auto
  have d: "h = defaults_in P h \<longleftrightarrow> (\<forall>p \<in> P. with_defaults (cell h p) = cell h p)" for P
    using defaults_in_id [of P h] by metis
  show ?thesis
    unfolding validate_cases e d
    by (auto simp: config_wf_def upstream_wf_iff known_default_def known_routes_def)
qed

lemma ToConfig_valid:
  assumes "ToConfig opt h = (Inr c, h1)"
  shows "validate c h1 = (None, c, h1)"
proof -
  have "\<exists>c0 h0. validate c0 h0 = (None, c, h1)"
    using assms unfolding ToConfig_def toLegacyConfig_def Let_def
    by (auto simp: validated_Inr split: if_splits prod.splits)
  then show ?thesis using validate_idem by blast
qed

text \<open>
  C28. Every configuration the program makes is well formed: what \<open>Load\<close>, \<open>LoadDefault\<close>, the options and a
  reload give has an upstream; each upstream has an instance, an SSH user and either a profile or a
  complete key pair with a region; the default and every route name an upstream (or a direct
  connection), no route has an empty pattern, there is an address to listen on and a positive
  threshold; and validating it again changes nothing.
\<close>

theorem made_config_well_formed:
  assumes "Load lib v path h = (Inr c, h1) \<or> LoadDefault lib env v h = (Inr c, h1)
    \<or> ToConfig opt h = (Inr c, h1) \<or> reload parse opt h = (Inr c, h1)"
  shows "config_wf c h1 \<and> validate c h1 = (None, c, h1)"
proof -
  have "validate c h1 = (None, c, h1)" if "reload parse opt h = (Inr c, h1)"
    using that by (auto simp: reload_def dest!: ToConfig_valid split: prod.splits sum.splits option.splits)
  then have "validate c h1 = (None, c, h1)"
    using assms loaded_valid ToConfig_valid by (auto simp: Load_def LoadDefault_def Let_def)
  then show ?thesis by (simp add: config_wf_iff)
qed

theorem made_config_well_formed_witness:
  "\<exists>c h1. ToConfig (file_options 0 ''dev'') first_store = (Inr c, h1) \<and> config_wf c h1
    \<and> SshUser (SSH (cell h1 0)) \<noteq> []"
proof -
  have "\<not> isl (fst (ToConfig (file_options 0 ''dev'') first_store))" by code_simp
  then obtain c h1 where t: "ToConfig (file_options 0 ''dev'') first_store = (Inr c, h1)"
    by (cases "ToConfig (file_options 0 ''dev'') first_store"; cases "fst (ToConfig (file_options 0 ''dev'') first_store)") auto
  have w: "config_wf c h1" by (rule made_config_well_formed [THEN conjunct1]) (use t in blast)
  have "Upstreams c = [(''dev'', 0)]"
    using ToConfig_file [of "file_options 0 ''dev''" first_store] t
    by (auto simp: file_options_def options_config_def validated_Inr validate_cases)
  then have "SshUser (SSH (cell h1 0)) \<noteq> []" using w by (simp add: config_wf_def upstream_wf_def)
  then show ?thesis using t w by blast
qed

section \<open>The log file of the command line loses\<close>

text \<open>
  Two documented facts of viper about the key \<open>log_file\<close>: setting a key to the value it has changes no value, and
  \<open>Unmarshal\<close> writes the field of a key that has a value and leaves it alone otherwise.
\<close>

definition log_file_laws :: "('v, 'a) libraries \<Rightarrow> ('a \<Rightarrow> string) \<Rightarrow> bool" where
  "log_file_laws lib txt \<longleftrightarrow>
     (\<forall>k v. GetValue lib ''log_file'' (SetValue lib k (GetValue lib k v) v) = GetValue lib ''log_file'' v)
     \<and> (\<forall>v o1 h o2 h1. Unmarshal lib v o1 h = (None, o2, h1) \<longrightarrow>
          LogFile o2 = (case GetValue lib ''log_file'' v of None \<Rightarrow> LogFile o1 | Some x \<Rightarrow> txt x))"

lemma rehydrate_log_file:
  assumes "log_file_laws lib txt"
  shows "GetValue lib ''log_file'' (rehydrate lib v) = GetValue lib ''log_file'' v"
proof -
  have "GetValue lib ''log_file'' (fold (\<lambda>k v. SetValue lib k (GetValue lib k v) v) ks w) = GetValue lib ''log_file'' w"
    for ks w using assms by (induction ks arbitrary: w) (simp_all add: log_file_laws_def)
  then show ?thesis by (simp add: rehydrate_def)
qed

text \<open>
  The flag is called \<open>log-file\<close>, the option's key \<open>log_file\<close>: a value from the environment or the file
  replaces what the flag wrote, against the priority that the comment of \<open>Options\<close> states.
\<close>

lemma log_file_beats_flag:
  assumes "Parse lib os o0 v0 h = (None, o2, v, h1)" and "flags_given lib os o0 v0 o1 v1"
    and "bindEnvKeys lib (env_viper lib v1) = (None, v3)" and "read_config_file lib os (cliOptions o1) v3 = (None, v4)"
    and "log_file_laws lib txt"
  shows "LogFile o2 = (case GetValue lib ''log_file'' v4 of None \<Rightarrow> LogFile o1 | Some x \<Rightarrow> txt x)"
proof -
  from Parse_stages [OF assms(1,2)] obtain o3 f where "v = rehydrate lib v4" "Unmarshal lib v o1 h = (None, o3, h1)"
    "o2 = o3\<lparr>cliOptions := f\<rparr>"
    using assms(3,4) by (metis Pair_inject)
  moreover from this have "LogFile o3 = (case GetValue lib ''log_file'' v of None \<Rightarrow> LogFile o1 | Some x \<Rightarrow> txt x)"
    using assms(5) unfolding log_file_laws_def by blast
  ultimately show ?thesis using rehydrate_log_file [OF assms(5), of v4] by simp
qed

section \<open>A command line\<close>

text \<open>Libraries whose state is the file they were told to read, and which find nothing in it.\<close>

definition file_libraries :: "(string, string) libraries" where
  "file_libraries =
    \<lparr>parseFlags = (\<lambda>args o1 v. (None, o1\<lparr>cliOptions := (cliOptions o1)\<lparr>OConfigFile := concat args\<rparr>\<rparr>, v)),
     AutomaticEnv = (\<lambda>v. v), SetEnvPrefix = (\<lambda>p v. v), SetEnvKeyReplacer = (\<lambda>r v. v), BindEnv = (\<lambda>k v. (None, v)),
     SetConfigFile = (\<lambda>f v. f), SetConfigName = (\<lambda>n v. v), SetConfigType = (\<lambda>t v. v),
     AddConfigPath = (\<lambda>p v. v), ReadInConfig = (\<lambda>v. (ConfigRead, v)), AllKeys = (\<lambda>v. []),
     GetValue = (\<lambda>k v. None), SetValue = (\<lambda>k x v. v), GetString = (\<lambda>k v. []),
     Unmarshal = (\<lambda>v o1 h. (None, o1, h)), ConfigFileUsed = (\<lambda>v. v), UnmarshalConfig = (\<lambda>v c h. (None, c, h))\<rparr>"

definition etc_env :: os_env where
  "etc_env = \<lparr>osArgs = [''conf/../c.yaml''], xdgConfigHome = [], userHomeDir = Inr ''/root'', workDir = Inr ''/etc''\<rparr>"

definition read_command :: CommandLine where
  "read_command = NewOptions\<lparr>cliOptions := (cliOptions NewOptions)\<lparr>OConfigFile := ''/etc/c.yaml''\<rparr>\<rparr>"

lemma file_libraries_parse:
  "Parse file_libraries etc_env NewOptions [] h = (None, read_command, ''conf/../c.yaml'', h)"
  "flags_given file_libraries etc_env NewOptions []
     (NewOptions\<lparr>cliOptions := (cliOptions NewOptions)\<lparr>OConfigFile := ''conf/../c.yaml''\<rparr>\<rparr>) []"
proof -
  have "filepath_Abs (Inr ''/etc'') ''conf/../c.yaml'' = Inr ''/etc/c.yaml''" by code_simp
  then show "Parse file_libraries etc_env NewOptions [] h = (None, read_command, ''conf/../c.yaml'', h)"
    by (simp add: Parse_def file_libraries_def etc_env_def NewOptions_def bindEnvKeys_def envOnlyKeys_def read_config_file_def
        rehydrate_def rehydrateKeys_def captureConfigFileUsed_def applyAuthOverrides_def read_command_def)
  show "flags_given file_libraries etc_env NewOptions []
     (NewOptions\<lparr>cliOptions := (cliOptions NewOptions)\<lparr>OConfigFile := ''conf/../c.yaml''\<rparr>\<rparr>) []"
    by (simp add: flags_given_def file_libraries_def etc_env_def NewOptions_def)
qed

theorem watch_is_exact_witness:
  "\<forall>parse rt h. Watch file_libraries etc_env None ''conf/../c.yaml'' (cliOptions read_command)
       = (None, cliOptions read_command)
     \<and> watch_event id (cliOptions read_command) (FileEvent ''/etc/c.yaml.swp'' True parse) (rt, h) = (rt, h)"
proof (intro allI)
  fix parse rt h
  have "filepath_Join [watched_dir (cliOptions read_command), ''c.yaml.swp''] = ''/etc/c.yaml.swp''"
    "OConfigFile (cliOptions read_command) = ''/etc/c.yaml''" by code_simp+
  moreover have "ConfigFileUsed file_libraries ''conf/../c.yaml'' \<noteq> []" by (simp add: file_libraries_def)
  ultimately show "Watch file_libraries etc_env None ''conf/../c.yaml'' (cliOptions read_command)
       = (None, cliOptions read_command)
     \<and> watch_event id (cliOptions read_command) (FileEvent ''/etc/c.yaml.swp'' True parse) (rt, h) = (rt, h)"
    using watch_is_exact [OF file_libraries_parse(1) file_libraries_parse(2), of "''/etc''" "''c.yaml.swp''"
        "cliOptions read_command" "''/etc/c.yaml.swp''" id parse rt h]
    by (simp add: etc_env_def is_abs_def plain_def)
qed

end
