(* ===== verification/Pool.thy ===== *)
theory Pool
  imports Settings
begin

text \<open>
  The upstream pool (\<open>internal/upstream/pool.go\<close>), part one: the state of a group of SSH
  connections and its critical sections.  Every definition is one critical section or atomic
  operation of the code (or a sequence under one lock), with the clock, probe results and results of
  connection attempts as arguments.  Logging is left out.  \<open>*sshConn\<close> pointers are the connection
  ids, which the code draws from a global counter; \<open>ssmClient\<close> is the cached AWS client, of which only
  the region is visible.
\<close>

section \<open>Connections and groups\<close>

record sshConn =
  activeChannels :: int
  inflightDials :: int
  dialTimeoutCount :: int
  lastDialTimeout :: nanos
  draining :: bool
  keepaliveFailures :: int
  lastRescue :: nanos
  hasClient :: bool
  hasAdapter :: bool
  scOpen :: bool

definition new_sshConn :: sshConn where
  "new_sshConn = \<lparr>activeChannels = 0, inflightDials = 0, dialTimeoutCount = 0, lastDialTimeout = 0,
     draining = False, keepaliveFailures = 0, lastRescue = 0, hasClient = True,
     hasAdapter = True, scOpen = True\<rparr>"

record GroupCounters =
  DialAttempts :: u64
  DialWaits :: u64
  DialSuccesses :: u64
  DialFailures :: u64
  DialTimeouts :: u64
  DialCancels :: u64
  LateDialSuccesses :: u64
  LateDialFailures :: u64
  ForcedReconnects :: u64
  ScaleStarts :: u64
  ReplenishSuccess :: u64
  ReplenishFailure :: u64

text \<open>
  \<open>waitCh\<close> is the channel of \<open>waitChannel\<close> (numbered; \<open>None\<close> is nil); every channel handed out
  that is not the current one has been closed.  \<open>maintainPending\<close> is the buffered element of
  \<open>maintainCh\<close>.  \<open>groupCtx\<close> is the group's context: none before \<open>Connect\<close>, then whether it is cancelled.
\<close>

record Group =
  gname :: string
  sshConfig :: SSHConfig
  awsCfg :: AWSConfig
  ssmClient :: "string option"
  instances :: "string list"
  current :: nat
  conns :: "nat list"
  sc :: "nat \<Rightarrow> sshConn"
  nextSSHConnID :: nat
  nextConn :: u64
  waitCh :: "nat option"
  nextWait :: nat
  maintainPending :: bool
  scaleInFlight :: int
  lastForcedReconnect :: nanos
  forcedReconnectInProgress :: bool
  replenishInFlight :: int
  replenishFailures :: int
  replenishNextAttempt :: "nanos option"
  groupCtx :: "bool option"
  lastMaintainTime :: "nanos option"
  sleepThreshold :: nanos
  roundAdvanced :: bool
  pendingAbandonedDials :: int
  lastCapacityWarn :: nanos
  counters :: GroupCounters

definition zero_counters :: GroupCounters where
  "zero_counters = \<lparr>DialAttempts = 0, DialWaits = 0, DialSuccesses = 0, DialFailures = 0,
     DialTimeouts = 0, DialCancels = 0, LateDialSuccesses = 0, LateDialFailures = 0,
     ForcedReconnects = 0, ScaleStarts = 0, ReplenishSuccess = 0, ReplenishFailure = 0\<rparr>"

text \<open>The group \<open>NewPool\<close> builds for one upstream.\<close>

definition NewGroup :: "string \<Rightarrow> Upstream \<Rightarrow> nanos \<Rightarrow> Group" where
  "NewGroup name up threshold =
     \<lparr>gname = name, sshConfig = SSH up, awsCfg = AWS up, ssmClient = None,
      instances = Instances up, current = 0, conns = [], sc = \<lambda>_. new_sshConn, nextSSHConnID = 0,
      nextConn = 0, waitCh = None, nextWait = 0, maintainPending = False, scaleInFlight = 0,
      lastForcedReconnect = 0, forcedReconnectInProgress = False, replenishInFlight = 0,
      replenishFailures = 0, replenishNextAttempt = None, groupCtx = None,
      lastMaintainTime = None, sleepThreshold = threshold, roundAdvanced = False,
      pendingAbandonedDials = 0, lastCapacityWarn = 0, counters = zero_counters\<rparr>"

definition NewPool :: "Config \<Rightarrow> store \<Rightarrow> (string, Group) gomap" where
  "NewPool cfg h =
     map (\<lambda>(name, p). (name, NewGroup name (cell h p) (SleepDetectionThreshold cfg))) (Upstreams cfg)"

definition upd_sc :: "nat \<Rightarrow> (sshConn \<Rightarrow> sshConn) \<Rightarrow> Group \<Rightarrow> Group" where
  "upd_sc k f g = g\<lparr>sc := (sc g)(k := f (sc g k))\<rparr>"

definition upd_counters :: "(GroupCounters \<Rightarrow> GroupCounters) \<Rightarrow> Group \<Rightarrow> Group" where
  "upd_counters f g = g\<lparr>counters := f (counters g)\<rparr>"

definition defaultPoolSize :: nat where "defaultPoolSize = 4"
definition maxPoolSize :: nat where "maxPoolSize = 12"
definition maxChannelsPerConn :: int where "maxChannelsPerConn = 4"
definition scaleParallelism :: int where "scaleParallelism = 2"
definition replenishParallelism :: int where "replenishParallelism = 2"
definition proactiveScaleHeadroom :: int where "proactiveScaleHeadroom = 2"
definition dialTimeoutWindow :: nanos where "dialTimeoutWindow = seconds 30"
definition dialTimeoutsBeforeReconnect :: int where "dialTimeoutsBeforeReconnect = 3"
definition forcedReconnectCooldown :: nanos where "forcedReconnectCooldown = seconds 15"
definition sshKeepaliveFailureLimit :: int where "sshKeepaliveFailureLimit = 2"
definition keepaliveRescueCooldown :: nanos where "keepaliveRescueCooldown = seconds 600"

lemmas pool_consts = defaultPoolSize_def maxPoolSize_def maxChannelsPerConn_def scaleParallelism_def
  replenishParallelism_def proactiveScaleHeadroom_def dialTimeoutsBeforeReconnect_def

section \<open>Waiting for capacity\<close>

definition waitChannel :: "Group \<Rightarrow> nat \<times> Group" where
  "waitChannel g =
    (case waitCh g of
       Some c \<Rightarrow> (c, g)
     | None \<Rightarrow> (nextWait g, g\<lparr>waitCh := Some (nextWait g), nextWait := Suc (nextWait g)\<rparr>))"

definition signalCapacityChange :: "Group \<Rightarrow> Group" where
  "signalCapacityChange g = g\<lparr>waitCh := None\<rparr>"

text \<open>A channel that was handed out has been closed.\<close>

definition signalled :: "nat \<Rightarrow> Group \<Rightarrow> bool" where
  "signalled c g \<longleftrightarrow> waitCh g \<noteq> Some c"

definition notifyMaintain :: "Group \<Rightarrow> Group" where
  "notifyMaintain g = g\<lparr>maintainPending := True\<rparr>"

definition releaseInflight :: "nat \<Rightarrow> Group \<Rightarrow> Group" where
  "releaseInflight k g =
     signalCapacityChange (upd_sc k (\<lambda>c. c\<lparr>inflightDials := inflightDials c - 1\<rparr>) g)"

section \<open>Choosing a connection\<close>

text \<open>
  The loop that collects the least loaded connections, with the minimum so far and the candidates;
  \<open>skip\<close> is the test that continues with the next connection.
\<close>

fun least_loaded ::
  "(nat \<Rightarrow> sshConn) \<Rightarrow> (sshConn \<Rightarrow> bool) \<Rightarrow> nat list \<Rightarrow> int \<Rightarrow> int \<Rightarrow> nat list \<Rightarrow> nat list" where
  "least_loaded m skip [] minA minI cands = cands"
| "least_loaded m skip (k # ks) minA minI cands =
    (if skip (m k) then least_loaded m skip ks minA minI cands
     else let a = activeChannels (m k); i = inflightDials (m k) in
       if a < minA \<or> (a = minA \<and> i < minI) then least_loaded m skip ks a i [k]
       else if a = minA \<and> i = minI then least_loaded m skip ks minA minI (cands @ [k])
       else least_loaded m skip ks minA minI cands)"

text \<open>Round-robin over the candidates.\<close>

definition round_robin :: "nat list \<Rightarrow> Group \<Rightarrow> nat \<times> Group" where
  "round_robin cands g =
    (let n = nextConn g + 1 in (cands ! (unat n mod length cands), g\<lparr>nextConn := n\<rparr>))"

definition selectConn :: "Group \<Rightarrow> nat option \<times> Group" where
  "selectConn g =
    (if conns g = [] then (None, g)
     else let cands = least_loaded (sc g) (\<lambda>_. False) (conns g) (2 ^ 62) (2 ^ 62) [] in
       if cands = [] then (let (k, g1) = round_robin (conns g) g in (Some k, g1))
       else (let (k, g1) = round_robin cands g in (Some k, g1)))"

definition no_capacity :: "sshConn \<Rightarrow> bool" where
  "no_capacity c \<longleftrightarrow> draining c \<or> activeChannels c + inflightDials c \<ge> maxChannelsPerConn"

definition selectConnWithCapacity :: "Group \<Rightarrow> nat option \<times> Group" where
  "selectConnWithCapacity g =
    (if conns g = [] then (None, g)
     else let cands = least_loaded (sc g) no_capacity (conns g) (2 ^ 62) (2 ^ 62) [] in
       if cands = [] then (None, g)
       else (let (k, g1) = round_robin cands g in (Some k, g1)))"

section \<open>Instances\<close>

definition currentInstance :: "Group \<Rightarrow> string" where
  "currentInstance g = instances g ! current g"

definition advanceInstance :: "Group \<Rightarrow> Group" where
  "advanceInstance g = g\<lparr>current := (current g + 1) mod length (instances g)\<rparr>"

section \<open>Growing\<close>

text \<open>The number of attempts started (0 or 1) and the group.\<close>

definition startScale :: "Group \<Rightarrow> nat \<times> Group" where
  "startScale g =
    (let poolSize = int (length (conns g)); total = poolSize + scaleInFlight g in
     if total \<ge> int maxPoolSize then (0, g)
     else if scaleInFlight g \<ge> scaleParallelism then (0, g)
     else
       let remainingPool = int maxPoolSize - total;
           remainingParallel = scaleParallelism - scaleInFlight g;
           add1 = (1 :: int);
           add2 = (if add1 > remainingPool then remainingPool else add1);
           add3 = (if add2 > remainingParallel then remainingParallel else add2)
       in if add3 \<le> 0 then (0, g)
          else (nat add3, upd_counters (\<lambda>c. c\<lparr>ScaleStarts := ScaleStarts c + of_int add3\<rparr>)
                            (g\<lparr>scaleInFlight := scaleInFlight g + add3\<rparr>)))"

definition startScaleIfNeeded :: "Group \<Rightarrow> nat \<times> Group" where
  "startScaleIfNeeded g =
    (case selectConnWithCapacity g of
       (Some _, g1) \<Rightarrow> (0, g1)
     | (None, g1) \<Rightarrow> startScale g1)"

definition used_slots :: "Group \<Rightarrow> int" where
  "used_slots g = sum_list (map (\<lambda>k. activeChannels (sc g k) + inflightDials (sc g k)) (conns g))"

definition maybeScaleForHeadroom :: "Group \<Rightarrow> nat \<times> Group" where
  "maybeScaleForHeadroom g =
    (let freeSlots = int (length (conns g)) * maxChannelsPerConn - used_slots g in
     if freeSlots > proactiveScaleHeadroom then (0, g) else startScale g)"

text \<open>
  A connection is created (the end of \<open>connectSingle\<close>: the next number of the global counter, all
  counters zero), and later joins the pool; the signal and the notification follow outside the lock.
\<close>

definition conn_created :: "Group \<Rightarrow> nat \<times> Group" where
  "conn_created g =
    (let k = nextSSHConnID g + 1 in (k, g\<lparr>nextSSHConnID := k, sc := (sc g)(k := new_sshConn)\<rparr>))"

definition append_conn :: "nat \<Rightarrow> Group \<Rightarrow> Group" where
  "append_conn k g = g\<lparr>conns := conns g @ [k]\<rparr>"

definition announce_conn :: "Group \<Rightarrow> Group" where
  "announce_conn g = notifyMaintain (signalCapacityChange g)"

definition scale_finished :: "Group \<Rightarrow> Group" where
  "scale_finished g = g\<lparr>scaleInFlight := scaleInFlight g - 1\<rparr>"

text \<open>The rate limit of the starvation warning and the reason it gives.\<close>

datatype starvation = ScaleInProgress | AtHardCap | ParallelismSaturated

definition logCapacityStarvation :: "nanos \<Rightarrow> Group \<Rightarrow> starvation option \<times> Group" where
  "logCapacityStarvation now g =
    (if lastCapacityWarn g \<noteq> 0 \<and> now - lastCapacityWarn g < seconds 5 then (None, g)
     else (Some (if int (length (conns g)) + scaleInFlight g \<ge> int maxPoolSize then AtHardCap
                 else if scaleInFlight g \<ge> scaleParallelism then ParallelismSaturated
                 else ScaleInProgress),
           g\<lparr>lastCapacityWarn := now\<rparr>))"

section \<open>Evicting\<close>

definition close_sc :: "nat \<Rightarrow> Group \<Rightarrow> Group" where
  "close_sc k g = upd_sc k (\<lambda>c. c\<lparr>scOpen := False\<rparr>) g"

definition removeConn :: "nat \<Rightarrow> Group \<Rightarrow> Group" where
  "removeConn k g =
    (if k \<in> set (conns g)
     then notifyMaintain (signalCapacityChange (close_sc k (g\<lparr>conns := remove1 k (conns g)\<rparr>)))
     else g)"

definition recordDialTimeout :: "nanos \<Rightarrow> nat \<Rightarrow> Group \<Rightarrow> int \<times> Group" where
  "recordDialTimeout now k g =
    (let c = sc g k; prev = lastDialTimeout c;
         n = (if prev = 0 \<or> now - prev > dialTimeoutWindow then 1 else dialTimeoutCount c + 1)
     in (n, upd_sc k (\<lambda>c. c\<lparr>lastDialTimeout := now, dialTimeoutCount := n\<rparr>) g))"

text \<open>\<open>maybeForceReconnect\<close> up to the start of its probe; the flag says whether one was started.\<close>

definition maybeForceReconnect :: "nanos \<Rightarrow> nat \<Rightarrow> Group \<Rightarrow> bool \<times> Group" where
  "maybeForceReconnect now k g =
    (if lastForcedReconnect g \<noteq> 0 \<and> now - lastForcedReconnect g < forcedReconnectCooldown then (False, g)
     else if forcedReconnectInProgress g then (False, g)
     else (True, signalCapacityChange (upd_sc k (\<lambda>c. c\<lparr>draining := True\<rparr>)
            (upd_counters (\<lambda>c. c\<lparr>ForcedReconnects := ForcedReconnects c + 1\<rparr>)
              (g\<lparr>forcedReconnectInProgress := True, lastForcedReconnect := now\<rparr>)))))"

text \<open>Its goroutine, once the probe has answered: \<open>dead\<close> is a failed probe without recent inbound.\<close>

definition force_probe_done :: "bool \<Rightarrow> nat \<Rightarrow> Group \<Rightarrow> Group" where
  "force_probe_done dead k g =
    (if dead then (removeConn k g)\<lparr>forcedReconnectInProgress := False\<rparr>
     else (signalCapacityChange (upd_sc k (\<lambda>c. c\<lparr>draining := False, dialTimeoutCount := 0,
             lastDialTimeout := 0, keepaliveFailures := 0\<rparr>) g))\<lparr>forcedReconnectInProgress := False\<rparr>)"

section \<open>Replenishing\<close>

definition reserveReplenish :: "nanos \<Rightarrow> nat \<Rightarrow> Group \<Rightarrow> nat \<times> nanos \<times> Group" where
  "reserveReplenish now currentCount g =
    (let backoff = (case replenishNextAttempt g of None \<Rightarrow> 0 | Some t \<Rightarrow> t - now);
         needed = int defaultPoolSize - int currentCount;
         available = replenishParallelism - replenishInFlight g;
         n = (if needed > available then available else needed)
     in if backoff > 0 then (0, backoff, g)
        else if needed \<le> 0 \<or> available \<le> 0 then (0, 0, g)
        else (nat n, 0, g\<lparr>replenishInFlight := replenishInFlight g + n\<rparr>))"

definition finishReplenish :: "Group \<Rightarrow> Group" where
  "finishReplenish g = (if replenishInFlight g > 0 then g\<lparr>replenishInFlight := replenishInFlight g - 1\<rparr> else g)"

definition recordReplenishSuccess :: "Group \<Rightarrow> Group" where
  "recordReplenishSuccess g = upd_counters (\<lambda>c. c\<lparr>ReplenishSuccess := ReplenishSuccess c + 1\<rparr>)
     (g\<lparr>replenishFailures := 0, replenishNextAttempt := None\<rparr>)"

text \<open>\<open>delay\<close> is what \<open>NextDelay\<close> of the retryer gives for the new failure count.\<close>

definition recordReplenishFailure :: "nanos \<Rightarrow> (int \<Rightarrow> nanos) \<Rightarrow> Group \<Rightarrow> Group" where
  "recordReplenishFailure now delay g =
    (let n = replenishFailures g + 1 in
     upd_counters (\<lambda>c. c\<lparr>ReplenishFailure := ReplenishFailure c + 1\<rparr>)
       (g\<lparr>replenishFailures := n, replenishNextAttempt := Some (now + delay n)\<rparr>))"

definition resetReplenishBackoff :: "Group \<Rightarrow> Group" where
  "resetReplenishBackoff g =
     g\<lparr>replenishFailures := 0, replenishNextAttempt := None, replenishInFlight := 0\<rparr>"

text \<open>A failed attempt of \<open>replenishOnce\<close>: one rotation per round.\<close>

definition replenish_failed :: "nanos \<Rightarrow> (int \<Rightarrow> nanos) \<Rightarrow> Group \<Rightarrow> Group" where
  "replenish_failed now delay g =
    (let g1 = recordReplenishFailure now delay g
     in if length (instances g1) > 1 \<and> \<not> roundAdvanced g1
        then advanceInstance (g1\<lparr>roundAdvanced := True\<rparr>) else g1)"

section \<open>Maintenance\<close>

text \<open>
  A tick after the system slept: the backoff is cleared and the pooled connections are probed; then
  the ones that \<open>failed\<close> (probe failed, no recent inbound) are removed and closed.
\<close>

definition wake_detected :: "nanos \<Rightarrow> Group \<Rightarrow> bool" where
  "wake_detected now g \<longleftrightarrow>
     (case lastMaintainTime g of None \<Rightarrow> False | Some t \<Rightarrow> sleepThreshold g > 0 \<and> now - t > sleepThreshold g)"

fun close_all :: "nat list \<Rightarrow> Group \<Rightarrow> Group" where
  "close_all [] g = g"
| "close_all (k # ks) g = close_all ks (close_sc k g)"

definition remove_failed :: "nat set \<Rightarrow> Group \<Rightarrow> nat list \<times> Group" where
  "remove_failed failed g =
    (filter (\<lambda>k. k \<in> failed) (conns g), g\<lparr>conns := filter (\<lambda>k. k \<notin> failed) (conns g)\<rparr>)"

text \<open>
  The sweep of dead connections under the lock (\<open>dead k\<close>: the adapter's done channel is closed):
  whether any was removed, how many are left, and the group.
\<close>

definition sweep_dead :: "(nat \<Rightarrow> bool) \<Rightarrow> Group \<Rightarrow> bool \<times> nat \<times> Group" where
  "sweep_dead dead g =
    (let gone = filter dead (conns g); alive = filter (\<lambda>k. \<not> dead k) (conns g)
     in (gone \<noteq> [], length alive, (close_all gone g)\<lparr>conns := alive\<rparr>))"

text \<open>
  After the sweep, which left \<open>currentCount\<close> connections: how many replenish attempts to start; the
  round's rotation flag is cleared.
\<close>

definition maintain_replenish :: "nanos \<Rightarrow> nat \<Rightarrow> Group \<Rightarrow> nat \<times> Group" where
  "maintain_replenish now currentCount g =
    (if currentCount < defaultPoolSize then
       (case reserveReplenish now currentCount g of
          (needed, wait, g1) \<Rightarrow>
            if wait > 0 then (0, g1)
            else if needed = 0 then (0, g1)
            else (needed, g1\<lparr>roundAdvanced := False\<rparr>))
     else (0, g))"

text \<open>The whole of \<open>maintainOnce\<close> when nothing runs in between.\<close>

definition wake_cleanup :: "nat set \<Rightarrow> Group \<Rightarrow> Group" where
  "wake_cleanup failed g =
    (let g1 = resetReplenishBackoff g in
     if failed = {} then g1
     else let (toClose, g2) = remove_failed failed g1 in close_all toClose (announce_conn g2))"

definition maintainOnce :: "nanos \<Rightarrow> nat set \<Rightarrow> (nat \<Rightarrow> bool) \<Rightarrow> Group \<Rightarrow> nat \<times> Group" where
  "maintainOnce now failed dead g =
    (let g1 = (if wake_detected now g then wake_cleanup failed g else g);
         (removedAny, currentCount, g2) = sweep_dead dead (g1\<lparr>lastMaintainTime := Some now\<rparr>);
         g3 = (if removedAny then signalCapacityChange g2 else g2)
     in maintain_replenish now currentCount g3)"

section \<open>Closing\<close>

definition cleanup :: "Group \<Rightarrow> Group" where
  "cleanup g = signalCapacityChange ((close_all (conns g) g)\<lparr>conns := []\<rparr>)"

text \<open>What \<open>Pool.Close\<close> does to a group before it waits for the group's goroutines.\<close>

definition close_group :: "Group \<Rightarrow> Group" where
  "close_group g = cleanup (if groupCtx g \<noteq> None then g\<lparr>groupCtx := Some True\<rparr> else g)"

end
