(* ===== verification/Clients.thy ===== *)
theory Clients
  imports Settings
begin

text \<open>
  The clients a connection is built with: the SSM API client (\<open>internal/aws/ssm/client.go\<close>) and the SSH
  client (\<open>internal/ssh/client.go\<close>).  The AWS SDK, the SSH library and the operating system are
  parameters: what each call answers.
\<close>

section \<open>SSM\<close>

text \<open>The options given to the SDK's \<open>LoadDefaultConfig\<close>; \<open>AWSConfig\<close> has the fields of \<open>ClientConfig\<close>.\<close>

datatype load_option = SharedConfigProfile string | LoadRegion string | StaticCredentials string string string

definition client_options :: "AWSConfig \<Rightarrow> load_option list" where
  "client_options cfg =
     (if Profile cfg \<noteq> [] then [SharedConfigProfile (Profile cfg)] else [])
     @ (if Region cfg \<noteq> [] then [LoadRegion (Region cfg)] else [])
     @ (if AccessKey cfg \<noteq> [] \<and> SecretKey cfg \<noteq> []
        then [StaticCredentials (AccessKey cfg) (SecretKey cfg) []] else [])"

text \<open>A client, of which only the region is visible.\<close>

definition NewClient :: "(load_option list \<Rightarrow> go_error + string) \<Rightarrow> AWSConfig \<Rightarrow> go_error + string" where
  "NewClient LoadDefaultConfig cfg =
    (case LoadDefaultConfig (client_options cfg) of
       Inl e \<Rightarrow> Inl (Wrapped ''unable to load SDK config'' [e])
     | Inr region \<Rightarrow> Inr region)"

record Session =
  TokenValue :: string
  StreamUrl :: string
  SessionId :: string

text \<open>The pointers of an API answer; the last one is the session id of \<open>StartSession\<close>.\<close>

record session_output =
  out_StreamUrl :: "string option"
  out_TokenValue :: "string option"
  out_SessionId :: "string option"

record StartSessionInput =
  Target :: string
  DocumentName :: string
  Parameters :: "(string, string list) gomap"

definition start_session_input :: "string \<Rightarrow> StartSessionInput" where
  "start_session_input instanceID =
     \<lparr>Target = instanceID, DocumentName = ''AWS-StartSSHSession'', Parameters = [(''portNumber'', [''22''])]\<rparr>"

text \<open>\<open>SessionId\<close> is read through its pointer without a test.\<close>

definition StartSession ::
  "(StartSessionInput \<Rightarrow> go_error + session_output) \<Rightarrow> string \<Rightarrow> Session outcome" where
  "StartSession svc instanceID =
    (case svc (start_session_input instanceID) of
       Inl e \<Rightarrow> Fail (Wrapped ''failed to start session'' [e])
     | Inr out \<Rightarrow>
         (case (out_StreamUrl out, out_TokenValue out) of
            (Some url, Some token) \<Rightarrow>
              (case out_SessionId out of
                 Some i \<Rightarrow> Ret \<lparr>TokenValue = token, StreamUrl = url, SessionId = i\<rparr>
               | None \<Rightarrow> Panic ''nil pointer dereference'')
          | _ \<Rightarrow> Fail (OtherError ''ssm start session response missing stream url or token'')))"

definition ResumeSession :: "(string \<Rightarrow> go_error + session_output) \<Rightarrow> string \<Rightarrow> Session outcome" where
  "ResumeSession svc sessionID =
    (case svc sessionID of
       Inl e \<Rightarrow> Fail (Wrapped ''failed to resume session'' [e])
     | Inr out \<Rightarrow>
         (case (out_StreamUrl out, out_TokenValue out) of
            (Some url, Some token) \<Rightarrow> Ret \<lparr>TokenValue = token, StreamUrl = url, SessionId = sessionID\<rparr>
          | _ \<Rightarrow> Fail (OtherError ''ssm resume session response missing stream url or token'')))"

section \<open>SSH\<close>

text \<open>\<open>HasPrefix(path, "~/")\<close> with the home directory of the current user, if there is one.\<close>

definition expandPath :: "string option \<Rightarrow> string \<Rightarrow> string" where
  "expandPath home path =
    (if take 2 path = ''~/'' then (case home of Some h \<Rightarrow> h @ drop 1 path | None \<Rightarrow> path) else path)"

text \<open>
  What the outside answers to \<open>Connect\<close>: the socket variable, the agent's dial and its signers, the
  key file (read and parsed to a signer), and the handshake, with \<open>None\<close> when it takes longer than the
  timeout.
\<close>

datatype auth_method = AgentKeys "string list" | KeyFile string

record ssh_world =
  SSH_AUTH_SOCK :: string
  agent_dial :: "go_error option"
  agent_signers :: "go_error + string list"
  home_dir :: "string option"
  ReadFile :: "string \<Rightarrow> go_error + bytes"
  ParsePrivateKey :: "bytes \<Rightarrow> go_error + string"
  ssh_handshake :: "string \<Rightarrow> auth_method list \<Rightarrow> (go_error option) option"

text \<open>The agent: the methods it gives, and whether its connection stays open until \<open>Connect\<close> returns.\<close>

definition agent_auth :: "ssh_world \<Rightarrow> auth_method list \<times> bool" where
  "agent_auth w =
    (if SSH_AUTH_SOCK w \<noteq> [] \<and> agent_dial w = None then
       (case agent_signers w of
          Inr signers \<Rightarrow> if length signers > 0 then ([AgentKeys signers], True) else ([], False)
        | Inl e \<Rightarrow> ([], False))
     else ([], False))"

definition key_auth :: "ssh_world \<Rightarrow> string \<Rightarrow> go_error + auth_method list" where
  "key_auth w path =
    (if path = [] then Inr []
     else case ReadFile w (expandPath (home_dir w) path) of
            Inl e \<Rightarrow> Inl (Wrapped ''failed to read private key'' [e])
          | Inr key \<Rightarrow>
              (case ParsePrivateKey w key of
                 Inl e \<Rightarrow> Inl (Wrapped ''failed to parse private key'' [e])
               | Inr signer \<Rightarrow> Inr [KeyFile signer]))"

text \<open>The error, if any, and whether \<open>Connect\<close> closed the transport.\<close>

definition ssh_Connect :: "ssh_world \<Rightarrow> SSHConfig \<Rightarrow> go_error option \<times> bool" where
  "ssh_Connect w cfg =
    (case key_auth w (SshKey cfg) of
       Inl e \<Rightarrow> (Some e, False)
     | Inr keys \<Rightarrow>
         let authMethods = fst (agent_auth w) @ keys in
         if authMethods = [] then (Some (OtherError ''no non-interactive SSH authentication available''), False)
         else case ssh_handshake w (SshUser cfg) authMethods of
                None \<Rightarrow> (Some (OtherError ''ssh handshake timeout''), True)
              | Some (Some e) \<Rightarrow> (Some (Wrapped ''ssh handshake failed'' [e]), False)
              | Some None \<Rightarrow> (None, False))"

lemma ssh_Connect_needs_auth:
  "fst (ssh_Connect w cfg) = None \<Longrightarrow>
   \<exists>ms. ms \<noteq> [] \<and> ssh_handshake w (SshUser cfg) ms = Some None
      \<and> set ms \<subseteq> set (fst (agent_auth w)) \<union> (case key_auth w (SshKey cfg) of Inr ks \<Rightarrow> set ks | Inl _ \<Rightarrow> {})"
  by (auto simp: ssh_Connect_def Let_def split: sum.splits option.splits if_splits)

end
