(* ===== verification/PoolConnect.thy ===== *)
theory PoolConnect
  imports Pool Clients
begin

text \<open>
  The upstream pool (\<open>internal/upstream/pool.go\<close>), part two: one connection from SSM session to SSH
  client, the pool of a group with failover between instances, all groups at start-up and shutdown,
  the keepalive loop, the classification of dial errors, and the statistics.
\<close>

section \<open>Errors and keepalives\<close>

fun contains_str :: "string \<Rightarrow> string \<Rightarrow> bool" where
  "contains_str [] sub = (sub = [])"
| "contains_str (c # cs) sub = (take (length sub) (c # cs) = sub \<or> contains_str cs sub)"

text \<open>\<open>msg\<close> is the text of \<open>err.Error()\<close>.\<close>

definition isTransportError :: "go_error \<Rightarrow> string \<Rightarrow> bool" where
  "isTransportError err msg \<longleftrightarrow>
     errors_is err IoEOF \<or> errors_is err IoErrUnexpectedEOF
     \<or> errors_is err NetErrClosed
     \<or> errors_is err IoErrClosedPipe
     \<or> errors_is err (Errno EPIPE) \<or> errors_is err (Errno ECONNRESET)
     \<or> contains_str msg ''use of closed network connection''
     \<or> contains_str msg ''closed pipe''
     \<or> contains_str msg ''ssh: unexpected packet'' \<or> contains_str msg ''ssh: disconnect''
     \<or> contains_str msg ''ssh: handshake failed''"

text \<open>\<open>answer\<close> is the result of the keepalive request if it arrives before the timeout.\<close>

definition probeKeepalive :: "(go_error option) option \<Rightarrow> sshConn \<Rightarrow> go_error option" where
  "probeKeepalive answer c =
    (if \<not> hasClient c then Some (OtherError ''ssh client unavailable'')
     else case answer of
            None \<Rightarrow> Some (OtherError ''ssh keepalive timed out'')
          | Some None \<Rightarrow> None
          | Some (Some e) \<Rightarrow> Some (Wrapped ''ssh keepalive failed'' [e]))"

text \<open>\<open>lastIn\<close> is the adapter's \<open>LastInbound\<close>, \<open>None\<close> for the zero time.\<close>

definition hasRecentInbound :: "nanos \<Rightarrow> nanos \<Rightarrow> nanos option \<Rightarrow> sshConn \<Rightarrow> bool" where
  "hasRecentInbound now window lastIn c =
    (hasAdapter c \<and> (case lastIn of None \<Rightarrow> False | Some t \<Rightarrow> now - t < window))"

text \<open>
  One tick of the keepalive loop: whether the adapter reconnects (before and after the probe), the
  probe's error, recent inbound traffic, and the time.  The loop goes on, goes on after forcing a
  WebSocket resume, or ends after closing the connection.
\<close>

datatype tick_action = TickGoOn | TickResume | TickClose

record tick =
  reconnecting :: bool
  probe_error :: "go_error option"
  reconnecting_after :: bool
  recent_inbound :: bool
  tick_now :: nanos

definition keepalive_tick :: "tick \<Rightarrow> sshConn \<Rightarrow> tick_action \<times> sshConn" where
  "keepalive_tick t c =
    (if hasAdapter c \<and> reconnecting t then (TickGoOn, c)
     else if probe_error t = None then (TickGoOn, c\<lparr>keepaliveFailures := 0\<rparr>)
     else if hasAdapter c \<and> reconnecting_after t then (TickGoOn, c)
     else if recent_inbound t then (TickGoOn, c\<lparr>keepaliveFailures := 0\<rparr>)
     else let failures = keepaliveFailures c + 1; c1 = c\<lparr>keepaliveFailures := failures\<rparr> in
       if failures \<ge> sshKeepaliveFailureLimit then
         if hasAdapter c \<and> (lastRescue c = 0 \<or> tick_now t - lastRescue c \<ge> keepaliveRescueCooldown)
         then (TickResume, c1\<lparr>lastRescue := tick_now t, keepaliveFailures := 0\<rparr>)
         else (TickClose, c1\<lparr>scOpen := False\<rparr>)
       else (TickGoOn, c1))"

text \<open>The loop over its ticks, until it closes the connection or the ticks end.\<close>

fun keepalive_run :: "tick list \<Rightarrow> sshConn \<Rightarrow> tick_action list \<times> sshConn" where
  "keepalive_run [] c = ([], c)"
| "keepalive_run (t # ts) c =
    (case keepalive_tick t c of
       (TickClose, c1) \<Rightarrow> ([TickClose], c1)
     | (a, c1) \<Rightarrow> (let (as, c2) = keepalive_run ts c1 in (a # as, c2)))"

definition isIdle :: "sshConn \<Rightarrow> bool" where
  "isIdle c \<longleftrightarrow> activeChannels c = 0 \<and> inflightDials c = 0"

section \<open>One connection\<close>

definition getSSMClient :: "(AWSConfig \<Rightarrow> go_error + string) \<Rightarrow> Group \<Rightarrow> (go_error + string) \<times> Group" where
  "getSSMClient new g =
    (case ssmClient g of
       Some c \<Rightarrow> (Inr c, g)
     | None \<Rightarrow>
         (case new (awsCfg g) of
            Inl e \<Rightarrow> (Inl (Wrapped ''create SSM client'' [e]), g)
          | Inr c \<Rightarrow> (Inr c, g\<lparr>ssmClient := Some c\<rparr>)))"

text \<open>
  The outside of an attempt: the SDK's configuration loader, its \<open>StartSession\<close>, \<open>NewAdapter\<close> (from
  stream URL and token) and \<open>WaitForHandshake\<close> of the adapter, and what the SSH client meets.
\<close>

record connect_world =
  load_config :: "load_option list \<Rightarrow> go_error + string"
  start_session :: "StartSessionInput \<Rightarrow> go_error + session_output"
  new_adapter :: "string \<Rightarrow> string \<Rightarrow> go_error option"
  ssm_handshake :: "go_error option"
  ssh_side :: ssh_world

text \<open>
  \<open>connectSingle\<close>: its result, whether an adapter was created and is still open, and the group.
\<close>

definition connectSingle :: "connect_world \<Rightarrow> string \<Rightarrow> Group \<Rightarrow> nat outcome \<times> bool \<times> Group" where
  "connectSingle w instanceID g =
    (case getSSMClient (NewClient (load_config w)) g of
       (Inl e, g1) \<Rightarrow> (Fail e, False, g1)
     | (Inr client, g1) \<Rightarrow>
         (case StartSession (start_session w) instanceID of
            Fail e \<Rightarrow> (Fail (Wrapped ''start session'' [e]), False, g1)
          | Panic p \<Rightarrow> (Panic p, False, g1)
          | Ret session \<Rightarrow>
              (case new_adapter w (StreamUrl session) (TokenValue session) of
                 Some e \<Rightarrow> (Fail (Wrapped ''websocket connect'' [e]), False, g1)
               | None \<Rightarrow>
                   (case ssm_handshake w of
                      Some e \<Rightarrow> (Fail (Wrapped ''SSM handshake'' [e]), False, g1)
                    | None \<Rightarrow>
                        (case ssh_Connect (ssh_side w) (sshConfig g1) of
                           (Some e, closed) \<Rightarrow> (Fail (Wrapped ''SSH connect'' [e]), False, g1)
                         | (None, closed) \<Rightarrow>
                             (let (k, g2) = conn_created g1 in (Ret k, \<not> closed, g2)))))))"

lemma ssh_Connect_open: "fst (ssh_Connect w cfg) = None \<Longrightarrow> \<not> snd (ssh_Connect w cfg)"
  by (auto simp: ssh_Connect_def Let_def split: sum.splits option.splits if_splits)

text \<open>An adapter is left open exactly when a connection is returned.\<close>

lemma connectSingle_open:
  "fst (snd (connectSingle w i g)) \<longleftrightarrow> (\<exists>k. fst (connectSingle w i g) = Ret k)"
  using ssh_Connect_open [of "ssh_side w"]
  by (auto simp: connectSingle_def split: sum.splits outcome.splits option.splits prod.splits)
     (metis fst_conv snd_conv)+

section \<open>The pool of a group\<close>

text \<open>
  The results of the parallel attempts, in the order in which they arrive: the error of a failed one,
  or \<open>None\<close> for a connection, which gets its number here.
\<close>

fun collect_results :: "go_error option list \<Rightarrow> Group \<Rightarrow> nat list \<times> go_error option \<times> Group" where
  "collect_results [] g = ([], None, g)"
| "collect_results (Some e # rs) g =
    (let (ks, firstErr, g1) = collect_results rs g in (ks, Some e, g1))"
| "collect_results (None # rs) g =
    (let (k, g1) = conn_created g; (ks, firstErr, g2) = collect_results rs g1 in (k # ks, firstErr, g2))"

definition connectPool :: "(nat \<Rightarrow> go_error option) \<Rightarrow> Group \<Rightarrow> go_error option \<times> Group" where
  "connectPool arrival g =
    (let (newConns, firstErr, g1) = collect_results (map arrival [0..<defaultPoolSize]) g in
     if newConns = []
     then (Some (Wrapped ''failed to establish any connections'' (case firstErr of Some e \<Rightarrow> [e] | None \<Rightarrow> [])), g1)
     else (None, signalCapacityChange (g1\<lparr>conns := newConns\<rparr>)))"

text \<open>The failover loop; \<open>att a i\<close> are the results of attempt \<open>a\<close>, made on instance \<open>i\<close>.\<close>

type_synonym attempts = "nat \<Rightarrow> string \<Rightarrow> nat \<Rightarrow> go_error option"

fun connect_loop :: "nat \<Rightarrow> nat \<Rightarrow> attempts \<Rightarrow> Group \<Rightarrow> go_error option \<times> Group" where
  "connect_loop 0 attempt att g = (Some (OtherError ''all instances failed''), g)"
| "connect_loop (Suc n) attempt att g =
    (case connectPool (att attempt (currentInstance g)) g of
       (Some e, g1) \<Rightarrow> connect_loop n (Suc attempt) att (advanceInstance g1)
     | (None, g1) \<Rightarrow> (None, g1))"

definition connect_group :: "attempts \<Rightarrow> Group \<Rightarrow> go_error option \<times> Group" where
  "connect_group att g = connect_loop (length (instances g)) 0 att g"

section \<open>All groups\<close>

type_synonym pool = "(string, Group) gomap"

text \<open>
  \<open>Pool.Connect\<close>: every group connects on its own; \<open>order\<close> is the order in which their results
  arrive (a failure cancels the attempts of the others, which is part of what they meet).
\<close>

definition connect_results :: "(string \<Rightarrow> attempts) \<Rightarrow> pool \<Rightarrow> (string \<times> go_error option \<times> Group) list" where
  "connect_results att p = map (\<lambda>(name, g). (name, connect_group (att name) g)) p"

fun first_error :: "(string \<Rightarrow> go_error option) \<Rightarrow> string list \<Rightarrow> go_error option" where
  "first_error res [] = None"
| "first_error res (n # ns) =
    (case res n of Some e \<Rightarrow> Some (Wrapped (''upstream '' @ n) [e]) | None \<Rightarrow> first_error res ns)"

definition result_of :: "(string \<times> go_error option \<times> Group) list \<Rightarrow> string \<Rightarrow> go_error option" where
  "result_of rs n = (case map_of rs n of Some (r, g) \<Rightarrow> r | None \<Rightarrow> None)"

definition Pool_Connect :: "(string \<Rightarrow> attempts) \<Rightarrow> string list \<Rightarrow> pool \<Rightarrow> go_error option \<times> pool" where
  "Pool_Connect att order p =
    (let rs = connect_results att p in
     case first_error (result_of rs) order of
       Some e \<Rightarrow> (Some e, map (\<lambda>(n, r, g). (n, if r = None then cleanup g else g)) rs)
     | None \<Rightarrow> (None, map (\<lambda>(n, r, g). (n, g\<lparr>groupCtx := Some False\<rparr>)) rs))"

definition Pool_Close :: "pool \<Rightarrow> pool" where
  "Pool_Close p = map (\<lambda>(n, g). (n, close_group g)) p"

text \<open>The group a dial goes to.\<close>

definition Pool_Dial_group :: "string \<Rightarrow> pool \<Rightarrow> go_error + Group" where
  "Pool_Dial_group name p =
    (case map_of p name of
       None \<Rightarrow> Inl (OtherError (''upstream '' @ name @ '' not found''))
     | Some g \<Rightarrow> Inr g)"

definition ExperimentSSHSession :: "string \<Rightarrow> pool \<Rightarrow> go_error + nat" where
  "ExperimentSSHSession name p =
    (case map_of p name of
       None \<Rightarrow> Inl (OtherError (''upstream '' @ name @ '' not found''))
     | Some g \<Rightarrow>
         (case conns g of
            [] \<Rightarrow> Inl (OtherError (''upstream '' @ name @ '' has no connections''))
          | k # ks \<Rightarrow>
              if \<not> hasClient (sc g k) \<or> \<not> hasAdapter (sc g k)
              then Inl (OtherError (''upstream '' @ name @ '' connection is not ready''))
              else Inr k))"

section \<open>Statistics\<close>

record SSHConnStats =
  ID :: nat
  st_ActiveChannels :: int
  st_InflightDials :: int
  st_Draining :: bool
  st_DialTimeoutCount :: int
  st_KeepaliveConsecutiveFailures :: int
  st_LastDialTimeoutTime :: "nanos option"

record GroupStats =
  Name :: string
  CurrentInstance :: string
  PoolSize :: nat
  TargetPoolSize :: nat
  MaxPoolSize :: nat
  st_ScaleInFlight :: int
  st_ReplenishInFlight :: int
  st_ReplenishFailures :: int
  st_ReplenishNextAttempt :: "nanos option"
  st_PendingAbandonedDials :: int
  st_Counters :: GroupCounters
  Connections :: "SSHConnStats list"

definition conn_stats :: "nat \<Rightarrow> sshConn \<Rightarrow> SSHConnStats" where
  "conn_stats k c =
     \<lparr>ID = k, st_ActiveChannels = activeChannels c, st_InflightDials = inflightDials c,
      st_Draining = draining c, st_DialTimeoutCount = dialTimeoutCount c,
      st_KeepaliveConsecutiveFailures = keepaliveFailures c,
      st_LastDialTimeoutTime = (if lastDialTimeout c > 0 then Some (lastDialTimeout c) else None)\<rparr>"

definition group_stats :: "Group \<Rightarrow> GroupStats" where
  "group_stats g =
     \<lparr>Name = gname g, CurrentInstance = currentInstance g, PoolSize = length (conns g),
      TargetPoolSize = defaultPoolSize, MaxPoolSize = maxPoolSize,
      st_ScaleInFlight = scaleInFlight g, st_ReplenishInFlight = replenishInFlight g,
      st_ReplenishFailures = replenishFailures g, st_ReplenishNextAttempt = replenishNextAttempt g,
      st_PendingAbandonedDials = pendingAbandonedDials g, st_Counters = counters g,
      Connections = map (\<lambda>k. conn_stats k (sc g k)) (conns g)\<rparr>"

definition Pool_Stats :: "pool \<Rightarrow> (string \<times> GroupStats) list" where
  "Pool_Stats p = map (\<lambda>(n, g). (n, group_stats g)) p"

end
