(* ===== verification/PoolConnectSpec.thy ===== *)
theory PoolConnectSpec
  imports PoolConnect
begin

text \<open>
  What connecting guarantees: the failover loop tries the instances in turn and ends with the pool of
  the first that gave a connection, and \<open>Pool.Connect\<close> leaves every group connected or none.
\<close>

section \<open>One attempt\<close>

text \<open>A group without pooled connections or dials, as \<open>NewPool\<close> makes it or a failed attempt leaves it.\<close>

definition fresh_group :: "Group \<Rightarrow> bool" where
  "fresh_group g \<longleftrightarrow>
     (\<forall>k. inflightDials (sc g k) = 0 \<and> activeChannels (sc g k) = 0 \<and> scOpen (sc g k))
     \<and> pendingAbandonedDials g = 0 \<and> scaleInFlight g = 0 \<and> replenishInFlight g = 0 \<and> groupCtx g = None
     \<and> waitCh g = None \<and> \<not> forcedReconnectInProgress g"

definition collected :: "go_error option list \<Rightarrow> Group \<Rightarrow> nat list \<Rightarrow> Group \<Rightarrow> bool" where
  "collected rs g ks g' \<longleftrightarrow>
     fresh_group g' \<and> conns g' = conns g \<and> nextSSHConnID g' = nextSSHConnID g + length ks
     \<and> ks = [Suc (nextSSHConnID g)..<Suc (nextSSHConnID g + length ks)]
     \<and> length ks \<le> length rs \<and> (ks = [] \<longleftrightarrow> None \<notin> set rs)
     \<and> instances g' = instances g \<and> current g' = current g"

lemma collect_fresh:
  "\<lbrakk>collect_results rs g = (ks, e, g'); fresh_group g\<rbrakk> \<Longrightarrow> collected rs g ks g'"
proof (induction rs arbitrary: g ks e)
  case Nil
  then show ?case by (simp add: collected_def)
next
  case (Cons r rs)
  show ?case
  proof (cases r)
    case None
    let ?g1 = "snd (conn_created g)"
    obtain ks' e' g2 where r: "collect_results rs ?g1 = (ks', e', g2)" by (metis prod_cases3)
    have eq: "ks = Suc (nextSSHConnID g) # ks'" "g' = g2"
      using Cons.prems r None by (auto simp: conn_created_def Let_def)
    have "fresh_group ?g1" using Cons.prems by (simp add: fresh_group_def conn_created_def Let_def new_sshConn_def)
    then have "collected rs ?g1 ks' g'" using Cons.IH r eq by simp
    then show ?thesis using eq None
      by (auto simp: collected_def conn_created_def Let_def upt_conv_Cons simp del: upt_Suc)
  next
    case (Some x)
    obtain ks' e' g2 where r: "collect_results rs g = (ks', e', g2)" by (metis prod_cases3)
    then have "ks = ks'" "g2 = g'" using Cons.prems Some by auto
    then have "collected rs g ks g'" using Cons.IH r Cons.prems(2) by simp
    then show ?thesis using Some by (auto simp: collected_def)
  qed
qed

text \<open>
  One attempt of the failover loop: it fails exactly when all its results are errors, and then it
  leaves the pool as it was; otherwise the pool is what it collected.
\<close>

lemma connectPool_fresh:
  assumes "connectPool arrival g = (e, g')" "fresh_group g"
  obtains (failed) "e \<noteq> None" "\<forall>i < defaultPoolSize. arrival i \<noteq> None" "conns g' = conns g" "fresh_group g'"
      "instances g' = instances g" "current g' = current g" "nextSSHConnID g' = nextSSHConnID g"
  | (connected) "e = None" "\<exists>i < defaultPoolSize. arrival i = None" "conns g' \<noteq> []" "fresh_group g'"
      "conns g' = [Suc (nextSSHConnID g)..<Suc (nextSSHConnID g')]" "length (conns g') \<le> defaultPoolSize"
      "instances g' = instances g" "current g' = current g"
proof -
  let ?rs = "map arrival [0..<defaultPoolSize]"
  obtain ks fe g1 where r: "collect_results ?rs g = (ks, fe, g1)" by (metis prod_cases3)
  note c = collect_fresh [OF r assms(2), unfolded collected_def]
  have n: "None \<in> set ?rs \<longleftrightarrow> (\<exists>i < defaultPoolSize. arrival i = None)"
    by (force simp: image_iff)
  show ?thesis
  proof (cases "ks = []")
    case True
    then have "e \<noteq> None" "g' = g1" using assms(1) r by (auto simp: connectPool_def)
    then show ?thesis using c n True by (intro failed) auto
  next
    case False
    then have "e = None" "g' = signalCapacityChange (g1\<lparr>conns := ks\<rparr>)"
      using assms(1) r by (auto simp: connectPool_def)
    moreover have "length ks \<le> defaultPoolSize" using c by simp
    ultimately show ?thesis using c n False
      by (intro connected) (auto simp: signalCapacityChange_def fresh_group_def simp del: upt_Suc)
  qed
qed

lemma fresh_advance: "fresh_group g \<Longrightarrow> fresh_group (advanceInstance g)"
  by (simp add: fresh_group_def advanceInstance_def)

lemma fresh_new: "fresh_group (NewGroup name up t)" "conns (NewGroup name up t) = []"
  "nextSSHConnID (NewGroup name up t) = 0" "current (NewGroup name up t) = 0"
  "instances (NewGroup name up t) = Instances up"
  by (simp_all add: NewGroup_def fresh_group_def new_sshConn_def)

section \<open>Failover\<close>

text \<open>The instance of attempt \<open>a\<close>, counted from the current one.\<close>

definition instance_at :: "Group \<Rightarrow> nat \<Rightarrow> string" where
  "instance_at g a = instances g ! ((current g + a) mod length (instances g))"

definition attempt_fails :: "attempts \<Rightarrow> Group \<Rightarrow> nat \<Rightarrow> bool" where
  "attempt_fails att g a \<longleftrightarrow> (\<forall>i < defaultPoolSize. att a (instance_at g a) i \<noteq> None)"

text \<open>
  The loop from attempt \<open>a\<close> on, in terms of the group \<open>g0\<close> it was started on.
\<close>

definition on_attempt :: "Group \<Rightarrow> nat \<Rightarrow> Group \<Rightarrow> bool" where
  "on_attempt g0 a g \<longleftrightarrow> fresh_group g \<and> conns g = [] \<and> instances g = instances g0
     \<and> current g = (current g0 + a) mod length (instances g0) \<and> nextSSHConnID g = nextSSHConnID g0"

definition connected_on :: "Group \<Rightarrow> nat \<Rightarrow> Group \<Rightarrow> bool" where
  "connected_on g0 a g \<longleftrightarrow> fresh_group g \<and> conns g \<noteq> [] \<and> length (conns g) \<le> defaultPoolSize
     \<and> conns g = [Suc (nextSSHConnID g0)..<Suc (nextSSHConnID g)]
     \<and> currentInstance g = instance_at g0 a"

lemma connect_loop_spec:
  assumes "connect_loop n a att g = (e, g')" "on_attempt g0 a g"
  shows "(e \<noteq> None \<and> (\<forall>i < n. attempt_fails att g0 (a + i)) \<and> on_attempt g0 (a + n) g')
    \<or> (e = None \<and> (\<exists>i < n. (\<forall>j < i. attempt_fails att g0 (a + j)) \<and> \<not> attempt_fails att g0 (a + i)
          \<and> connected_on g0 (a + i) g'))"
  using assms
proof (induction n arbitrary: a g)
  case 0
  then show ?case by auto
next
  case (Suc n)
  obtain r g1 where r: "connectPool (att a (currentInstance g)) g = (r, g1)" by fastforce
  have inst: "currentInstance g = instance_at g0 a"
    using Suc.prems(2) by (simp add: on_attempt_def currentInstance_def instance_at_def)
  have fresh: "fresh_group g" using Suc.prems(2) by (simp add: on_attempt_def)
  show ?case
  proof (rule connectPool_fresh [OF r fresh])
    assume f: "r \<noteq> None" "\<forall>i < defaultPoolSize. att a (currentInstance g) i \<noteq> None" "conns g1 = conns g"
      "fresh_group g1" "instances g1 = instances g" "current g1 = current g" "nextSSHConnID g1 = nextSSHConnID g"
    have fails: "attempt_fails att g0 a" using f(2) inst by (simp add: attempt_fails_def)
    have "on_attempt g0 (Suc a) (advanceInstance g1)"
      using Suc.prems(2) f fresh_advance [OF f(4)] by (simp add: on_attempt_def advanceInstance_def mod_Suc_eq)
    moreover have "connect_loop n (Suc a) att (advanceInstance g1) = (e, g')"
      using Suc.prems(1) r f(1) by auto
    ultimately have "(e \<noteq> None \<and> (\<forall>i < n. attempt_fails att g0 (Suc a + i)) \<and> on_attempt g0 (Suc a + n) g')
      \<or> (e = None \<and> (\<exists>i < n. (\<forall>j < i. attempt_fails att g0 (Suc a + j)) \<and> \<not> attempt_fails att g0 (Suc a + i)
          \<and> connected_on g0 (Suc a + i) g'))" using Suc.IH by blast
    then show ?thesis
    proof (elim disjE conjE exE)
      assume h: "e \<noteq> None" "\<forall>i < n. attempt_fails att g0 (Suc a + i)" "on_attempt g0 (Suc a + n) g'"
      have "\<forall>i < Suc n. attempt_fails att g0 (a + i)" using h(2) fails by (auto simp: less_Suc_eq_0_disj)
      then show ?thesis using h by simp
    next
      fix i assume h: "e = None" "i < n" "\<forall>j < i. attempt_fails att g0 (Suc a + j)"
        "\<not> attempt_fails att g0 (Suc a + i)" "connected_on g0 (Suc a + i) g'"
      have "\<forall>j < Suc i. attempt_fails att g0 (a + j)" using h(3) fails by (auto simp: less_Suc_eq_0_disj)
      then show ?thesis using h by (intro disjI2) (auto intro!: exI [of _ "Suc i"])
    qed
  next
    assume c: "r = None" "\<exists>i < defaultPoolSize. att a (currentInstance g) i = None" "conns g1 \<noteq> []"
      "fresh_group g1" "conns g1 = [Suc (nextSSHConnID g)..<Suc (nextSSHConnID g1)]"
      "length (conns g1) \<le> defaultPoolSize" "instances g1 = instances g" "current g1 = current g"
    have "\<not> attempt_fails att g0 a" using c(2) inst by (auto simp: attempt_fails_def)
    moreover have "e = None" "g' = g1" using Suc.prems(1) r c(1) by auto
    moreover have "connected_on g0 a g1" using c Suc.prems(2) inst
      by (simp add: connected_on_def on_attempt_def currentInstance_def del: upt_Suc)
    ultimately show ?thesis by (intro disjI2) (auto intro!: exI [of _ 0])
  qed
qed

lemma on_attempt_new: "on_attempt (NewGroup name up t) 0 (NewGroup name up t)"
  by (simp add: on_attempt_def fresh_new)

lemma connect_new:
  assumes "connect_group att (NewGroup name up t) = (e, g)"
  obtains (failed) "e \<noteq> None" "\<forall>a < length (Instances up). attempt_fails att (NewGroup name up t) a"
      "on_attempt (NewGroup name up t) 0 g"
  | (connected) a where "e = None" "a < length (Instances up)" "\<forall>b < a. attempt_fails att (NewGroup name up t) b"
      "\<not> attempt_fails att (NewGroup name up t) a" "connected_on (NewGroup name up t) a g"
proof -
  have "connect_loop (length (Instances up)) 0 att (NewGroup name up t) = (e, g)"
    using assms by (simp add: connect_group_def fresh_new)
  note connect_loop_spec [OF this on_attempt_new]
  then show ?thesis
  proof (elim disjE conjE exE)
    assume h: "e \<noteq> None" "\<forall>i < length (Instances up). attempt_fails att (NewGroup name up t) (0 + i)"
      "on_attempt (NewGroup name up t) (0 + length (Instances up)) g"
    then have "on_attempt (NewGroup name up t) 0 g" by (simp add: on_attempt_def fresh_new)
    then show ?thesis using failed h by simp
  next
    fix i assume "e = None" "i < length (Instances up)" "\<forall>j < i. attempt_fails att (NewGroup name up t) (0 + j)"
      "\<not> attempt_fails att (NewGroup name up t) (0 + i)" "connected_on (NewGroup name up t) (0 + i) g"
    then show ?thesis using connected by simp
  qed
qed

lemma instance_at_new: "a < length (Instances up) \<Longrightarrow> instance_at (NewGroup name up t) a = Instances up ! a"
  by (simp add: instance_at_def fresh_new)

text \<open>
  C20. Connecting a new group tries its instances in their order, each at most once, four connections at
  a time: it succeeds exactly when some connection to some instance succeeds, and then the current
  instance is the first that gave one and the pool has one to four open connections, all made to it;
  otherwise there is an error, the pool is empty and the first instance is current again.
\<close>

theorem connect_failover:
  "let g0 = NewGroup name up t; (e, g) = connect_group att g0; n = length (Instances up) in
   (e = None \<longleftrightarrow> (\<exists>a < n. \<exists>i < defaultPoolSize. att a (Instances up ! a) i = None))
   \<and> (e = None \<longrightarrow> (\<exists>a < n. currentInstance g = Instances up ! a
        \<and> (\<exists>i < defaultPoolSize. att a (Instances up ! a) i = None)
        \<and> (\<forall>b < a. \<forall>i < defaultPoolSize. att b (Instances up ! b) i \<noteq> None)
        \<and> 0 < length (conns g) \<and> length (conns g) \<le> defaultPoolSize
        \<and> (\<forall>k \<in> set (conns g). scOpen (sc g k))))
   \<and> (e \<noteq> None \<longrightarrow> conns g = [] \<and> current g = 0)"
proof -
  obtain e g where r: "connect_group att (NewGroup name up t) = (e, g)" by fastforce
  have fails: "a < length (Instances up) \<Longrightarrow> attempt_fails att (NewGroup name up t) a \<longleftrightarrow>
    (\<forall>i < defaultPoolSize. att a (Instances up ! a) i \<noteq> None)" for a
    by (simp add: attempt_fails_def instance_at_new)
  show ?thesis
  proof (rule connect_new [OF r])
    assume f: "e \<noteq> None" "\<forall>a < length (Instances up). attempt_fails att (NewGroup name up t) a"
      "on_attempt (NewGroup name up t) 0 g"
    have none: "\<not> (\<exists>a < length (Instances up). \<exists>i < defaultPoolSize. att a (Instances up ! a) i = None)"
    proof (intro notI, elim exE conjE)
      fix a i assume h: "a < length (Instances up)" "i < defaultPoolSize" "att a (Instances up ! a) i = None"
      have "\<forall>i < defaultPoolSize. att a (Instances up ! a) i \<noteq> None" using fails [OF h(1)] f(2) h(1) by simp
      then show False using h by auto
    qed
    have "conns g = []" "current g = 0" using f(3) by (simp_all add: on_attempt_def fresh_new)
    then show ?thesis using r none f(1) by (cases e) (auto simp: Let_def)
  next
    fix a assume c: "e = None" "a < length (Instances up)" "\<forall>b < a. attempt_fails att (NewGroup name up t) b"
      "\<not> attempt_fails att (NewGroup name up t) a" "connected_on (NewGroup name up t) a g"
    have some: "\<exists>i < defaultPoolSize. att a (Instances up ! a) i = None" using c(2, 4) fails by auto
    have before: "\<forall>b < a. \<forall>i < defaultPoolSize. att b (Instances up ! b) i \<noteq> None" using c(2, 3) fails by auto
    have g: "currentInstance g = Instances up ! a" "0 < length (conns g)" "length (conns g) \<le> defaultPoolSize"
      "\<forall>k \<in> set (conns g). scOpen (sc g k)"
      using c(5) instance_at_new [OF c(2)] unfolding connected_on_def fresh_group_def length_greater_0_conv
      by metis+
    have "\<exists>a < length (Instances up). currentInstance g = Instances up ! a
        \<and> (\<exists>i < defaultPoolSize. att a (Instances up ! a) i = None)
        \<and> (\<forall>b < a. \<forall>i < defaultPoolSize. att b (Instances up ! b) i \<noteq> None)
        \<and> 0 < length (conns g) \<and> length (conns g) \<le> defaultPoolSize \<and> (\<forall>k \<in> set (conns g). scOpen (sc g k))"
      using c(2) some before g by blast
    moreover have "\<exists>a < length (Instances up). \<exists>i < defaultPoolSize. att a (Instances up ! a) i = None"
      using c(2) some by blast
    ultimately show ?thesis using r c(1) by (simp only: Let_def prod.case) simp
  qed
qed

definition two_instances :: Upstream where
  "two_instances = \<lparr>SSH = \<lparr>SshUser = ''root'', SshKey = []\<rparr>,
     AWS = \<lparr>Profile = ''default'', Region = [], AccessKey = [], SecretKey = []\<rparr>,
     Instances = [''i-1'', ''i-2'']\<rparr>"

definition second_only :: attempts where
  "second_only a i j = (if i = ''i-2'' \<and> j \<noteq> 1 then None else Some TimeoutError)"

theorem connect_failover_witness:
  "let (e, g) = connect_group second_only (NewGroup ''prod'' two_instances 0) in
     e = None \<and> (\<exists>a < 2. currentInstance g = Instances two_instances ! a \<and> 0 < length (conns g))"
proof -
  obtain e g where r: "connect_group second_only (NewGroup ''prod'' two_instances 0) = (e, g)" by fastforce
  have "\<exists>a < length (Instances two_instances). \<exists>i < defaultPoolSize. second_only a (Instances two_instances ! a) i = None"
    by (intro exI [of _ 1] conjI exI [of _ 0]) (simp_all add: two_instances_def second_only_def pool_consts)
  moreover have "length (Instances two_instances) = 2" by (simp add: two_instances_def)
  ultimately show ?thesis using connect_failover [of "''prod''" two_instances 0 second_only] r by auto
qed

section \<open>All groups\<close>

lemma close_all_scOpen: "scOpen (sc (close_all ks g) k) \<longleftrightarrow> scOpen (sc g k) \<and> k \<notin> set ks"
  by (induction ks arbitrary: g) (auto simp: close_sc_def upd_sc_def)

lemma cleanup_simps [simp]:
  "conns (cleanup g) = []" "scOpen (sc (cleanup g) k) \<longleftrightarrow> scOpen (sc g k) \<and> k \<notin> set (conns g)"
  "nextSSHConnID (cleanup g) = nextSSHConnID g"
proof -
  have "nextSSHConnID (close_all ks h) = nextSSHConnID h" for ks h
    by (induction ks arbitrary: h) (simp_all add: close_sc_def upd_sc_def)
  then show "nextSSHConnID (cleanup g) = nextSSHConnID g" by (simp add: cleanup_def signalCapacityChange_def)
qed (simp_all add: cleanup_def signalCapacityChange_def close_all_scOpen)

lemma first_error_None: "first_error res ns = None \<longleftrightarrow> (\<forall>n \<in> set ns. res n = None)"
  by (induction ns) (auto split: option.splits)

text \<open>The outcome of one group of a new pool.\<close>

lemma new_pool_result:
  assumes "(n, r, g) \<in> set (connect_results att (NewPool cfg h))"
  shows "r = None \<longrightarrow> conns g \<noteq> [] \<and> (\<forall>k \<in> set (conns g). scOpen (sc g k))
      \<and> (\<forall>k. 0 < k \<and> k \<le> nextSSHConnID g \<longrightarrow> k \<in> set (conns g))"
    and "r \<noteq> None \<longrightarrow> conns g = [] \<and> nextSSHConnID g = 0"
proof -
  from assms obtain up where r: "connect_group (att n) (NewGroup n up (SleepDetectionThreshold cfg)) = (r, g)"
    by (auto simp: connect_results_def NewPool_def)
  show "r = None \<longrightarrow> conns g \<noteq> [] \<and> (\<forall>k \<in> set (conns g). scOpen (sc g k))
      \<and> (\<forall>k. 0 < k \<and> k \<le> nextSSHConnID g \<longrightarrow> k \<in> set (conns g))"
    by (rule connect_new [OF r]) (auto simp: connected_on_def fresh_group_def fresh_new simp del: upt_Suc)
  show "r \<noteq> None \<longrightarrow> conns g = [] \<and> nextSSHConnID g = 0"
    by (rule connect_new [OF r]) (auto simp: on_attempt_def fresh_new)
qed

text \<open>The groups after \<open>Pool.Connect\<close>, when every group's result arrives.\<close>

definition running :: "Group \<Rightarrow> bool" where
  "running g \<longleftrightarrow> conns g \<noteq> [] \<and> (\<forall>k \<in> set (conns g). scOpen (sc g k)) \<and> groupCtx g = Some False"

lemma connect_names:
  "map fst (connect_results att (NewPool cfg h)) = gm_keys (Upstreams cfg)"
  by (simp add: connect_results_def NewPool_def gm_keys_def case_prod_unfold)

lemma connected_running:
  assumes "Pool_Connect att order (NewPool cfg h) = (None, p)"
    and "gm_ok (Upstreams cfg)" and "set order = set (gm_keys (Upstreams cfg))"
  shows "map fst p = gm_keys (Upstreams cfg)" "\<forall>(n, g) \<in> set p. running g"
proof -
  let ?rs = "connect_results att (NewPool cfg h)"
  have f: "first_error (result_of ?rs) order = None" and p: "p = map (\<lambda>(n, r, g). (n, g\<lparr>groupCtx := Some False\<rparr>)) ?rs"
    using assms(1) by (auto simp: Pool_Connect_def Let_def split: option.splits)
  show "map fst p = gm_keys (Upstreams cfg)"
    using connect_names [of att cfg h] by (simp add: p case_prod_unfold comp_def)
  have "running (g\<lparr>groupCtx := Some False\<rparr>)" if m: "(n, r, g) \<in> set ?rs" for n r g
  proof -
    have "n \<in> set order" using m assms(3) connect_names [of att cfg h] by (metis fst_conv image_eqI set_map)
    then have "result_of ?rs n = None" using f first_error_None by blast
    moreover have "result_of ?rs n = r"
      using m assms(2) connect_names [of att cfg h] by (simp add: result_of_def gm_ok_def)
    ultimately show ?thesis using new_pool_result(1) [OF m] by (simp add: running_def)
  qed
  then show "\<forall>(n, g) \<in> set p. running g" by (auto simp: p)
qed

lemma failed_closed:
  assumes "Pool_Connect att order (NewPool cfg h) = (Some e, p)"
  shows "\<forall>(n, g) \<in> set p. conns g = [] \<and> (\<forall>k. 0 < k \<and> k \<le> nextSSHConnID g \<longrightarrow> \<not> scOpen (sc g k))"
proof -
  let ?rs = "connect_results att (NewPool cfg h)"
  have p: "p = map (\<lambda>(n, r, g). (n, if r = None then cleanup g else g)) ?rs"
    using assms(1) by (auto simp: Pool_Connect_def Let_def split: option.splits)
  have "conns g' = [] \<and> (\<forall>k. 0 < k \<and> k \<le> nextSSHConnID g' \<longrightarrow> \<not> scOpen (sc g' k))"
    if "(n, r, g) \<in> set ?rs" "g' = (if r = None then cleanup g else g)" for n r g g'
    using new_pool_result [OF that(1)] that(2) by (cases "r = None") simp_all
  then show ?thesis unfolding p set_map by fastforce
qed

text \<open>
  C19. \<open>Pool.Connect\<close> is all or nothing.  Without an error every upstream has at least one connection,
  all its connections are open and its maintenance context is running.  With an error no upstream has a
  pooled connection, and every connection that was made to any of them has been closed.
\<close>

theorem connect_all_or_nothing:
  assumes "gm_ok (Upstreams cfg)" and "set order = set (gm_keys (Upstreams cfg))"
  shows "let (e, p) = Pool_Connect att order (NewPool cfg h) in
    (e = None \<longrightarrow> (\<forall>(n, g) \<in> set p. conns g \<noteq> [] \<and> (\<forall>k \<in> set (conns g). scOpen (sc g k))
        \<and> groupCtx g = Some False))
    \<and> (e \<noteq> None \<longrightarrow> (\<forall>(n, g) \<in> set p. conns g = []
        \<and> (\<forall>k. 0 < k \<and> k \<le> nextSSHConnID g \<longrightarrow> \<not> scOpen (sc g k))))"
proof -
  obtain e p where r: "Pool_Connect att order (NewPool cfg h) = (e, p)" by fastforce
  show ?thesis
  proof (cases e)
    case None
    then show ?thesis using connected_running(2) [OF _ assms] r by (auto simp: running_def)
  next
    case (Some x)
    then show ?thesis using failed_closed r by simp
  qed
qed

definition pair_config :: Config where
  "pair_config = \<lparr>Listen = [], DiagListen = [], CfgAuth = None, Upstreams = [(''a'', 0), (''b'', 0)],
     Routes = [], Default = [], SleepDetectionThreshold = 0\<rparr>"

theorem connect_all_or_nothing_witness:
  "let (e, p) = Pool_Connect (\<lambda>n. if n = ''a'' then second_only else (\<lambda>a i j. Some TimeoutError)) [''b'', ''a'']
       (NewPool pair_config \<lparr>cell = \<lambda>_. two_instances, next_ptr = 1\<rparr>) in
    (e = None \<longrightarrow> (\<forall>(n, g) \<in> set p. conns g \<noteq> [] \<and> (\<forall>k \<in> set (conns g). scOpen (sc g k))
        \<and> groupCtx g = Some False))
    \<and> (e \<noteq> None \<longrightarrow> (\<forall>(n, g) \<in> set p. conns g = []
        \<and> (\<forall>k. 0 < k \<and> k \<le> nextSSHConnID g \<longrightarrow> \<not> scOpen (sc g k))))"
  by (rule connect_all_or_nothing) (auto simp: pair_config_def)

section \<open>The pool that dials use\<close>

lemma connect_keeps_clean:
  assumes "connect_group att (NewGroup name up t) = (e, g)"
  shows "fresh_group g" "length (conns g) \<le> defaultPoolSize" "\<forall>k \<in> set (conns g). k \<le> nextSSHConnID g"
  by (rule connect_new [OF assms]; auto simp: on_attempt_def connected_on_def simp del: upt_Suc)+

end
