(* ===== verification/Diag.thy ===== *)
theory Diag
  imports OptionsParse SocksServer PoolConnect "HOL-Library.Sublist"
begin

text \<open>
  The diagnostics server (\<open>internal/diag/server.go\<close>) and the connection identifiers that requests
  carry for its logs (\<open>internal/trace/connid.go\<close>).  \<open>net/http\<close> is modelled where the code uses it: how
  \<open>ServeMux\<close> (Go 1.22 and later) chooses among patterns without method, host and wildcards.  The
  \<open>pprof\<close> and \<open>expvar\<close> pages are names; the numbers of the Go run-time are parameters.
\<close>

section \<open>Routing of requests\<close>

datatype page = Healthz | DebugState | Vars | PprofIndex | PprofCmdline | PprofProfile | PprofSymbol
  | PprofTrace

datatype served = Page page | MovedTo string | NotFound

definition handlers :: "(string \<times> page) list" where
  "handlers =
    [(''/healthz'', Healthz), (''/debug/state'', DebugState), (''/debug/vars'', Vars),
     (''/debug/pprof/'', PprofIndex), (''/debug/pprof/cmdline'', PprofCmdline),
     (''/debug/pprof/profile'', PprofProfile), (''/debug/pprof/symbol'', PprofSymbol),
     (''/debug/pprof/trace'', PprofTrace)]"

text \<open>\<open>cleanPath\<close> of \<open>net/http\<close>: the path without empty, dot and dot-dot elements; a final slash stays.\<close>

definition http_clean :: "string \<Rightarrow> string" where
  "http_clean p =
    (if p = [] then ''/''
     else
       let p1 = (if hd p \<noteq> CHR ''/'' then CHR ''/'' # p else p);
           np = filepath_Clean p1
       in if last p1 = CHR ''/'' \<and> np \<noteq> ''/'' then np @ ''/'' else np)"

text \<open>A pattern that ends in a slash stands for the subtree below it; the longest pattern wins.\<close>

definition pattern_matches :: "string \<Rightarrow> string \<Rightarrow> bool" where
  "pattern_matches pat path \<longleftrightarrow> pat = path \<or> pat \<noteq> [] \<and> last pat = CHR ''/'' \<and> prefix pat path"

fun best_match :: "(string \<times> page) list \<Rightarrow> string \<Rightarrow> (string \<times> page) option" where
  "best_match [] path = None"
| "best_match ((pat, h) # rs) path =
    (case best_match rs path of
       Some (pat', h') \<Rightarrow>
         if pattern_matches pat path \<and> length pat' < length pat then Some (pat, h) else Some (pat', h')
     | None \<Rightarrow> if pattern_matches pat path then Some (pat, h) else None)"

text \<open>
  What the mux does with the path of a request: a path whose subtree is registered but which is not
  itself moves to the subtree, a path that is not clean moves to the clean one.
\<close>

definition mux_serve :: "(string \<times> page) list \<Rightarrow> string \<Rightarrow> served" where
  "mux_serve rs p =
    (let path = http_clean p;
         m = best_match rs path;
         exact = (case m of Some (pat, h) \<Rightarrow> pat = path | None \<Rightarrow> False)
     in if \<not> exact \<and> last path \<noteq> CHR ''/'' \<and> path @ ''/'' \<in> fst ` set rs then MovedTo (path @ ''/'')
        else if path \<noteq> p then MovedTo path
        else (case m of Some (pat, h) \<Rightarrow> Page h | None \<Rightarrow> NotFound))"

lemma best_match_None: "best_match rs path = None \<longleftrightarrow> (\<forall>(pat, h) \<in> set rs. \<not> pattern_matches pat path)"
  by (induction rs) (auto split: option.split prod.split)

lemma best_match_sound:
  "best_match rs path = Some (pat, h) \<Longrightarrow> (pat, h) \<in> set rs \<and> pattern_matches pat path
     \<and> (\<forall>(pat', h') \<in> set rs. pattern_matches pat' path \<longrightarrow> length pat' \<le> length pat)"
proof (induction rs arbitrary: pat h)
  case (Cons r rs)
  obtain q g where r: "r = (q, g)" by (cases r)
  show ?case
  proof (cases "best_match rs path")
    case None
    then show ?thesis using Cons.prems best_match_None [of rs path] by (auto simp: r split: if_splits)
  next
    case (Some m)
    obtain q' g' where m: "m = (q', g')" by (cases m)
    from Cons.IH [OF Some [unfolded m]] show ?thesis
      using Cons.prems Some by (fastforce simp: r m split: if_splits)
  qed
qed simp

text \<open>The site: its pages, the subtree of the profiler's index, and nothing else.\<close>

definition site :: "(string \<times> served) list" where
  "site =
    [(''/healthz'', Page Healthz), (''/debug/state'', Page DebugState), (''/debug/vars'', Page Vars),
     (''/debug/pprof'', MovedTo ''/debug/pprof/''), (''/debug/pprof/'', Page PprofIndex),
     (''/debug/pprof/cmdline'', Page PprofCmdline), (''/debug/pprof/profile'', Page PprofProfile),
     (''/debug/pprof/symbol'', Page PprofSymbol), (''/debug/pprof/trace'', Page PprofTrace)]"

lemma diag_site:
  assumes "http_clean path = path"
  shows "mux_serve handlers path =
    (case map_of site path of
       Some s \<Rightarrow> s
     | None \<Rightarrow> if prefix ''/debug/pprof/'' path then Page PprofIndex else NotFound)"
proof (cases "map_of site path")
  case (Some s)
  have "list_all (\<lambda>(p, s). mux_serve handlers p = s) site" by code_simp
  then show ?thesis using Some map_of_SomeD [OF Some] by (auto simp: list_all_iff)
next
  case None
  then have n: "path \<notin> fst ` set site" by (simp add: map_of_eq_None_iff)
  have "list_all (\<lambda>(pat, h). pat \<in> fst ` set site \<and> (last pat = CHR ''/'' \<longrightarrow> butlast pat \<in> fst ` set site)) handlers"
    by code_simp
  then have h: "\<forall>pat \<in> fst ` set handlers. pat \<noteq> path \<and> pat \<noteq> path @ ''/''"
    using n by (force simp: list_all_iff)
  have m: "best_match handlers path = (if prefix ''/debug/pprof/'' path then Some (''/debug/pprof/'', PprofIndex) else None)"
    using h by (simp add: handlers_def pattern_matches_def)
  have "path \<noteq> ''/debug/pprof/''" using h by (auto simp: handlers_def)
  then show ?thesis using None h assms by (auto simp: mux_serve_def m Let_def)
qed

section \<open>The pages of this program\<close>

text \<open>The numbers of the Go run-time, as \<open>ReadMemStats\<close> and its neighbours give them.\<close>

record runtimeStats =
  Goroutines :: int
  GOMAXPROCS :: int
  NumCPU :: int
  AllocBytes :: u64
  HeapAlloc :: u64
  HeapObjects :: u64
  NextGC :: u64
  LastGCUnix :: int
  NumGC :: u32
  PauseTotalNS :: u64
  Lookups :: u64
  Mallocs :: u64
  Frees :: u64

record stateSnapshot =
  Version :: string
  GeneratedAt :: nanos
  Runtime :: runtimeStats
  SOCKS :: Stats
  UpstreamStats :: "(string \<times> GroupStats) list"

definition zero_stats :: Stats where
  "zero_stats =
    \<lparr>ActiveConns = 0, MaxConns = 0, AcceptedTotal = 0, ConnLimitRejectsTotal = 0,
     HandshakeErrorsTotal = 0, RequestErrorsTotal = 0, DialErrorsTotal = 0, ConnectSuccessTotal = 0,
     RelayClosedTotal = 0, UnsupportedCmdTotal = 0\<rparr>"

text \<open>\<open>RoutingServer.SOCKSStats\<close>: zero without a server.\<close>

definition SOCKSStats :: "Server option \<Rightarrow> Stats" where
  "SOCKSStats s = (case s of None \<Rightarrow> zero_stats | Some v \<Rightarrow> server_stats v)"

definition snapshot ::
  "string \<Rightarrow> Server option option \<Rightarrow> pool option \<Rightarrow> nanos \<Rightarrow> runtimeStats \<Rightarrow> stateSnapshot" where
  "snapshot version server p now rt =
    \<lparr>Version = version, GeneratedAt = now, Runtime = rt,
     SOCKS = (case server of Some s \<Rightarrow> SOCKSStats s | None \<Rightarrow> zero_stats),
     UpstreamStats = (case p of Some q \<Rightarrow> Pool_Stats q | None \<Rightarrow> [])\<rparr>"

text \<open>
  The answers of the two pages the program writes itself: status, content type and body (for the
  state, the JSON text \<open>encode\<close> gives or its error).
\<close>

record http_answer =
  status :: nat
  content_type :: string
  body :: string

definition healthz_answer :: http_answer where
  "healthz_answer = \<lparr>status = 200, content_type = ''text/plain; charset=utf-8'', body = ''ok'' @ [CHR 0x0A]\<rparr>"

definition state_answer :: "(stateSnapshot \<Rightarrow> string + string) \<Rightarrow> stateSnapshot \<Rightarrow> http_answer" where
  "state_answer encode s =
    (case encode s of
       Inr txt \<Rightarrow> \<lparr>status = 200, content_type = ''application/json'', body = txt @ [CHR 0x0A]\<rparr>
     | Inl err \<Rightarrow> \<lparr>status = 500, content_type = ''text/plain; charset=utf-8'', body = err @ [CHR 0x0A]\<rparr>)"

section \<open>The server's life\<close>

text \<open>
  \<open>Start\<close> listens and leaves two goroutines behind: one serves until the listener is closed, the
  other waits for the context and shuts the server down.  What each of them reports at its end.
\<close>

definition HttpErrServerClosed :: go_error where
  "HttpErrServerClosed = OtherError ''http: Server closed''"

definition diag_Start :: "(string \<Rightarrow> go_error option) \<Rightarrow> string \<Rightarrow> go_error option" where
  "diag_Start tcp_listen addr = (case tcp_listen addr of Some e \<Rightarrow> Some e | None \<Rightarrow> None)"

definition diag_shutdown_log :: "go_error option \<Rightarrow> string option" where
  "diag_shutdown_log err =
    (case err of
       Some e \<Rightarrow> if \<not> errors_is e CtxCanceled then Some ''diagnostics shutdown failed'' else None
     | None \<Rightarrow> None)"

definition diag_serve_log :: "go_error option \<Rightarrow> string option" where
  "diag_serve_log err =
    (case err of
       Some e \<Rightarrow> if \<not> errors_is e HttpErrServerClosed then Some ''diagnostics server failed'' else None
     | None \<Rightarrow> None)"

text \<open>What the page of the state shows of the pool: each group under its name, with the sizes of its lists.\<close>

lemma snapshot_shows_pool:
  "map fst (UpstreamStats (snapshot version s (Some p) now rt)) = map fst p"
  "map_of p n = Some g \<Longrightarrow> map_of (UpstreamStats (snapshot version s (Some p) now rt)) n = Some (group_stats g)"
  by (auto simp: snapshot_def Pool_Stats_def map_of_map split: prod.split)

section \<open>Connection identifiers\<close>

text \<open>
  A context as \<open>context.WithValue\<close> builds it: a chain of keys and values.  The key of this package is
  a type nobody else can name, so keys of other packages never meet it.
\<close>

datatype ctx_key = CtxKeyConnID | OtherKey string

datatype go_context = Background | WithValue go_context ctx_key nat

fun ctx_value :: "go_context \<Rightarrow> ctx_key \<Rightarrow> nat option" where
  "ctx_value Background k = None"
| "ctx_value (WithValue ctx k' v) k = (if k' = k then Some v else ctx_value ctx k)"

definition WithConnID :: "go_context \<Rightarrow> nat \<Rightarrow> go_context" where
  "WithConnID ctx cid = WithValue ctx CtxKeyConnID cid"

definition ConnIDFromContext :: "go_context \<Rightarrow> nat \<times> bool" where
  "ConnIDFromContext ctx = (case ctx_value ctx CtxKeyConnID of Some cid \<Rightarrow> (cid, True) | None \<Rightarrow> (0, False))"

text \<open>The identifier of a connection reaches its dial, whatever other packages attach on the way.\<close>

lemma conn_id_reaches_dial:
  "ConnIDFromContext (fold (\<lambda>(k, v) ctx. WithValue ctx (OtherKey k) v) kvs (WithConnID ctx cid)) = (cid, True)"
proof -
  have "ctx_value (fold (\<lambda>(k, v) ctx. WithValue ctx (OtherKey k) v) kvs c) CtxKeyConnID = ctx_value c CtxKeyConnID" for c
    by (induction kvs arbitrary: c) auto
  then show ?thesis by (simp add: ConnIDFromContext_def WithConnID_def)
qed

end
