(* ===== verification/System.thy ===== *)
theory System
  imports OptionsSpec PoolConnectSpec SocksConn Diag
begin

text \<open>
  The whole program: \<open>cmd/session-proxy/main.go\<close> from the parsed command line to the running
  server, and a SOCKS5 client's request from its bytes to the dialer of \<open>NewRoutingServer\<close>.  What the operating
  system answers (opening the log file, the diagnostics listener, the direct dialer), the results of
  the connection attempts and what a group's dial gives are parameters.
\<close>

section \<open>The routing server\<close>

record RoutingServer =
  rsListen :: string
  rsSocks :: Server
  rsRouter :: Router

text \<open>\<open>env\<close> is the environment variable that \<open>socks5.New\<close> reads for its connection limit.\<close>

definition NewRoutingServer :: "string \<Rightarrow> Config \<Rightarrow> Router \<Rightarrow> RoutingServer" where
  "NewRoutingServer env c r = \<lparr>rsListen = Listen c, rsSocks = NewServer env (proxy_auth c) 0, rsRouter = r\<rparr>"

definition Pool_Dial :: "(Group \<Rightarrow> dialer) \<Rightarrow> pool \<Rightarrow> string \<Rightarrow> dialer" where
  "Pool_Dial group_dial p name dl gone addr =
    (case Pool_Dial_group name p of
       Inl e \<Rightarrow> Inl e
     | Inr g \<Rightarrow> group_dial g dl gone addr)"

definition routing_dialer ::
  "dialer \<Rightarrow> (Group \<Rightarrow> dialer) \<Rightarrow> (string \<Rightarrow> string) \<Rightarrow> Router \<Rightarrow> pool \<Rightarrow> dialer" where
  "routing_dialer direct group_dial uni r p dl gone addr =
     proxy_dial (direct dl gone) (\<lambda>u. Pool_Dial group_dial p u dl gone) uni r addr"

section \<open>Start-up\<close>

text \<open>
  Where the program gets: the exits of \<open>main\<close> and \<open>run\<close> in the order of the code, or the server that
  accepts connections, with its pool and the memory in which options and configuration share upstreams.
\<close>

datatype outcome =
    ParseFailed go_error
  | PrintedVersion
  | PrintedUsage
  | LoggingFailed go_error
  | ConfigFailed go_error
  | PrintedConfig Config
  | RouterFailed go_error
  | DiagnosticsFailed go_error
  | ConnectFailed go_error pool
  | Serving RoutingServer pool store

record world =
  mkdirAll :: "string \<Rightarrow> go_error option"
  openFile :: "string \<Rightarrow> go_error option"
  startDiag :: "string \<Rightarrow> go_error option"
  connResults :: "string \<Rightarrow> attempts"
  arrivals :: "string list"
  lower :: "string \<Rightarrow> string"
  limitEnv :: string

definition run :: "world \<Rightarrow> Config \<Rightarrow> store \<Rightarrow> outcome" where
  "run w c h =
    (case buildRouter (lower w) c of
       Inl e \<Rightarrow> RouterFailed e
     | Inr rt \<Rightarrow>
         (let p = NewPool c h;
              server = NewRoutingServer (limitEnv w) c rt
          in case (if DiagListen c \<noteq> [] then diag_Start (startDiag w) (DiagListen c) else None) of
               Some e \<Rightarrow> DiagnosticsFailed e
             | None \<Rightarrow>
                 (case Pool_Connect (connResults w) (arrivals w) p of
                    (Some e, p1) \<Rightarrow> ConnectFailed e p1
                  | (None, p1) \<Rightarrow> Serving server p1 h)))"

definition configureLogging :: "world \<Rightarrow> string \<Rightarrow> go_error option" where
  "configureLogging w logPath =
    (if logPath = [] then None
     else
       let dir = filepath_Dir logPath
       in case (if dir \<noteq> ''.'' \<and> dir \<noteq> [] then mkdirAll w dir else None) of
           Some e \<Rightarrow> Some (Wrapped (''create log directory '' @ dir) [e])
         | None \<Rightarrow>
             (case openFile w logPath of
                Some e \<Rightarrow> Some (Wrapped (''open log file '' @ logPath) [e])
              | None \<Rightarrow> None))"

text \<open>\<open>main\<close> after \<open>New\<close> and \<open>Parse\<close>, with what \<open>command_line\<close> gives.\<close>

definition main :: "world \<Rightarrow> go_error + CommandLine \<times> store \<Rightarrow> outcome" where
  "main w parsed =
    (case parsed of
       Inl e \<Rightarrow> ParseFailed e
     | Inr (o1, h) \<Rightarrow>
         if ShowVersion o1 then PrintedVersion
         else if ShowHelp o1 then PrintedUsage
         else (case configureLogging w (LogFile o1) of
             Some e \<Rightarrow> LoggingFailed e
           | None \<Rightarrow>
               (case ToConfig (cliOptions o1) h of
                  (Inl e, h1) \<Rightarrow> ConfigFailed e
                | (Inr c, h1) \<Rightarrow> if ShowConfig o1 then PrintedConfig c else run w c h1)))"

text \<open>The goroutine of \<open>RoutingServer.Start\<close> when the program is told to stop.\<close>

definition server_shutdown :: "pool \<Rightarrow> pool" where
  "server_shutdown p = Pool_Close p"

lemma run_Serving:
  "run w c h = Serving sv p h' \<longleftrightarrow> (\<exists>rt. buildRouter (lower w) c = Inr rt
     \<and> sv = NewRoutingServer (limitEnv w) c rt \<and> h' = h
     \<and> (DiagListen c \<noteq> [] \<longrightarrow> startDiag w (DiagListen c) = None)
     \<and> Pool_Connect (connResults w) (arrivals w) (NewPool c h) = (None, p))"
  by (auto simp: run_def diag_Start_def Let_def split: sum.splits option.splits prod.splits if_splits)

lemma main_Serving:
  assumes "main w (Inr (o1, h)) = Serving sv p h1"
  obtains c where "ToConfig (cliOptions o1) h = (Inr c, h1)" "run w c h1 = Serving sv p h1"
  using assms
  by (auto simp: main_def run_Serving split: if_splits option.splits sum.splits prod.splits)

lemma router_of_NewRoutingServer [simp]: "rsRouter (NewRoutingServer env c rt) = rt"
  by (simp add: NewRoutingServer_def)

section \<open>Requests find their upstream\<close>

lemma running_group:
  assumes "ToConfig opt h = (Inr c, h1)" and "gm_ok (OUpstreams opt)"
    and "Pool_Connect att order (NewPool c h1) = (None, p)" and "set order = set (gm_keys (Upstreams c))"
    and "u \<in> set (gm_keys (Upstreams c))"
  shows "\<exists>g. Pool_Dial_group u p = Inr g \<and> running g"
proof -
  have ok: "gm_ok (Upstreams c)" using ToConfig_known [OF assms(1)] assms(2) by simp
  note r = connected_running [OF assms(3) ok assms(4)]
  have "u \<in> set (map fst p)" using assms(5) r(1) by simp
  then obtain g where g: "map_of p u = Some g" by (metis list.set_map map_of_eq_None_iff not_None_eq)
  then have "running g" using r(2) map_of_SomeD by fastforce
  then show ?thesis using g by (simp add: Pool_Dial_group_def)
qed


definition good_world :: world where
  "good_world = \<lparr>mkdirAll = (\<lambda>_. None), openFile = (\<lambda>_. None), startDiag = (\<lambda>_. None), connResults = (\<lambda>n a i j. None),
     arrivals = [''dev''], lower = (\<lambda>s. s), limitEnv = []\<rparr>"

definition dev_command :: CommandLine where
  "dev_command = \<lparr>ShowVersion = False, ShowHelp = False, ShowConfig = False, LogFile = [],
     cliOptions = file_options 0 ''dev''\<rparr>"

lemma good_world_serves:
  "case main good_world (Inr (dev_command, first_store)) of
     Serving sv p h1 \<Rightarrow> True | _ \<Rightarrow> False"
  "case ToConfig (cliOptions dev_command) first_store of
     (Inr c, h1) \<Rightarrow> gm_keys (Upstreams c) = [''dev''] \<and> Default c = ''dev'' \<and> Routes c = [] | _ \<Rightarrow> False"
  by code_simp+

lemma good_world_served:
  obtains sv p h1 c where "main good_world (Inr (dev_command, first_store)) = Serving sv p h1"
    "ToConfig (cliOptions dev_command) first_store = (Inr c, h1)" "gm_keys (Upstreams c) = [''dev'']"
    "Default c = ''dev''" "Routes c = []"
proof -
  obtain sv p h1 where m: "main good_world (Inr (dev_command, first_store)) = Serving sv p h1"
    using good_world_serves(1) by (cases "main good_world (Inr (dev_command, first_store))") auto
  obtain c where c: "ToConfig (cliOptions dev_command) first_store = (Inr c, h1)"
    using main_Serving [OF m] by blast
  show ?thesis using that [OF m c] good_world_serves(2) c by simp
qed


section \<open>Nothing leaves outside the tunnels\<close>

lemma only_tunnels:
  assumes "buildRouter uni c = Inr rt" and "Default c \<notin> {[], DirectConnection}"
    and "\<forall>r \<in> set (Routes c). RUpstream r \<notin> {[], DirectConnection}"
  shows "choose_route uni rt addr \<noteq> Direct"
proof -
  obtain rls where rls: "parseRules uni (CfgRoutes (router_config c)) = Inr rls"
    and rt: "rules rt = rls" "defaultName rt = Default c"
    using assms(1) by (auto simp: buildRouter_def NewRouter_def router_config_def split: sum.splits)
  have "Match uni addr rt \<in> upstream ` set rls \<or> Match uni addr rt = Default c"
    using match_ip_rules_in match_domain_rules_in rt by (fastforce simp: Match_def split: option.splits)
  then have "Match uni addr rt \<notin> {[], DirectConnection}"
    using assms(2,3) parseRules_upstreams [OF rls] by (auto simp: router_config_def)
  then show ?thesis by (simp add: choose_route_def Let_def)
qed

text \<open>
  C26. Nothing leaves outside the tunnels.  When the configuration names an upstream as default and
  in every route, no SOCKS5 client can make the program dial directly: whatever a client sends and whenever,
  what its handler does is the same for every direct dialer, so no connection is ever made
  with it, neither for an address no rule matches nor after the pool refused or failed the request.
\<close>

theorem no_direct_leak:
  assumes "main w (Inr (o1, h)) = Serving sv p h1" and "ToConfig (cliOptions o1) h = (Inr c, h1)"
    and "Default c \<notin> {[], DirectConnection}"
    and "\<forall>r \<in> set (Routes c). RUpstream r \<notin> {[], DirectConnection}"
  shows "handleConn (routing_dialer direct group_dial (lower w) (rsRouter sv) p) base t1 t2 t3 probes evs ctype
      client (rsSocks sv)
    = handleConn (routing_dialer direct' group_dial (lower w) (rsRouter sv) p) base t1 t2 t3 probes evs ctype
      client (rsSocks sv)"
proof -
  from main_Serving [OF assms(1)] assms(2) have "run w c h1 = Serving sv p h1" by auto
  then have "buildRouter (lower w) c = Inr (rsRouter sv)" by (auto simp: run_Serving)
  from only_tunnels [OF this assms(3,4)]
  have "routing_dialer direct group_dial (lower w) (rsRouter sv) p
      = routing_dialer direct' group_dial (lower w) (rsRouter sv) p"
    by (intro ext) (simp add: routing_dialer_def proxy_dial_def split: route_choice.split)
  then show ?thesis by simp
qed

definition connect_client :: client where
  "connect_client = \<lparr>cin = [5, 1, 0, 5, 1, 0, 1, 10, 0, 0, 1, 0, 80], cend = IoEOF, cout = [], wres = [],
     cdl = None, cclosed = False\<rparr>"

theorem no_direct_leak_witness:
  "\<exists>sv p h1. main good_world (Inr (dev_command, first_store)) = Serving sv p h1
     \<and> (\<forall>direct direct' group_dial base probes.
        handleConn (routing_dialer direct group_dial (lower good_world) (rsRouter sv) p) base 0 1 2 probes [] TCPConn
          connect_client (rsSocks sv)
      = handleConn (routing_dialer direct' group_dial (lower good_world) (rsRouter sv) p) base 0 1 2 probes [] TCPConn
          connect_client (rsSocks sv))"
proof (rule good_world_served)
  fix sv p h1 c
  assume m: "main good_world (Inr (dev_command, first_store)) = Serving sv p h1"
    and c: "ToConfig (cliOptions dev_command) first_store = (Inr c, h1)"
    and k: "Default c = ''dev''" "Routes c = []"
  have "Default c \<notin> {[], DirectConnection}" "\<forall>r \<in> set (Routes c). RUpstream r \<notin> {[], DirectConnection}"
    using k by (simp_all add: DirectConnection_def)
  from no_direct_leak [OF m c this] m show ?thesis by blast
qed

end
