(* ===== verification/Service.thy ===== *)
theory Service
  imports System
begin

text \<open>
  The program while it serves, until it exits: \<open>RoutingServer.Start\<close> (\<open>internal/proxy/server.go\<close>) with
  its shutdown goroutine, the signal handler of \<open>cmd/session-proxy/main.go\<close>, and what \<open>run\<close> and \<open>main\<close>
  do with the result of \<open>Start\<close>.
\<close>

section \<open>Start\<close>

definition RoutingServer_Start :: "(string \<Rightarrow> go_error option) \<Rightarrow> RoutingServer \<Rightarrow> go_error + serve" where
  "RoutingServer_Start tcp_listen s =
    (case tcp_listen (rsListen s) of
       Some e \<Rightarrow> Inl (Wrapped (''failed to listen on '' @ rsListen s) [e])
     | None \<Rightarrow> Inr (ServeContext_start (rsSocks s)))"

text \<open>
  The accept loop with the two other goroutines: \<open>cancelled\<close> is the context, \<open>listening\<close> the listener.
  The process ends when \<open>main\<close> returns or \<open>log.Fatalf\<close> is called, whatever other goroutines do.
\<close>

record service =
  accepting :: serve
  svcPool :: pool
  cancelled :: bool
  listening :: bool

datatype service_exit = ShutdownComplete | ServerError go_error

text \<open>The end of \<open>run\<close>: an error of \<open>Start\<close> is fatal unless the context is done.\<close>

definition run_end :: "go_error option \<Rightarrow> bool \<Rightarrow> service_exit" where
  "run_end err ctxDone =
    (case err of
       Some e \<Rightarrow> if \<not> ctxDone then ServerError e else ShutdownComplete
     | None \<Rightarrow> ShutdownComplete)"

definition exited :: "service \<Rightarrow> service_exit option" where
  "exited s = map_option (\<lambda>e. run_end (Some e) (cancelled s)) (returned (accepting s))"

definition service_start :: "RoutingServer \<Rightarrow> pool \<Rightarrow> service" where
  "service_start sv p = \<lparr>accepting = ServeContext_start (rsSocks sv), svcPool = p, cancelled = False, listening = True\<rparr>"

text \<open>
  A signal arrives; the shutdown goroutine closes the listener, then the pool; \<open>Accept\<close> returns (it
  fails on a closed listener); a handler counts or ends; dials and upkeep change the pool.
\<close>

datatype service_move = SignalArrives | CloseListener | ClosePool | LoopStep accept_result
  | HandlerCounts handler_counter | HandlerEnds | PoolWork pool

definition closed_listener :: accept_error where
  "closed_listener = \<lparr>aerr = NetErrClosed, aTemporary = Some False, aTimeout = Some False\<rparr>"

definition service_move :: "service_move \<Rightarrow> service \<Rightarrow> service" where
  "service_move m s =
    (if exited s \<noteq> None then s
     else case m of
       SignalArrives \<Rightarrow> s\<lparr>cancelled := True\<rparr>
     | CloseListener \<Rightarrow> if cancelled s then s\<lparr>listening := False\<rparr> else s
     | ClosePool \<Rightarrow> if cancelled s \<and> \<not> listening s then s\<lparr>svcPool := server_shutdown (svcPool s)\<rparr> else s
     | LoopStep r \<Rightarrow>
         s\<lparr>accepting := serve_move (Iterate (if cancelled s then Some CtxCanceled else None)
             (if listening s then r else AcceptFailed closed_listener)) (accepting s)\<rparr>
     | HandlerCounts k \<Rightarrow> s\<lparr>accepting := serve_move (Count k) (accepting s)\<rparr>
     | HandlerEnds \<Rightarrow> s\<lparr>accepting := serve_move Finish (accepting s)\<rparr>
     | PoolWork q \<Rightarrow> s\<lparr>svcPool := q\<rparr>)"

definition service_run :: "service_move list \<Rightarrow> service \<Rightarrow> service" where
  "service_run ms s = fold service_move ms s"

text \<open>
  The whole of \<open>main\<close>: the exits before serving, a listener that cannot be opened, or the serving program
  after a history of moves, still serving or at its exit.  The signal handler is a move, and so is
  everything the watcher of the configuration file triggers in the router, which the loop does not read.
\<close>

datatype program_state = NotServing outcome | Ended service_exit | StillServing service

definition program ::
  "world \<Rightarrow> (string \<Rightarrow> go_error option) \<Rightarrow> go_error + CommandLine \<times> store \<Rightarrow> service_move list \<Rightarrow> program_state" where
  "program w tcp_listen parsed ms =
    (case main w parsed of
       Serving sv p h \<Rightarrow>
         (case RoutingServer_Start tcp_listen sv of
            Inl e \<Rightarrow> Ended (run_end (Some e) False)
          | Inr l \<Rightarrow>
              (let s = service_run ms ((service_start sv p)\<lparr>accepting := l\<rparr>)
               in case exited s of Some x \<Rightarrow> Ended x | None \<Rightarrow> StillServing s))
     | oc \<Rightarrow> NotServing oc)"

section \<open>The end of the program\<close>

lemma service_run_simps [simp]:
  "service_run [] s = s" "service_run (m # ms) s = service_run ms (service_move m s)"
  by (simp_all add: service_run_def)

text \<open>Each group after \<open>ClosePool\<close>: no connection pooled, those that were are closed, its context done.\<close>

definition all_closed :: "pool \<Rightarrow> pool \<Rightarrow> bool" where
  "all_closed p q \<longleftrightarrow> list_all2 (\<lambda>(n, g) (n', g'). n' = n \<and> conns g' = [] \<and> groupCtx g' \<noteq> Some False
     \<and> (\<forall>k \<in> set (conns g). \<not> scOpen (sc g' k))) p q"

lemma close_all_ctx: "groupCtx (close_all ks g) = groupCtx g"
  by (induction ks arbitrary: g) (simp_all add: close_sc_def upd_sc_def)

lemma close_group_closes:
  "conns (close_group g) = []" "groupCtx (close_group g) \<noteq> Some False"
  "k \<in> set (conns g) \<Longrightarrow> \<not> scOpen (sc (close_group g) k)"
  by (simp_all add: close_group_def cleanup_def signalCapacityChange_def close_all_scOpen close_all_ctx)

lemma Pool_Close_closes: "all_closed p (server_shutdown p)"
  by (auto simp: all_closed_def server_shutdown_def Pool_Close_def list.rel_map close_group_closes
      intro!: list.rel_refl_strong)

definition gave_up :: "accept_result set \<Rightarrow> go_error \<Rightarrow> bool" where
  "gave_up rs e \<longleftrightarrow> (\<exists>ae. AcceptFailed ae \<in> rs \<and> aerr ae = e \<and> \<not> isTemporaryAcceptError ae)"

definition service_inv :: "accept_result set \<Rightarrow> service \<Rightarrow> bool" where
  "service_inv rs s \<longleftrightarrow> (listening s \<or> cancelled s) \<and> (\<forall>e. exited s = Some (ServerError e) \<longrightarrow> gave_up rs e)"

lemma serve_iteration_returned:
  assumes "returned l = None"
  shows "returned (serve_move (Iterate ce r) l) = (case r of
      Accepted \<Rightarrow> None
    | AcceptFailed e \<Rightarrow> (case ce of Some c \<Rightarrow> Some c | None \<Rightarrow> if isTemporaryAcceptError e then None else Some (aerr e)))"
  using assms
  by (auto simp: serve_move_def serve_iteration_def Let_def split: accept_result.split option.split prod.split)

lemma serve_handler_returned:
  "returned (serve_move (Count k) l) = returned l" "returned (serve_move Finish l) = returned l"
  by (auto simp: serve_move_def split: nat.split)

lemma service_move_inv:
  assumes "service_inv rs s"
  shows "service_inv (case m of LoopStep r \<Rightarrow> insert r rs | _ \<Rightarrow> rs) (service_move m s)"
proof (cases "exited s")
  case (Some x)
  then have "service_move m s = s" by (simp add: service_move_def)
  moreover have "gave_up rs e \<Longrightarrow> gave_up (insert r rs) e" for r e by (auto simp: gave_up_def)
  ultimately show ?thesis using assms by (cases m) (auto simp: service_inv_def)
next
  case None
  then have n: "returned (accepting s) = None" by (simp add: exited_def)
  show ?thesis
  proof (cases m)
    case (LoopStep r)
    show ?thesis
      using assms n
      by (auto simp: LoopStep service_inv_def service_move_def None exited_def serve_iteration_returned
          run_end_def gave_up_def split: accept_result.split)
  qed (use assms n in \<open>auto simp: service_inv_def service_move_def None exited_def serve_handler_returned\<close>)
qed

lemma service_run_inv:
  "service_inv rs s \<Longrightarrow> service_inv (rs \<union> {r. LoopStep r \<in> set ms}) (service_run ms s)"
proof (induction ms arbitrary: rs s)
  case (Cons m ms)
  have e: "(case m of LoopStep r \<Rightarrow> insert r rs | _ \<Rightarrow> rs) \<union> {r. LoopStep r \<in> set ms}
      = rs \<union> {r. LoopStep r \<in> set (m # ms)}"
    by (cases m) auto
  show ?case using Cons.IH [OF service_move_inv [OF Cons.prems, of m]] unfolding e by simp
qed simp

lemma service_start_inv: "service_inv rs (service_start sv p)"
  by (simp add: service_inv_def service_start_def exited_def ServeContext_start_def)

lemma cancelled_stays: "cancelled s \<Longrightarrow> cancelled (service_run ms s)"
proof (induction ms arbitrary: s)
  case (Cons m ms)
  have "cancelled (service_move m s)" using Cons.prems by (cases m) (simp_all add: service_move_def)
  then show ?case using Cons.IH by simp
qed simp

text \<open>
  A program that serves and gets a signal ends well; one whose listener cannot be opened ends with that error.
\<close>

lemma program_signal:
  assumes "program w tcp parsed ms = StillServing s"
  shows "program w tcp parsed (ms @ [SignalArrives, CloseListener, LoopStep r]) = Ended ShutdownComplete"
proof -
  obtain sv p h l where m: "main w parsed = Serving sv p h" "RoutingServer_Start tcp sv = Inr l"
    "exited (service_run ms ((service_start sv p)\<lparr>accepting := l\<rparr>)) = None"
    using assms by (auto simp: program_def Let_def split: outcome.splits sum.splits option.splits)
  then show ?thesis
    by (simp add: program_def service_run_def)
      (simp add: service_move_def exited_def serve_iteration_returned run_end_def)
qed

section \<open>Property\<close>


definition small_server :: RoutingServer where
  "small_server = \<lparr>rsListen = ''l'', rsSocks = NewServer [] None 0, rsRouter = \<lparr>rules = [], defaultName = []\<rparr>\<rparr>"


text \<open>
  Nothing makes \<open>main\<close> wait for that second step: the loop returns as soon as the listener is closed,
  and the process exits with the pool as it was.
\<close>

lemma exit_before_pool_closed:
  assumes "exited s = None"
  shows "exited (service_run [SignalArrives, CloseListener, LoopStep r, ClosePool] s) = Some ShutdownComplete
    \<and> svcPool (service_run [SignalArrives, CloseListener, LoopStep r, ClosePool] s) = svcPool s"
proof -
  have n: "returned (accepting s) = None" using assms by (simp add: exited_def)
  then show ?thesis by (simp add: service_move_def exited_def serve_iteration_returned run_end_def)
qed

end
