(* ===== verification/Experiment.thy ===== *)
theory Experiment
  imports OptionsParse PoolConnect "HOL-Library.Sublist"
begin

text \<open>
  The resume experiment (\<open>cmd/resume-experiment/main.go\<close>): it starts a remote command that prints a
  tick per second, forces the transport of its connection closed once, and reports whether ticks kept
  coming.  The SSH session's answers and the order of events are parameters.
\<close>

section \<open>Setting up\<close>

record experiment_flags =
  configPath :: string
  upstreamName :: string
  waitBeforeDrop :: nanos
  observeFor :: nanos

text \<open>What the calls on the SSH client give: a session, its output pipe, the started command.\<close>

record ssh_answers =
  newSessionErr :: "go_error option"
  stdoutPipeErr :: "go_error option"
  startErr :: "go_error option"

datatype prepared =
    UsageError
  | Fatal go_error
  | Watching nat pool

definition fatal :: "string \<Rightarrow> go_error \<Rightarrow> prepared" where
  "fatal what e = Fatal (Wrapped what [e])"

definition experiment_prepare ::
  "(string \<Rightarrow> store \<Rightarrow> (go_error + Config) \<times> store) \<Rightarrow> (string \<Rightarrow> attempts) \<Rightarrow> string list
     \<Rightarrow> ssh_answers \<Rightarrow> experiment_flags \<Rightarrow> store \<Rightarrow> prepared" where
  "experiment_prepare load att order ssh fl h =
    (if configPath fl = [] \<or> upstreamName fl = [] then UsageError
     else case load (configPath fl) h of
       (Inl e, h1) \<Rightarrow> fatal ''load config: '' e
     | (Inr cfg, h1) \<Rightarrow>
         (case Pool_Connect att order (NewPool cfg h1) of
            (Some e, p) \<Rightarrow> fatal ''connect upstreams: '' e
          | (None, p) \<Rightarrow>
              (case ExperimentSSHSession (upstreamName fl) p of
                 Inl e \<Rightarrow> fatal ''experiment session: '' e
               | Inr k \<Rightarrow>
                   (case newSessionErr ssh of
                      Some e \<Rightarrow> fatal ''new ssh session: '' e
                    | None \<Rightarrow>
                        (case stdoutPipeErr ssh of
                           Some e \<Rightarrow> fatal ''stdout pipe: '' e
                         | None \<Rightarrow>
                             (case startErr ssh of
                                Some e \<Rightarrow> fatal ''start command: '' e
                              | None \<Rightarrow> Watching k p))))))"

section \<open>The event loop\<close>

record watch_state =
  lastTick :: string
  ticksAfterDrop :: nat
  dropDone :: bool

definition experiment_start :: watch_state where
  "experiment_start = \<lparr>lastTick = [], ticksAfterDrop = 0, dropDone = False\<rparr>"

text \<open>
  A tick is read, the stream ends, nothing happens for 200 ms, or the goroutine started at the drop has
  slept its time; each at a time since the start.
\<close>

datatype happening = Tick string | StreamEnd go_error | Quiet | ObserverWakes

datatype verdict = PASS nat | FAIL nat

definition verdict_of :: "bool \<Rightarrow> watch_state \<Rightarrow> verdict" where
  "verdict_of ok x = (if ok then PASS (ticksAfterDrop x) else FAIL (ticksAfterDrop x))"

definition experiment_select :: "experiment_flags \<Rightarrow> nanos \<Rightarrow> happening \<Rightarrow> watch_state \<Rightarrow> verdict + watch_state" where
  "experiment_select fl since ev x =
    (case ev of
       Tick line \<Rightarrow>
         Inr (x\<lparr>lastTick := line, ticksAfterDrop := (if dropDone x then Suc (ticksAfterDrop x) else ticksAfterDrop x)\<rparr>)
     | StreamEnd e \<Rightarrow> Inl (verdict_of False x)
     | Quiet \<Rightarrow>
         if \<not> dropDone x \<and> waitBeforeDrop fl \<le> since then Inr (x\<lparr>dropDone := True\<rparr>) else Inr x
     | ObserverWakes \<Rightarrow> if dropDone x then Inl (verdict_of (0 < ticksAfterDrop x) x) else Inr x)"

definition experiment_step :: "experiment_flags \<Rightarrow> nanos \<Rightarrow> happening \<Rightarrow> watch_state \<Rightarrow> verdict + watch_state" where
  "experiment_step fl since ev x =
    (case experiment_select fl since ev x of
       Inl v \<Rightarrow> Inl v
     | Inr y \<Rightarrow>
         if dropDone y \<and> waitBeforeDrop fl + observeFor fl + seconds 2 < since
         then Inl (verdict_of (0 < ticksAfterDrop y \<and> prefix ''tick-'' (lastTick y)) y)
         else Inr y)"

fun experiment_run :: "experiment_flags \<Rightarrow> (nanos \<times> happening) list \<Rightarrow> watch_state \<Rightarrow> verdict + watch_state" where
  "experiment_run fl [] x = Inr x"
| "experiment_run fl ((since, ev) # evs) x =
    (case experiment_step fl since ev x of Inl v \<Rightarrow> Inl v | Inr y \<Rightarrow> experiment_run fl evs y)"

section \<open>What a verdict means\<close>

definition ticks_in :: "(nanos \<times> happening) list \<Rightarrow> nat" where
  "ticks_in evs = length (filter (\<lambda>(t, ev). case ev of Tick l \<Rightarrow> True | _ \<Rightarrow> False) evs)"

text \<open>From a state after the drop, a verdict counts the ticks read since.\<close>

lemma verdict_after_drop:
  "experiment_run fl evs x = Inl v \<Longrightarrow> dropDone x \<Longrightarrow>
   \<exists>n \<le> ticks_in evs. v = PASS (ticksAfterDrop x + n) \<or> v = FAIL (ticksAfterDrop x + n)"
proof (induction evs arbitrary: x)
  case (Cons e evs)
  obtain t ev where e: "e = (t, ev)" by (cases e)
  show ?case
  proof (cases "experiment_step fl t ev x")
    case (Inl w)
    then have "v = w" using Cons.prems by (simp add: e)
    then show ?thesis using Inl Cons.prems(2)
      by (cases ev) (auto simp: e experiment_step_def experiment_select_def verdict_of_def ticks_in_def split: if_splits)
  next
    case (Inr y)
    have y: "dropDone y" "ticksAfterDrop y = ticksAfterDrop x + (case ev of Tick l \<Rightarrow> 1 | _ \<Rightarrow> 0)"
      using Inr Cons.prems(2)
      by (cases ev; auto simp: experiment_step_def experiment_select_def split: if_splits)+
    have "experiment_run fl evs y = Inl v" using Cons.prems(1) Inr by (simp add: e)
    from Cons.IH [OF this y(1)] obtain n where "n \<le> ticks_in evs"
      "v = PASS (ticksAfterDrop y + n) \<or> v = FAIL (ticksAfterDrop y + n)" by blast
    then show ?thesis unfolding y(2)
      by (cases ev) (auto simp: e ticks_in_def intro: exI [of _ "Suc n"])
  qed
qed simp

lemma pass_positive: "experiment_step fl t ev x = Inl (PASS n) \<Longrightarrow> 0 < n"
  by (cases ev) (auto simp: experiment_step_def experiment_select_def verdict_of_def split: if_splits)

lemma run_pass_positive: "experiment_run fl evs x = Inl (PASS n) \<Longrightarrow> 0 < n"
  by (induction evs arbitrary: x) (auto split: sum.splits dest: pass_positive)

text \<open>
  A passing verdict is earned: the transport was forced closed, not before the time asked for, and at
  least as many ticks as it reports were read after that.
\<close>

lemma pass_means_resumed:
  "experiment_run fl evs x = Inl (PASS n) \<Longrightarrow> \<not> dropDone x \<Longrightarrow> ticksAfterDrop x = 0 \<Longrightarrow>
   0 < n \<and> (\<exists>b t a. evs = b @ (t, Quiet) # a \<and> waitBeforeDrop fl \<le> t \<and> n \<le> ticks_in a)"
proof (induction evs arbitrary: x)
  case (Cons e evs)
  obtain t ev where e: "e = (t, ev)" by (cases e)
  show ?case
  proof (cases "experiment_step fl t ev x")
    case (Inl v)
    then have v: "v = PASS n" using Cons.prems(1) by (simp add: e)
    then show ?thesis using Inl Cons.prems(2,3)
      by (cases ev) (auto simp: experiment_step_def experiment_select_def verdict_of_def split: if_splits)
  next
    case (Inr y)
    have run: "experiment_run fl evs y = Inl (PASS n)" using Cons.prems(1) Inr by (simp add: e)
    show ?thesis
    proof (cases "dropDone y")
      case True
      then have q: "ev = Quiet" "waitBeforeDrop fl \<le> t" "ticksAfterDrop y = 0"
        using Inr Cons.prems(2,3)
        by (cases ev; auto simp: experiment_step_def experiment_select_def split: if_splits)+
      have "n \<le> ticks_in evs" using verdict_after_drop [OF run True] q(3) by auto
      then show ?thesis using q e run_pass_positive [OF run] by (intro conjI exI [of _ "[]"]) auto
    next
      case False
      then have "ticksAfterDrop y = 0"
        using Inr Cons.prems(2,3)
        by (cases ev) (auto simp: experiment_step_def experiment_select_def split: if_splits)
      from Cons.IH [OF run False this] obtain b s a where "0 < n" "evs = b @ (s, Quiet) # a"
        "waitBeforeDrop fl \<le> s" "n \<le> ticks_in a" by blast
      then show ?thesis by (intro conjI exI [of _ "e # b"]) auto
    qed
  qed
qed simp

text \<open>And the experiment ends: a round late enough after the drop, or the observer, gives a verdict.\<close>

lemma experiment_ends:
  assumes "experiment_run fl evs x = Inr y" and "dropDone x"
  shows "\<forall>(t, ev) \<in> set evs. ev \<noteq> ObserverWakes \<and> t \<le> waitBeforeDrop fl + observeFor fl + seconds 2"
  using assms
proof (induction evs arbitrary: x)
  case (Cons e evs)
  obtain t ev where e: "e = (t, ev)" by (cases e)
  obtain z where z: "experiment_step fl t ev x = Inr z" "experiment_run fl evs z = Inr y"
    using Cons.prems(1) by (auto simp: e split: sum.splits)
  have "dropDone z \<and> ev \<noteq> ObserverWakes \<and> t \<le> waitBeforeDrop fl + observeFor fl + seconds 2"
    using z(1) Cons.prems(2)
    by (cases ev) (auto simp: experiment_step_def experiment_select_def split: if_splits)
  then show ?case using Cons.IH [OF z(2)] by (simp add: e)
qed simp

end
