(* ===== verification/PoolDial.thy ===== *)
theory PoolDial
  imports PoolConnect
begin

text \<open>
  The upstream pool (\<open>internal/upstream/pool.go\<close>), part three: the threads of one group.  A dial is a
  pair of goroutines (the caller of \<open>Group.dial\<close> and the worker that opens the SSH channel), with the
  flags they share; scale-up and replenish attempts, the maintenance loop and the probe of a forced
  reconnect are the group's background goroutines.  Each has a phase, its program counter, and a move
  of the system is one atomic action of one of them: an atomic load or add, or a critical section.
  What a selection reads of several connections is taken as one action, and so are neighbouring actions
  on counters that only the statistics read.
\<close>

section \<open>A dial\<close>

datatype context_state = Live | DeadlineExceeded | CanceledCtx

definition ctx_err :: "context_state \<Rightarrow> go_error" where
  "ctx_err c = (if c = DeadlineExceeded then CtxDeadlineExceeded else CtxCanceled)"

text \<open>The result of the channel open: a connection, or an error with its text.\<close>

type_synonym dial_result = "(go_error \<times> string) option"

text \<open>
  The caller: the loop that reserves a slot (\<open>CLoop\<close> to \<open>CWait\<close>; the number is the wait channel it
  fetched), the dial itself (\<open>CReserved\<close> to \<open>COutcome\<close>), and then its result: a tracked connection,
  open, being closed or closed, or an error.
\<close>

datatype caller_phase =
    CLoop
  | CSelect nat
  | CAdd
  | CCheck int
  | CUndone
  | CNoConn nat
  | CScale nat
  | CRecheck nat
  | CRecheckSize nat
  | CWait nat
  | CReserved
  | CNilClient
  | CRunning
  | CCtxDone
  | CReceived dial_result
  | CReleased dial_result
  | COutcome dial_result
  | CConn
  | CClosing
  | CClosed
  | CFailed go_error

text \<open>The worker; the flag of \<open>WLate\<close> says that the abandoned dial is still counted as pending.\<close>

datatype worker_phase =
    WNone
  | WDialing
  | WReturned dial_result
  | WOffering dial_result
  | WLate dial_result bool
  | WRelease
  | WSignal
  | WDone

record dial =
  caller :: caller_phase
  worker :: worker_phase
  dconn :: nat
  dctx :: context_state
  abandoned :: bool
  cleanupDone :: bool
  waitLogged :: bool

definition new_dial :: dial where
  "new_dial = \<lparr>caller = CLoop, worker = WNone, dconn = 0, dctx = Live, abandoned = False,
     cleanupDone = False, waitLogged = False\<rparr>"

definition add_inflight :: "int \<Rightarrow> nat \<Rightarrow> Group \<Rightarrow> Group" where
  "add_inflight n k g = upd_sc k (\<lambda>c. c\<lparr>inflightDials := inflightDials c + n\<rparr>) g"

definition add_active :: "int \<Rightarrow> nat \<Rightarrow> Group \<Rightarrow> Group" where
  "add_active n k g = upd_sc k (\<lambda>c. c\<lparr>activeChannels := activeChannels c + n\<rparr>) g"

text \<open>
  What an action of the caller gives: the dial, the group, the number of scale-up attempts it started
  and the connection whose health probe it started.
\<close>

type_synonym caller_effect = "dial \<times> Group \<times> nat \<times> nat option"

definition quiet :: "dial \<Rightarrow> Group \<Rightarrow> caller_effect" where
  "quiet d g = (d, g, 0, None)"

definition fail_dial :: "string \<Rightarrow> go_error \<Rightarrow> dial \<Rightarrow> dial" where
  "fail_dial msg e d = d\<lparr>caller := CFailed (Wrapped msg [e])\<rparr>"

definition not_connected :: "dial \<Rightarrow> dial" where
  "not_connected d = d\<lparr>caller := CFailed (OtherError ''not connected'')\<rparr>"

text \<open>The loop that reserves a slot; \<open>pick\<close> chooses between two ready cases of the select.\<close>

fun reserve_step :: "nanos \<Rightarrow> bool \<Rightarrow> caller_phase \<Rightarrow> dial \<Rightarrow> Group \<Rightarrow> caller_effect" where
  "reserve_step now pick CLoop d g =
    (let (c, g1) = waitChannel g in quiet (d\<lparr>caller := CSelect c\<rparr>) g1)"
| "reserve_step now pick (CSelect c) d g =
    (case selectConnWithCapacity g of
       (Some k, g1) \<Rightarrow> quiet (d\<lparr>caller := CAdd, dconn := k\<rparr>) g1
     | (None, g1) \<Rightarrow> quiet (d\<lparr>caller := CNoConn c\<rparr>) g1)"
| "reserve_step now pick CAdd d g =
    (let g1 = add_inflight 1 (dconn d) g
     in quiet (d\<lparr>caller := CCheck (inflightDials (sc g1 (dconn d)))\<rparr>) g1)"
| "reserve_step now pick (CCheck inflight) d g =
    (if activeChannels (sc g (dconn d)) + inflight > maxChannelsPerConn
     then quiet (d\<lparr>caller := CUndone\<rparr>) (add_inflight (-1) (dconn d) g)
     else quiet (d\<lparr>caller := CReserved\<rparr>) g)"
| "reserve_step now pick CUndone d g = quiet (d\<lparr>caller := CLoop\<rparr>) (signalCapacityChange g)"
| "reserve_step now pick (CNoConn c) d g =
    (if conns g = [] then quiet (not_connected d) g
     else quiet (d\<lparr>caller := CScale c, waitLogged := True\<rparr>)
       (if waitLogged d then g else upd_counters (\<lambda>t. t\<lparr>DialWaits := DialWaits t + 1\<rparr>) g))"
| "reserve_step now pick (CScale c) d g =
    (let (n, g1) = startScaleIfNeeded g; (why, g2) = logCapacityStarvation now g1
     in (d\<lparr>caller := CRecheck c\<rparr>, g2, n, None))"
| "reserve_step now pick (CRecheck c) d g =
    (case selectConnWithCapacity g of
       (Some k, g1) \<Rightarrow> quiet (d\<lparr>caller := CLoop\<rparr>) g1
     | (None, g1) \<Rightarrow> quiet (d\<lparr>caller := CRecheckSize c\<rparr>) g1)"
| "reserve_step now pick (CRecheckSize c) d g =
    quiet (if conns g = [] then not_connected d else d\<lparr>caller := CWait c\<rparr>) g"
| "reserve_step now pick (CWait c) d g =
    (if dctx d \<noteq> Live \<and> (pick \<or> \<not> signalled c g)
     then quiet (fail_dial ''dial wait for capacity'' (ctx_err (dctx d)) d) g
     else if signalled c g then quiet (d\<lparr>caller := CLoop\<rparr>) g
     else quiet d g)"
| "reserve_step now pick p d g = quiet d g"

text \<open>The caller once the slot is reserved.\<close>

fun dial_step :: "nanos \<Rightarrow> caller_phase \<Rightarrow> dial \<Rightarrow> Group \<Rightarrow> caller_effect" where
  "dial_step now CReserved d g =
    (let (n, g1) = maybeScaleForHeadroom (upd_counters (\<lambda>t. t\<lparr>DialAttempts := DialAttempts t + 1\<rparr>) g)
     in if \<not> hasClient (sc g1 (dconn d))
        then (d\<lparr>caller := CNilClient\<rparr>, add_inflight (-1) (dconn d) g1, n, None)
        else (d\<lparr>caller := CRunning, worker := WDialing\<rparr>, g1, n, None))"
| "dial_step now CNilClient d g = quiet (not_connected d) (signalCapacityChange g)"
| "dial_step now CRunning d g =
    (if dctx d = Live then quiet d g
     else if cleanupDone d then quiet (d\<lparr>caller := CCtxDone\<rparr>) g
     else quiet (d\<lparr>caller := CCtxDone, abandoned := True\<rparr>)
            (g\<lparr>pendingAbandonedDials := pendingAbandonedDials g + 1\<rparr>))"
| "dial_step now CCtxDone d g =
    (if dctx d = DeadlineExceeded then
       let (count, g1) = recordDialTimeout now (dconn d)
             (upd_counters (\<lambda>t. t\<lparr>DialTimeouts := DialTimeouts t + 1\<rparr>) g);
           (probe, g2) = (if count \<ge> dialTimeoutsBeforeReconnect then maybeForceReconnect now (dconn d) g1
                          else (False, g1))
       in (fail_dial ''dial timeout'' CtxDeadlineExceeded d, g2, 0, if probe then Some (dconn d) else None)
     else quiet (fail_dial ''dial canceled'' CtxCanceled d)
            (upd_counters (\<lambda>t. t\<lparr>DialCancels := DialCancels t + 1\<rparr>) g))"
| "dial_step now (CReceived r) d g = quiet (d\<lparr>caller := CReleased r\<rparr>) (add_inflight (-1) (dconn d) g)"
| "dial_step now (CReleased r) d g = quiet (d\<lparr>caller := COutcome r\<rparr>) (signalCapacityChange g)"
| "dial_step now (COutcome (Some (e, msg))) d g =
    (let g1 = upd_counters (\<lambda>t. t\<lparr>DialFailures := DialFailures t + 1\<rparr>) g
     in quiet (fail_dial ''dial failed'' e d)
          (if isTransportError e msg then removeConn (dconn d) g1 else g1))"
| "dial_step now (COutcome None) d g =
    quiet (d\<lparr>caller := CConn\<rparr>)
      (upd_counters (\<lambda>t. t\<lparr>DialSuccesses := DialSuccesses t + 1\<rparr>) (add_active 1 (dconn d) g))"
| "dial_step now CClosing d g = quiet (d\<lparr>caller := CClosed\<rparr>) (signalCapacityChange g)"
| "dial_step now p d g = quiet d g"

definition reserving :: "caller_phase \<Rightarrow> bool" where
  "reserving p \<longleftrightarrow> (case p of
     CLoop \<Rightarrow> True | CSelect c \<Rightarrow> True | CAdd \<Rightarrow> True | CCheck n \<Rightarrow> True | CUndone \<Rightarrow> True | CNoConn c \<Rightarrow> True
   | CScale c \<Rightarrow> True | CRecheck c \<Rightarrow> True | CRecheckSize c \<Rightarrow> True | CWait c \<Rightarrow> True | _ \<Rightarrow> False)"

definition caller_step :: "nanos \<Rightarrow> bool \<Rightarrow> dial \<Rightarrow> Group \<Rightarrow> caller_effect" where
  "caller_step now pick d g =
    (if reserving (caller d) then reserve_step now pick (caller d) d g else dial_step now (caller d) d g)"

text \<open>The worker; \<open>r\<close> is what the channel open returns, when that is its action.\<close>

fun worker_act :: "dial_result \<Rightarrow> worker_phase \<Rightarrow> dial \<Rightarrow> Group \<Rightarrow> dial \<times> Group" where
  "worker_act r WDialing d g = (d\<lparr>worker := WReturned r\<rparr>, g)"
| "worker_act r (WReturned res) d g =
    (if abandoned d then (d\<lparr>worker := WLate res True\<rparr>, g) else (d\<lparr>worker := WOffering res\<rparr>, g))"
| "worker_act r (WOffering res) d g =
    (if dctx d \<noteq> Live then (d\<lparr>worker := WLate res (abandoned d), cleanupDone := True\<rparr>, g) else (d, g))"
| "worker_act r (WLate res timedOut) d g =
    (let g1 = upd_counters (if res = None then (\<lambda>t. t\<lparr>LateDialSuccesses := LateDialSuccesses t + 1\<rparr>)
                            else (\<lambda>t. t\<lparr>LateDialFailures := LateDialFailures t + 1\<rparr>)) g
     in (d\<lparr>worker := WRelease\<rparr>,
         if timedOut then g1\<lparr>pendingAbandonedDials := pendingAbandonedDials g1 - 1\<rparr> else g1))"
| "worker_act r WRelease d g = (d\<lparr>worker := WSignal\<rparr>, add_inflight (-1) (dconn d) g)"
| "worker_act r WSignal d g = (d\<lparr>worker := WDone\<rparr>, signalCapacityChange g)"
| "worker_act r p d g = (d, g)"

definition worker_step :: "dial_result \<Rightarrow> dial \<Rightarrow> Group \<Rightarrow> dial \<times> Group" where
  "worker_step r d g = worker_act r (worker d) d g"

text \<open>The unbuffered channel: worker and caller meet.\<close>

definition rendezvous :: "dial \<Rightarrow> dial" where
  "rendezvous d =
    (case (caller d, worker d) of
       (CRunning, WOffering r) \<Rightarrow> d\<lparr>caller := CReceived r, worker := WDone\<rparr>
     | _ \<Rightarrow> d)"

text \<open>\<open>trackedConn.Close\<close>: only the first call counts.\<close>

definition tracked_Close :: "dial \<Rightarrow> Group \<Rightarrow> dial \<times> Group" where
  "tracked_Close d g =
    (if caller d = CConn then (d\<lparr>caller := CClosing\<rparr>, add_active (-1) (dconn d) g) else (d, g))"

definition end_ctx :: "context_state \<Rightarrow> dial \<Rightarrow> dial" where
  "end_ctx c d = (if dctx d = Live then d\<lparr>dctx := c\<rparr> else d)"

section \<open>Background goroutines\<close>

datatype attempt_kind = ScaleUp | Replenish

datatype attempt_phase = AConnecting | AConnected nat | AAppended | AFinishing | ADone

record conn_attempt =
  kind :: attempt_kind
  ainstance :: string
  aphase :: attempt_phase

text \<open>
  The goroutines of \<open>startScale\<close> and \<open>replenishOnce\<close>: \<open>ok\<close> is the outcome of \<open>connectSingle\<close>.
\<close>

definition attempt_step :: "bool \<Rightarrow> nanos \<Rightarrow> (int \<Rightarrow> nanos) \<Rightarrow> conn_attempt \<Rightarrow> Group \<Rightarrow> conn_attempt \<times> Group" where
  "attempt_step ok now delay a g =
    (case aphase a of
       AConnecting \<Rightarrow>
         if ok then (let (k, g1) = conn_created g in (a\<lparr>aphase := AConnected k\<rparr>, g1))
         else (a\<lparr>aphase := AFinishing\<rparr>, if kind a = Replenish then replenish_failed now delay g else g)
     | AConnected k \<Rightarrow> (a\<lparr>aphase := AAppended\<rparr>, append_conn k g)
     | AAppended \<Rightarrow>
         (a\<lparr>aphase := AFinishing\<rparr>,
          if kind a = Replenish then recordReplenishSuccess (announce_conn g) else announce_conn g)
     | AFinishing \<Rightarrow> (a\<lparr>aphase := ADone\<rparr>, if kind a = ScaleUp then scale_finished g else finishReplenish g)
     | ADone \<Rightarrow> (a, g))"

text \<open>The goroutine of \<open>maybeForceReconnect\<close>; \<open>dead\<close> is a failed probe without recent inbound traffic.\<close>

datatype probe_phase = PNone | PProbing nat | PRestored | PFinishing

definition probe_step :: "bool \<Rightarrow> probe_phase \<Rightarrow> Group \<Rightarrow> probe_phase \<times> Group" where
  "probe_step dead p g =
    (case p of
       PNone \<Rightarrow> (PNone, g)
     | PProbing k \<Rightarrow>
         if dead then (PFinishing, removeConn k g)
         else (PRestored, upd_sc k (\<lambda>c. c\<lparr>draining := False, dialTimeoutCount := 0,
                 lastDialTimeout := 0, keepaliveFailures := 0\<rparr>) g)
     | PRestored \<Rightarrow> (PFinishing, signalCapacityChange g)
     | PFinishing \<Rightarrow> (PNone, g\<lparr>forcedReconnectInProgress := False\<rparr>))"

text \<open>
  The maintenance loop.  A tick at \<open>now\<close> goes through the wake probes (if the system slept), the sweep
  and the replenishment with the number of connections the sweep left.
\<close>

datatype maintain_phase =
    MIdle
  | MProbing nanos
  | MRemoved nanos "nat list"
  | MSweep nanos
  | MSwept nanos bool nat
  | MCounted nanos nat
  | MExited

record maintain_input =
  mnow :: nanos
  mfailed :: "nat set"
  mdead :: "nat list"

text \<open>The phase, the group, and the number of replenish attempts started.\<close>

definition maintain_step :: "maintain_input \<Rightarrow> maintain_phase \<Rightarrow> Group \<Rightarrow> maintain_phase \<times> Group \<times> nat" where
  "maintain_step i p g =
    (case p of
       MIdle \<Rightarrow>
         if wake_detected (mnow i) g then (MProbing (mnow i), resetReplenishBackoff g, 0)
         else (MSweep (mnow i), g, 0)
     | MProbing now \<Rightarrow>
         if mfailed i = {} then (MSweep now, g, 0)
         else (let (toClose, g1) = remove_failed (mfailed i) g in (MRemoved now toClose, g1, 0))
     | MRemoved now toClose \<Rightarrow> (MSweep now, close_all toClose (announce_conn g), 0)
     | MSweep now \<Rightarrow>
         (let (removedAny, n, g1) = sweep_dead (\<lambda>k. k \<in> set (mdead i)) (g\<lparr>lastMaintainTime := Some now\<rparr>)
          in (MSwept now removedAny n, g1, 0))
     | MSwept now removedAny n \<Rightarrow> (MCounted now n, if removedAny then signalCapacityChange g else g, 0)
     | MCounted now n \<Rightarrow> (let (needed, g1) = maintain_replenish now n g in (MIdle, g1, needed))
     | MExited \<Rightarrow> (MExited, g, 0))"

text \<open>A tick that nothing interrupts does what \<open>maintainOnce\<close> does.\<close>

fun maintain_finish :: "nat \<Rightarrow> maintain_input \<Rightarrow> maintain_phase \<Rightarrow> Group \<Rightarrow> nat \<times> Group" where
  "maintain_finish 0 i p g = (0, g)"
| "maintain_finish (Suc f) i p g =
    (case maintain_step i p g of (p1, g1, n) \<Rightarrow> if p1 = MIdle then (n, g1) else maintain_finish f i p1 g1)"

lemma maintain_finish_sweep:
  "maintain_finish (Suc (Suc (Suc f))) i (MSweep now) g =
    (let (removedAny, n, g2) = sweep_dead (\<lambda>k. k \<in> set (mdead i)) (g\<lparr>lastMaintainTime := Some now\<rparr>)
     in maintain_replenish now n (if removedAny then signalCapacityChange g2 else g2))"
  by (simp add: maintain_step_def split: prod.splits)

lemma maintain_uninterrupted:
  "maintain_finish 6 i MIdle g = maintainOnce (mnow i) (mfailed i) (\<lambda>k. k \<in> set (mdead i)) g"
proof -
  have idle: "maintain_finish (Suc f) i MIdle g =
      (if wake_detected (mnow i) g then maintain_finish f i (MProbing (mnow i)) (resetReplenishBackoff g)
       else maintain_finish f i (MSweep (mnow i)) g)" for f
    by (simp add: maintain_step_def)
  have probing: "maintain_finish (Suc (Suc f)) i (MProbing (mnow i)) h =
      (if mfailed i = {} then maintain_finish (Suc f) i (MSweep (mnow i)) h
       else let (toClose, h1) = remove_failed (mfailed i) h
            in maintain_finish f i (MSweep (mnow i)) (close_all toClose (announce_conn h1)))" for f h
    by (simp add: maintain_step_def split: prod.splits)
  have six: "(6 :: nat) = Suc (Suc (Suc (Suc (Suc (Suc 0)))))" by simp
  show ?thesis
    unfolding six idle probing maintain_finish_sweep
    by (simp add: maintainOnce_def wake_cleanup_def Let_def split: prod.splits)
qed

section \<open>The system\<close>

text \<open>\<open>wakes\<close> counts the ticks that detected a wake-up; it is not in the code.\<close>

record psys =
  grp :: Group
  dials :: "dial list"
  attempts :: "conn_attempt list"
  probe :: probe_phase
  maint :: maintain_phase
  wakes :: nat

datatype pmove =
    NewDial
  | EndCtx nat context_state
  | CallerMove nat nanos bool
  | WorkerMove nat dial_result
  | Rendezvous nat
  | CloseConn nat
  | AttemptMove nat bool nanos "int \<Rightarrow> nanos"
  | ProbeMove bool
  | Maintain maintain_input
  | MaintainExit
  | KeepaliveMove nat tick
  | CloseGroup

definition spawn_attempts :: "nat \<Rightarrow> attempt_kind \<Rightarrow> string \<Rightarrow> psys \<Rightarrow> psys" where
  "spawn_attempts n k inst s =
     s\<lparr>attempts := attempts s @ replicate n \<lparr>kind = k, ainstance = inst, aphase = AConnecting\<rparr>\<rparr>"

definition put_dial :: "nat \<Rightarrow> dial \<Rightarrow> Group \<Rightarrow> psys \<Rightarrow> psys" where
  "put_dial i d g s = s\<lparr>dials := (dials s)[i := d], grp := g\<rparr>"

fun pool_move :: "pmove \<Rightarrow> psys \<Rightarrow> psys" where
  "pool_move NewDial s = s\<lparr>dials := dials s @ [new_dial]\<rparr>"
| "pool_move (EndCtx i c) s =
    (if i < length (dials s) then put_dial i (end_ctx c (dials s ! i)) (grp s) s else s)"
| "pool_move (CallerMove i now pick) s =
    (if i < length (dials s) then
       (case caller_step now pick (dials s ! i) (grp s) of
          (d, g, n, p) \<Rightarrow>
            let s1 = spawn_attempts n ScaleUp (currentInstance g) (put_dial i d g s)
            in (case p of None \<Rightarrow> s1 | Some k \<Rightarrow> s1\<lparr>probe := PProbing k\<rparr>))
     else s)"
| "pool_move (WorkerMove i r) s =
    (if i < length (dials s) then
       (case worker_step r (dials s ! i) (grp s) of (d, g) \<Rightarrow> put_dial i d g s)
     else s)"
| "pool_move (Rendezvous i) s =
    (if i < length (dials s) then put_dial i (rendezvous (dials s ! i)) (grp s) s else s)"
| "pool_move (CloseConn i) s =
    (if i < length (dials s) then
       (case tracked_Close (dials s ! i) (grp s) of (d, g) \<Rightarrow> put_dial i d g s)
     else s)"
| "pool_move (AttemptMove i ok now delay) s =
    (if i < length (attempts s) then
       (case attempt_step ok now delay (attempts s ! i) (grp s) of
          (a, g) \<Rightarrow> s\<lparr>attempts := (attempts s)[i := a], grp := g\<rparr>)
     else s)"
| "pool_move (ProbeMove dead) s =
    (case probe_step dead (probe s) (grp s) of (p, g) \<Rightarrow> s\<lparr>probe := p, grp := g\<rparr>)"
| "pool_move (Maintain i) s =
    (case maintain_step i (maint s) (grp s) of
       (p, g, n) \<Rightarrow> spawn_attempts n Replenish (currentInstance g)
         (s\<lparr>maint := p, grp := g, wakes := (case p of MProbing t \<Rightarrow> Suc (wakes s) | _ \<Rightarrow> wakes s)\<rparr>))"
| "pool_move MaintainExit s =
    (if maint s = MIdle \<and> groupCtx (grp s) = Some True then s\<lparr>maint := MExited\<rparr> else s)"
| "pool_move (KeepaliveMove k t) s = s\<lparr>grp := upd_sc k (\<lambda>c. snd (keepalive_tick t c)) (grp s)\<rparr>"
| "pool_move CloseGroup s = s\<lparr>grp := close_group (grp s)\<rparr>"

definition pool_run :: "pmove list \<Rightarrow> psys \<Rightarrow> psys" where
  "pool_run ms s = foldl (\<lambda>s m. pool_move m s) s ms"

text \<open>The group after \<open>Pool.Connect\<close>, which made the connections that did not fail.\<close>

definition connected :: "string \<Rightarrow> Upstream \<Rightarrow> nanos \<Rightarrow> attempts \<Rightarrow> Group" where
  "connected name up threshold att =
     (snd (connect_group att (NewGroup name up threshold)))\<lparr>groupCtx := Some False\<rparr>"

definition pool_start :: "Group \<Rightarrow> psys" where
  "pool_start g = \<lparr>grp = g, dials = [], attempts = [], probe = PNone, maint = MIdle, wakes = 0\<rparr>"

end
