(* ===== verification/PoolSelect.thy ===== *)
theory PoolSelect
  imports PoolDial
begin

text \<open>
  The choice of a connection: the one-pass loop of \<open>selectConnWithCapacity\<close> computes what a filter for the
  least loaded connections says.
\<close>

section \<open>The loop and the filter\<close>

text \<open>Loads are compared by open channels, then by dials in flight.\<close>

definition load_le :: "sshConn \<Rightarrow> sshConn \<Rightarrow> bool" where
  "load_le c e \<longleftrightarrow> activeChannels c < activeChannels e
     \<or> (activeChannels c = activeChannels e \<and> inflightDials c \<le> inflightDials e)"

definition below :: "int \<Rightarrow> int \<Rightarrow> sshConn \<Rightarrow> bool" where
  "below a i c \<longleftrightarrow> activeChannels c < a \<or> (activeChannels c = a \<and> inflightDials c < i)"

lemma not_below: "\<not> below (activeChannels c) (inflightDials c) e \<longleftrightarrow> load_le c e"
  unfolding below_def load_le_def by linarith

lemma below_trans: "\<lbrakk>below a i c; below (activeChannels c) (inflightDials c) e\<rbrakk> \<Longrightarrow> below a i e"
  unfolding below_def by linarith

lemma load_refl [simp]: "load_le c c"
  by (simp add: load_le_def)

lemma load_antisym: "load_le c e \<Longrightarrow> load_le e c \<longleftrightarrow> activeChannels e = activeChannels c \<and> inflightDials e = inflightDials c"
  unfolding load_le_def by linarith

text \<open>The connections not skipped that carry the least load, in the order of the pool.\<close>

definition least :: "(nat \<Rightarrow> sshConn) \<Rightarrow> (sshConn \<Rightarrow> bool) \<Rightarrow> nat list \<Rightarrow> nat list" where
  "least m skip ks = filter (\<lambda>k. \<not> skip (m k) \<and> (\<forall>j \<in> set ks. skip (m j) \<or> load_le (m k) (m j))) ks"

definition equal_load :: "(nat \<Rightarrow> sshConn) \<Rightarrow> (sshConn \<Rightarrow> bool) \<Rightarrow> int \<Rightarrow> int \<Rightarrow> nat list \<Rightarrow> nat list" where
  "equal_load m skip a i ks = filter (\<lambda>k. \<not> skip (m k) \<and> activeChannels (m k) = a \<and> inflightDials (m k) = i) ks"

definition nothing_below :: "(nat \<Rightarrow> sshConn) \<Rightarrow> (sshConn \<Rightarrow> bool) \<Rightarrow> int \<Rightarrow> int \<Rightarrow> nat list \<Rightarrow> bool" where
  "nothing_below m skip a i ks \<longleftrightarrow> (\<forall>j \<in> set ks. skip (m j) \<or> \<not> below a i (m j))"

lemma least_skip: "skip (m x) \<Longrightarrow> least m skip (x # ks) = least m skip ks"
  by (auto simp: least_def intro!: filter_cong)

text \<open>A connection that is itself least, and one that is not.\<close>

lemma least_first:
  assumes "\<not> skip (m x)" "nothing_below m skip (activeChannels (m x)) (inflightDials (m x)) ks"
  shows "least m skip (x # ks) = x # equal_load m skip (activeChannels (m x)) (inflightDials (m x)) ks"
proof -
  have min: "\<forall>j \<in> set ks. skip (m j) \<or> load_le (m x) (m j)"
    using assms(2) by (simp add: nothing_below_def not_below)
  have "(\<forall>j \<in> set (x # ks). skip (m j) \<or> load_le (m k) (m j))
      \<longleftrightarrow> activeChannels (m k) = activeChannels (m x) \<and> inflightDials (m k) = inflightDials (m x)"
    if "k \<in> set ks" "\<not> skip (m k)" for k
  proof
    assume "\<forall>j \<in> set (x # ks). skip (m j) \<or> load_le (m k) (m j)"
    then have "load_le (m k) (m x)" using assms(1) by simp
    moreover have "load_le (m x) (m k)" using min that by blast
    ultimately show "activeChannels (m k) = activeChannels (m x) \<and> inflightDials (m k) = inflightDials (m x)"
      using load_antisym by blast
  next
    assume "activeChannels (m k) = activeChannels (m x) \<and> inflightDials (m k) = inflightDials (m x)"
    then have "load_le (m k) e \<longleftrightarrow> load_le (m x) e" for e by (simp add: load_le_def)
    then show "\<forall>j \<in> set (x # ks). skip (m j) \<or> load_le (m k) (m j)" using min by auto
  qed
  then show ?thesis
    using assms(1) min by (auto simp: least_def equal_load_def intro!: filter_cong)
qed

lemma least_beaten:
  assumes "j \<in> set ks" "\<not> skip (m j)" "below (activeChannels (m x)) (inflightDials (m x)) (m j)"
  shows "least m skip (x # ks) = least m skip ks"
proof -
  have "\<not> load_le (m x) (m j)" using assms(3) not_below by blast
  moreover have "load_le (m k) (m x)" if "load_le (m k) (m j)" for k
    using that assms(3) unfolding below_def load_le_def by linarith
  ultimately show ?thesis using assms(1,2) by (auto simp: least_def intro!: filter_cong)
qed

lemma least_loaded_filter:
  "least_loaded m skip ks a i cands =
    (if nothing_below m skip a i ks then cands @ equal_load m skip a i ks else least m skip ks)"
proof (induction ks arbitrary: a i cands)
  case Nil
  then show ?case by (simp add: nothing_below_def equal_load_def)
next
  case (Cons x ks)
  consider (skip) "skip (m x)" | (less) "\<not> skip (m x)" "below a i (m x)"
    | (same) "\<not> skip (m x)" "activeChannels (m x) = a" "inflightDials (m x) = i"
    | (more) "\<not> skip (m x)" "\<not> below a i (m x)" "\<not> (activeChannels (m x) = a \<and> inflightDials (m x) = i)" by blast
  then show ?case
  proof cases
    case skip
    then have "nothing_below m skip a i (x # ks) \<longleftrightarrow> nothing_below m skip a i ks"
      "equal_load m skip a i (x # ks) = equal_load m skip a i ks"
      by (simp_all add: nothing_below_def equal_load_def)
    then show ?thesis using skip by (simp add: Cons.IH least_skip)
  next
    case less
    then have "\<not> nothing_below m skip a i (x # ks)" by (simp add: nothing_below_def)
    moreover have "least_loaded m skip (x # ks) a i cands
        = least_loaded m skip ks (activeChannels (m x)) (inflightDials (m x)) [x]"
      using less by (simp add: Let_def below_def)
    moreover have "least m skip (x # ks) = least m skip ks"
      if "\<not> nothing_below m skip (activeChannels (m x)) (inflightDials (m x)) ks"
      using that least_beaten unfolding nothing_below_def by blast
    ultimately show ?thesis using less(1) by (simp add: Cons.IH least_first)
  next
    case same
    then have n: "nothing_below m skip a i (x # ks) \<longleftrightarrow> nothing_below m skip a i ks"
      by (simp add: nothing_below_def below_def)
    have "least m skip (x # ks) = least m skip ks" if "\<not> nothing_below m skip a i ks"
      using that least_beaten [of _ ks skip m x] same(2,3) unfolding nothing_below_def by blast
    then show ?thesis using same by (simp add: Let_def Cons.IH n equal_load_def)
  next
    case more
    then have n: "nothing_below m skip a i (x # ks) \<longleftrightarrow> nothing_below m skip a i ks"
      by (simp add: nothing_below_def)
    have "least m skip (x # ks) = least m skip ks" if nb: "\<not> nothing_below m skip a i ks"
    proof -
      obtain j where j: "j \<in> set ks" "\<not> skip (m j)" "below a i (m j)"
        using nb by (auto simp: nothing_below_def)
      have "below (activeChannels (m x)) (inflightDials (m x)) (m j)"
        using more(2,3) j(3) unfolding below_def by linarith
      then show ?thesis using least_beaten j by blast
    qed
    then show ?thesis using more by (auto simp: Let_def Cons.IH n equal_load_def below_def)
  qed
qed

section \<open>Selection\<close>

text \<open>The counters of every pooled connection are the number of something.\<close>

definition nonneg :: "Group \<Rightarrow> bool" where
  "nonneg g \<longleftrightarrow> (\<forall>k \<in> set (conns g). 0 \<le> activeChannels (sc g k) \<and> 0 \<le> inflightDials (sc g k))"

definition full :: "Group \<Rightarrow> bool" where
  "full g \<longleftrightarrow> (\<forall>k \<in> set (conns g). no_capacity (sc g k))"

definition candidates :: "Group \<Rightarrow> nat list" where
  "candidates g = least (sc g) no_capacity (conns g)"

lemma capacity_below: "\<lbrakk>\<not> no_capacity c; 0 \<le> activeChannels c; 0 \<le> inflightDials c\<rbrakk> \<Longrightarrow> below (2 ^ 62) (2 ^ 62) c"
  by (simp add: no_capacity_def below_def pool_consts)

lemma loop_candidates:
  assumes "nonneg g"
  shows "least_loaded (sc g) no_capacity (conns g) (2 ^ 62) (2 ^ 62) [] = candidates g"
proof -
  have "below (2 ^ 62) (2 ^ 62) (sc g k)" if "k \<in> set (conns g)" "\<not> no_capacity (sc g k)" for k
    using assms that capacity_below by (simp add: nonneg_def)
  then have n: "nothing_below (sc g) no_capacity (2 ^ 62) (2 ^ 62) (conns g) \<longleftrightarrow> full g"
    by (auto simp: nothing_below_def full_def)
  show ?thesis
  proof (cases "full g")
    case True
    then have "equal_load (sc g) no_capacity a i (conns g) = []" "candidates g = []" for a i
      by (auto simp: equal_load_def candidates_def least_def full_def filter_empty_conv)
    then show ?thesis using True n by (simp add: least_loaded_filter)
  next
    case False
    then show ?thesis using n by (simp add: least_loaded_filter candidates_def)
  qed
qed

text \<open>A finite set of loads has a least one.\<close>

lemma least_exists: "k \<in> set ks \<Longrightarrow> \<not> skip (m k) \<Longrightarrow> least m skip ks \<noteq> []"
proof (induction ks arbitrary: k)
  case (Cons x ks)
  consider "skip (m x)" | "\<not> skip (m x)" "nothing_below m skip (activeChannels (m x)) (inflightDials (m x)) ks"
    | j where "j \<in> set ks" "\<not> skip (m j)" "below (activeChannels (m x)) (inflightDials (m x)) (m j)"
    unfolding nothing_below_def by blast
  then show ?case
  proof cases
    case 1
    then show ?thesis using Cons least_skip by force
  next
    case 2
    then show ?thesis using least_first by (metis list.discI)
  next
    case 3
    then show ?thesis using Cons.IH least_beaten by metis
  qed
qed simp

lemma candidates_empty: "candidates g = [] \<longleftrightarrow> full g"
proof
  assume "candidates g = []"
  then show "full g" using least_exists [where skip = no_capacity and m = "sc g"] by (auto simp: candidates_def full_def)
next
  assume "full g"
  then show "candidates g = []" by (simp add: candidates_def full_def least_def filter_empty_conv)
qed

lemma select_candidates:
  assumes "nonneg g"
  shows "selectConnWithCapacity g =
    (if full g then (None, g)
     else (Some (candidates g ! (unat (nextConn g + 1) mod length (candidates g))), g\<lparr>nextConn := nextConn g + 1\<rparr>))"
  using candidates_empty [of g] loop_candidates [OF assms]
  by (auto simp: selectConnWithCapacity_def Let_def round_robin_def full_def)

lemma select_None:
  assumes "nonneg g" "selectConnWithCapacity g = (None, g1)"
  shows "full g" "g1 = g"
  using assms by (simp_all add: select_candidates split: if_splits)

lemma least_loaded_room:
  assumes "k \<in> set (least_loaded m skip ks a i [])"
  shows "k \<in> set ks \<and> \<not> skip (m k)"
  using assms by (auto simp: least_loaded_filter equal_load_def least_def split: if_splits)

text \<open>What holds of a selected connection in every state.\<close>

lemma select_Some:
  assumes "selectConnWithCapacity g = (Some k, g1)"
  shows "k \<in> set (conns g) \<and> \<not> no_capacity (sc g k) \<and> g1 = g\<lparr>nextConn := nextConn g + 1\<rparr>"
proof -
  let ?c = "least_loaded (sc g) no_capacity (conns g) (2 ^ 62) (2 ^ 62) []"
  have "?c \<noteq> []" and k: "k = ?c ! (unat (nextConn g + 1) mod length ?c)" "g1 = g\<lparr>nextConn := nextConn g + 1\<rparr>"
    using assms by (auto simp: selectConnWithCapacity_def round_robin_def Let_def split: if_splits)
  then have "k \<in> set ?c" by simp
  then show ?thesis using least_loaded_room k(2) by blast
qed

end
