(* ===== verification/PoolInv.thy ===== *)
theory PoolInv
  imports PoolSelect PoolConnectSpec
begin

text \<open>
  Accounting of the upstream pool: in every reachable state of the threads of \<open>PoolDial\<close> the counters of
  a connection are the dials that hold a slot on it and the tracked connections open on it.
\<close>

section \<open>What a dial holds\<close>

fun slot_phase :: "caller_phase \<Rightarrow> bool" where
  "slot_phase (CCheck n) = True"
| "slot_phase CReserved = True"
| "slot_phase (CReceived r) = True"
| "slot_phase p = False"

fun busy :: "worker_phase \<Rightarrow> bool" where
  "busy WNone = False"
| "busy WSignal = False"
| "busy WDone = False"
| "busy w = True"

fun uncounted :: "worker_phase \<Rightarrow> bool" where
  "uncounted WDialing = True"
| "uncounted (WReturned r) = True"
| "uncounted (WOffering r) = True"
| "uncounted (WLate r t) = t"
| "uncounted w = False"

definition slot :: "dial \<Rightarrow> bool" where
  "slot d \<longleftrightarrow> slot_phase (caller d) \<or> busy (worker d)"

definition pend :: "dial \<Rightarrow> bool" where
  "pend d \<longleftrightarrow> abandoned d \<and> uncounted (worker d)"

fun late :: "worker_phase \<Rightarrow> bool" where
  "late (WLate r t) = True"
| "late WRelease = True"
| "late WSignal = True"
| "late WDone = True"
| "late w = False"

text \<open>
  The stages of a caller: before the worker exists, waiting for it, gone without its result, and after
  taking its result; and how caller and worker fit together.
\<close>

datatype stage = Before | Waiting | Left | Taken

fun stage_of :: "caller_phase \<Rightarrow> stage" where
  "stage_of CRunning = Waiting"
| "stage_of CCtxDone = Left"
| "stage_of (CFailed e) = Left"
| "stage_of (CReceived r) = Taken"
| "stage_of (CReleased r) = Taken"
| "stage_of (COutcome r) = Taken"
| "stage_of CConn = Taken"
| "stage_of CClosing = Taken"
| "stage_of CClosed = Taken"
| "stage_of p = Before"

definition dial_ok :: "dial \<Rightarrow> bool" where
  "dial_ok d \<longleftrightarrow>
     (stage_of (caller d) = Before \<longrightarrow> worker d = WNone \<and> \<not> abandoned d \<and> \<not> cleanupDone d)
     \<and> (stage_of (caller d) = Waiting \<longrightarrow>
          worker d \<noteq> WNone \<and> \<not> abandoned d \<and> (late (worker d) \<longrightarrow> cleanupDone d))
     \<and> (stage_of (caller d) = Taken \<longrightarrow> worker d = WDone \<and> \<not> abandoned d)
     \<and> (\<forall>r t. worker d = WLate r t \<longrightarrow> t = abandoned d)"

definition holds_on :: "nat \<Rightarrow> dial \<Rightarrow> int" where
  "holds_on k d = of_bool (slot d \<and> dconn d = k)"

definition open_on :: "nat \<Rightarrow> dial \<Rightarrow> int" where
  "open_on k d = of_bool (caller d = CConn \<and> dconn d = k)"

definition total :: "('a \<Rightarrow> int) \<Rightarrow> 'a list \<Rightarrow> int" where
  "total f ds = sum_list (map f ds)"

lemma total_simps [simp]:
  "total f [] = 0" "total f (ds @ [d]) = total f ds + f d"
  by (simp_all add: total_def)

lemma total_update: "i < length ds \<Longrightarrow> total f (ds[i := d]) = total f ds - f (ds ! i) + f d"
  by (induction ds arbitrary: i) (auto simp: total_def split: nat.splits)

lemma total_nonneg: "(\<And>d. 0 \<le> f d) \<Longrightarrow> 0 \<le> total f ds"
  by (induction ds) (auto simp: total_def)

section \<open>The effect of a thread\<close>

text \<open>
  The counters of a group, and an action that changes them by what the dial gained or lost.
\<close>

definition counts_moved :: "dial \<Rightarrow> Group \<Rightarrow> dial \<Rightarrow> Group \<Rightarrow> bool" where
  "counts_moved d g d' g' \<longleftrightarrow>
     (\<forall>k. inflightDials (sc g' k) = inflightDials (sc g k) - holds_on k d + holds_on k d'
        \<and> activeChannels (sc g' k) = activeChannels (sc g k) - open_on k d + open_on k d')
     \<and> pendingAbandonedDials g' = pendingAbandonedDials g - of_bool (pend d) + of_bool (pend d')
     \<and> nextSSHConnID g' = nextSSHConnID g \<and> set (conns g') \<subseteq> set (conns g)
     \<and> (dconn d' = dconn d \<or> dconn d' \<in> set (conns g))"

lemmas count_defs = counts_moved_def holds_on_def open_on_def pend_def slot_def
  add_active_def upd_sc_def

definition same_counts :: "Group \<Rightarrow> Group \<Rightarrow> bool" where
  "same_counts g g' \<longleftrightarrow>
     (\<forall>k. inflightDials (sc g' k) = inflightDials (sc g k) \<and> activeChannels (sc g' k) = activeChannels (sc g k))
     \<and> pendingAbandonedDials g' = pendingAbandonedDials g
     \<and> nextSSHConnID g' = nextSSHConnID g \<and> set (conns g') \<subseteq> set (conns g)"

lemma same_counts_refl [simp]: "same_counts g g" by (simp add: same_counts_def)

lemma same_counts_trans: "\<lbrakk>same_counts g h; same_counts h j\<rbrakk> \<Longrightarrow> same_counts g j"
  by (auto simp: same_counts_def)

lemma same_counts_upd_counters [simp]: "same_counts g (upd_counters f g)"
  by (simp add: same_counts_def upd_counters_def)

lemma same_counts_signal [simp]: "same_counts g (signalCapacityChange g)" "same_counts g (notifyMaintain g)"
  "same_counts g (announce_conn g)"
  by (simp_all add: same_counts_def signalCapacityChange_def notifyMaintain_def announce_conn_def)

lemma same_counts_close_sc [simp]: "same_counts g (close_sc k g)"
  by (simp add: same_counts_def close_sc_def upd_sc_def)

lemma same_counts_close_all: "same_counts g (close_all ks g)"
proof (induction ks arbitrary: g)
  case (Cons k ks)
  then show ?case using same_counts_trans [OF same_counts_close_sc, of k g] by simp
qed simp

lemma same_counts_remove [simp]: "same_counts g (removeConn k g)"
  by (auto simp: removeConn_def same_counts_def signalCapacityChange_def notifyMaintain_def close_sc_def
        upd_sc_def dest: set_remove1_subset [THEN subsetD])

lemma same_counts_startScale: "same_counts g (snd (startScale g))"
  by (simp add: startScale_def Let_def same_counts_def upd_counters_def)

lemma same_counts_scaleNeeded: "same_counts g (snd (startScaleIfNeeded g))"
proof (cases "selectConnWithCapacity g")
  case (Pair r g1)
  then have "same_counts g g1"
    by (auto simp: same_counts_def selectConnWithCapacity_def round_robin_def Let_def split: if_splits)
  then show ?thesis using Pair same_counts_trans same_counts_startScale
    by (auto simp: startScaleIfNeeded_def split: option.splits)
qed

lemma same_counts_headroom: "same_counts g (snd (maybeScaleForHeadroom g))"
  using same_counts_startScale by (simp add: maybeScaleForHeadroom_def Let_def)

lemma same_counts_starvation: "same_counts g (snd (logCapacityStarvation now g))"
  by (simp add: logCapacityStarvation_def same_counts_def)

lemma same_counts_timeout: "same_counts g (snd (recordDialTimeout now k g))"
  by (simp add: recordDialTimeout_def same_counts_def upd_sc_def Let_def)

lemma same_counts_force: "same_counts g (snd (maybeForceReconnect now k g))"
  by (simp add: maybeForceReconnect_def same_counts_def upd_sc_def upd_counters_def signalCapacityChange_def)

text \<open>An action that only moves the dial, and one that moves it and the counters of its connection.\<close>

lemma moved_same:
  assumes "same_counts g g'" "slot d' = slot d" "pend d' = pend d" "caller d \<noteq> CConn" "caller d' \<noteq> CConn"
    "dconn d' = dconn d"
  shows "counts_moved d g d' g'"
  using assms by (simp add: same_counts_def counts_moved_def holds_on_def open_on_def)

lemma moved_none:
  assumes "same_counts g g'" "slot d' = slot d" "pend d' = pend d" "caller d' = caller d" "dconn d' = dconn d"
  shows "counts_moved d g d' g'"
  using assms by (simp add: same_counts_def counts_moved_def holds_on_def open_on_def)

lemma moved_inflight:
  assumes "of_bool (slot d') - of_bool (slot d) = n" "pend d' = pend d" "caller d \<noteq> CConn" "caller d' \<noteq> CConn"
    "dconn d' = dconn d"
  shows "counts_moved d g d' (add_inflight n (dconn d) g)"
  using assms by (auto simp: counts_moved_def holds_on_def open_on_def add_inflight_def upd_sc_def)

lemma moved_after:
  "\<lbrakk>same_counts g h; counts_moved d h d' g'\<rbrakk> \<Longrightarrow> counts_moved d g d' g'"
  by (auto simp: same_counts_def counts_moved_def)

lemma moved_then:
  "\<lbrakk>counts_moved d g d' h; same_counts h g'\<rbrakk> \<Longrightarrow> counts_moved d g d' g'"
  by (auto simp: same_counts_def counts_moved_def)

lemma same_counts_waitChannel: "same_counts g (snd (waitChannel g))"
  by (simp add: waitChannel_def same_counts_def split: option.splits)

lemma same_counts_select: "selectConnWithCapacity g = (r, g1) \<Longrightarrow> same_counts g g1"
  by (auto simp: same_counts_def selectConnWithCapacity_def round_robin_def Let_def split: if_splits)

lemma reserve_counts:
  assumes "reserving (caller d)" "dial_ok d" "reserve_step now pick (caller d) d g = (d', g', n, p)"
  shows "dial_ok d' \<and> counts_moved d g d' g'"
proof (cases "caller d")
  case CLoop
  then show ?thesis using assms same_counts_waitChannel [of g]
    by (auto simp: quiet_def dial_ok_def slot_def pend_def intro!: moved_same split: prod.splits)
next
  case (CSelect c)
  obtain r g1 where r: "selectConnWithCapacity g = (r, g1)" by fastforce
  show ?thesis
  proof (cases r)
    case None
    then show ?thesis using CSelect assms r same_counts_select [OF r]
      by (auto simp: quiet_def dial_ok_def slot_def pend_def intro!: moved_same)
  next
    case (Some k)
    then have "k \<in> set (conns g)" using r select_Some by blast
    then show ?thesis using CSelect assms r same_counts_select [OF r] Some
      by (auto simp: quiet_def dial_ok_def counts_moved_def same_counts_def holds_on_def open_on_def slot_def pend_def)
  qed
next
  case CAdd
  then show ?thesis using assms
    by (auto simp: quiet_def dial_ok_def slot_def pend_def Let_def intro!: moved_inflight)
next
  case (CCheck n)
  then show ?thesis using assms
    by (auto simp: quiet_def dial_ok_def slot_def pend_def intro!: moved_inflight moved_same split: if_splits)
next
  case (CScale c)
  obtain m g1 where g1: "startScaleIfNeeded g = (m, g1)" by fastforce
  obtain w g2 where g2: "logCapacityStarvation now g1 = (w, g2)" by fastforce
  have "same_counts g g2"
    using same_counts_trans same_counts_scaleNeeded [of g] same_counts_starvation [of g1 now] g1 g2 by fastforce
  then show ?thesis using CScale assms g1 g2
    by (auto simp: dial_ok_def slot_def pend_def intro!: moved_same)
next
  case (CRecheck c)
  obtain r g1 where r: "selectConnWithCapacity g = (r, g1)" by fastforce
  show ?thesis using CRecheck assms r same_counts_select [OF r]
    by (auto simp: quiet_def dial_ok_def slot_def pend_def intro!: moved_same split: option.splits)
qed (use assms in \<open>auto simp: quiet_def dial_ok_def slot_def pend_def reserving_def fail_dial_def not_connected_def
      intro!: moved_same split: if_splits\<close>)

lemma dial_counts:
  assumes "\<not> reserving (caller d)" "dial_ok d" "dial_step now (caller d) d g = (d', g', n, p)"
  shows "dial_ok d' \<and> counts_moved d g d' g'"
proof (cases "caller d")
  case CReserved
  let ?g0 = "upd_counters (\<lambda>t. t\<lparr>DialAttempts := DialAttempts t + 1\<rparr>) g"
  obtain m g1 where g1: "maybeScaleForHeadroom ?g0 = (m, g1)" by fastforce
  have "same_counts ?g0 g1" using same_counts_headroom [of ?g0] g1 by simp
  then have "same_counts g g1" by (rule same_counts_trans [OF same_counts_upd_counters])
  moreover have "counts_moved d g1 (d\<lparr>caller := CNilClient\<rparr>) (add_inflight (-1) (dconn d) g1)"
    "counts_moved d g1 (d\<lparr>caller := CRunning, worker := WDialing\<rparr>) g1"
    using assms(2) CReserved
    by (auto simp: dial_ok_def slot_def pend_def intro!: moved_inflight moved_same)
  ultimately have "counts_moved d g (d\<lparr>caller := CNilClient\<rparr>) (add_inflight (-1) (dconn d) g1)"
    "counts_moved d g (d\<lparr>caller := CRunning, worker := WDialing\<rparr>) g1"
    using moved_after by blast+
  then show ?thesis using CReserved assms g1 by (auto simp: dial_ok_def split: if_splits)
next
  case CRunning
  then have ok: "worker d \<noteq> WNone" "\<not> abandoned d" "late (worker d) \<longrightarrow> cleanupDone d"
    using assms(2) by (simp_all add: dial_ok_def)
  consider (live) "dctx d = Live" | (clean) "dctx d \<noteq> Live" "cleanupDone d"
    | (abandon) "dctx d \<noteq> Live" "\<not> cleanupDone d" by blast
  then show ?thesis
  proof cases
    case live
    then show ?thesis using assms CRunning by (auto simp: quiet_def intro: moved_none)
  next
    case clean
    then have "d' = d\<lparr>caller := CCtxDone\<rparr>" "g' = g" using assms(3) CRunning by (simp_all add: quiet_def)
    then show ?thesis using assms(2) CRunning
      by (auto simp: dial_ok_def slot_def pend_def intro!: moved_same)
  next
    case abandon
    then have eff: "d' = d\<lparr>caller := CCtxDone, abandoned := True\<rparr>"
      "g' = g\<lparr>pendingAbandonedDials := pendingAbandonedDials g + 1\<rparr>"
      using assms(3) CRunning by (simp_all add: quiet_def)
    have "uncounted (worker d)" "\<forall>r t. worker d \<noteq> WLate r t" using ok abandon by (cases "worker d"; simp)+
    then show ?thesis using ok CRunning eff
      by (simp add: dial_ok_def counts_moved_def holds_on_def open_on_def slot_def pend_def)
  qed
next
  case CCtxDone
  let ?g0 = "upd_counters (\<lambda>t. t\<lparr>DialTimeouts := DialTimeouts t + 1\<rparr>) g"
  obtain m g1 where g1: "recordDialTimeout now (dconn d) ?g0 = (m, g1)" by fastforce
  have "same_counts ?g0 g1" using same_counts_timeout [of ?g0 now "dconn d"] g1 by simp
  then have s1: "same_counts g g1" by (rule same_counts_trans [OF same_counts_upd_counters])
  have s2: "same_counts g (snd (maybeForceReconnect now (dconn d) g1))"
    using same_counts_trans [OF s1 same_counts_force] .
  show ?thesis using CCtxDone assms g1 s1 s2
    by (auto simp: quiet_def dial_ok_def slot_def pend_def fail_dial_def Let_def intro!: moved_same
             split: if_splits prod.splits)
next
  case (CReceived r)
  then show ?thesis using assms
    by (auto simp: quiet_def dial_ok_def slot_def pend_def intro!: moved_inflight)
next
  case (COutcome r)
  show ?thesis
  proof (cases r)
    case None
    then show ?thesis using COutcome assms
      by (auto simp: quiet_def dial_ok_def slot_def pend_def counts_moved_def holds_on_def open_on_def
          upd_counters_def add_active_def upd_sc_def)
  next
    case (Some e)
    then show ?thesis
      using COutcome assms same_counts_trans [OF same_counts_upd_counters same_counts_remove]
      by (cases e) (auto simp: quiet_def dial_ok_def slot_def pend_def fail_dial_def Let_def intro!: moved_same)
  qed
next
  case CConn
  then show ?thesis using assms by (auto simp: quiet_def intro: moved_none)
qed (use assms in \<open>auto simp: quiet_def dial_ok_def slot_def pend_def reserving_def not_connected_def
      intro!: moved_same split: if_splits\<close>)

lemma caller_counts:
  "\<lbrakk>dial_ok d; caller_step now pick d g = (d', g', n, p)\<rbrakk> \<Longrightarrow> dial_ok d' \<and> counts_moved d g d' g'"
  using reserve_counts dial_counts by (auto simp: caller_step_def split: if_splits)

lemma worker_counts:
  assumes ok: "dial_ok d" and step: "worker_step r d g = (d', g')"
  shows "dial_ok d' \<and> counts_moved d g d' g'"
proof
  show "dial_ok d'"
    using ok step by (cases "worker d") (auto simp: worker_step_def dial_ok_def Let_def split: if_splits)
  show "counts_moved d g d' g'"
  proof (cases "worker d")
    case (WLate res t)
    define g1 where "g1 = upd_counters (if res = None then (\<lambda>t. t\<lparr>LateDialSuccesses := LateDialSuccesses t + 1\<rparr>)
                            else (\<lambda>t. t\<lparr>LateDialFailures := LateDialFailures t + 1\<rparr>)) g"
    have same: "same_counts g g1" by (simp add: g1_def)
    have t: "abandoned d = t" using ok WLate by (simp add: dial_ok_def)
    have eff: "d' = d\<lparr>worker := WRelease\<rparr>"
      "g' = (if t then g1\<lparr>pendingAbandonedDials := pendingAbandonedDials g1 - 1\<rparr> else g1)"
      using step WLate unfolding g1_def by (simp_all only: worker_step_def worker_act.simps Let_def prod.inject)
    have "counts_moved d g1 d' g'"
      using t WLate by (cases t) (simp_all add: eff counts_moved_def holds_on_def open_on_def slot_def pend_def)
    then show ?thesis using moved_after same by blast
  next
    case WRelease
    have "d' = d\<lparr>worker := WSignal\<rparr>" "g' = add_inflight (-1) (dconn d) g"
      using step WRelease by (auto simp: worker_step_def)
    moreover have "\<not> slot_phase (caller d)" using ok WRelease by (cases "caller d") (auto simp: dial_ok_def)
    ultimately show ?thesis using WRelease
      by (auto simp: counts_moved_def holds_on_def open_on_def slot_def pend_def add_inflight_def upd_sc_def)
  qed (use step in \<open>auto simp: worker_step_def slot_def pend_def intro!: moved_none split: if_splits\<close>)
qed

lemma rendezvous_counts: "dial_ok d \<Longrightarrow> dial_ok (rendezvous d) \<and> counts_moved d g (rendezvous d) g"
proof (cases "\<exists>r. caller d = CRunning \<and> worker d = WOffering r")
  case True
  assume ok: "dial_ok d"
  from True obtain r where r: "caller d = CRunning" "worker d = WOffering r" by blast
  then have eff: "rendezvous d = d\<lparr>caller := CReceived r, worker := WDone\<rparr>" by (simp add: rendezvous_def)
  have "\<not> abandoned d" using ok r by (simp add: dial_ok_def)
  then show ?thesis using r by (auto simp: eff dial_ok_def slot_def pend_def intro!: moved_same)
next
  case False
  assume ok: "dial_ok d"
  from False have "rendezvous d = d"
    by (auto simp: rendezvous_def split: caller_phase.splits worker_phase.splits)
  then show ?thesis using ok by (simp add: counts_moved_def)
qed

lemma tracked_counts:
  assumes ok: "dial_ok d" and step: "tracked_Close d g = (d', g')"
  shows "dial_ok d' \<and> counts_moved d g d' g'"
proof (cases "caller d = CConn")
  case True
  then have "d' = d\<lparr>caller := CClosing\<rparr>" "g' = add_active (-1) (dconn d) g"
    using step by (simp_all add: tracked_Close_def)
  then show ?thesis using ok True by (simp add: dial_ok_def count_defs)
next
  case False
  then show ?thesis using step ok by (auto simp: tracked_Close_def intro: moved_none)
qed

lemma end_ctx_counts: "dial_ok d \<Longrightarrow> dial_ok (end_ctx c d) \<and> counts_moved d g (end_ctx c d) g"
proof
  assume "dial_ok d"
  then show "dial_ok (end_ctx c d)" by (simp add: end_ctx_def dial_ok_def)
  show "counts_moved d g (end_ctx c d) g" by (rule moved_none) (simp_all add: end_ctx_def slot_def pend_def)
qed

section \<open>Accounting\<close>

definition ids_ok :: "psys \<Rightarrow> bool" where
  "ids_ok s \<longleftrightarrow>
     (\<forall>k \<in> set (conns (grp s)). k \<le> nextSSHConnID (grp s))
     \<and> (\<forall>d \<in> set (dials s). dconn d \<le> nextSSHConnID (grp s))
     \<and> (\<forall>a \<in> set (attempts s). \<forall>k. aphase a = AConnected k \<longrightarrow> k \<le> nextSSHConnID (grp s))"

definition accounted :: "psys \<Rightarrow> bool" where
  "accounted s \<longleftrightarrow>
     (\<forall>k. inflightDials (sc (grp s) k) = total (holds_on k) (dials s)
        \<and> activeChannels (sc (grp s) k) = total (open_on k) (dials s))
     \<and> pendingAbandonedDials (grp s) = total (\<lambda>d. of_bool (pend d)) (dials s)"

definition pool_inv :: "psys \<Rightarrow> bool" where
  "pool_inv s \<longleftrightarrow> accounted s \<and> ids_ok s \<and> (\<forall>d \<in> set (dials s). dial_ok d)"

lemma in_set_update: "x \<in> set (xs[i := y]) \<Longrightarrow> x = y \<or> x \<in> set xs"
  using set_update_subset_insert by fast

lemma pool_inv_dial:
  assumes inv: "pool_inv s" and i: "i < length (dials s)"
    and step: "dial_ok (dials s ! i) \<Longrightarrow> dial_ok d \<and> counts_moved (dials s ! i) (grp s) d g"
  shows "pool_inv (put_dial i d g s)"
proof -
  have "dial_ok (dials s ! i)" using inv i by (simp add: pool_inv_def)
  note ok = this and m = step [OF this]
  have ids: "\<forall>k \<in> set (conns (grp s)). k \<le> nextSSHConnID (grp s)" "dconn (dials s ! i) \<le> nextSSHConnID (grp s)"
    using inv i by (simp_all add: pool_inv_def ids_ok_def)
  then have d: "dconn d \<le> nextSSHConnID (grp s)" using m by (auto simp: counts_moved_def)
  have acc: "accounted (put_dial i d g s)"
    using inv i m by (simp add: pool_inv_def accounted_def put_dial_def counts_moved_def total_update)
  have idok: "ids_ok (put_dial i d g s)"
    using inv m d by (auto simp: pool_inv_def ids_ok_def put_dial_def counts_moved_def dest!: in_set_update)
  have "\<forall>e \<in> set (dials (put_dial i d g s)). dial_ok e"
    using inv m by (auto simp: pool_inv_def put_dial_def dest!: in_set_update)
  then show ?thesis using acc idok by (simp add: pool_inv_def)
qed

lemma pool_inv_same:
  assumes "pool_inv s" "same_counts (grp s) (grp s')" "dials s' = dials s"
    "\<And>a k. \<lbrakk>a \<in> set (attempts s'); aphase a = AConnected k\<rbrakk> \<Longrightarrow>
       (\<exists>b \<in> set (attempts s). aphase b = AConnected k) \<or> k \<le> nextSSHConnID (grp s)"
  shows "pool_inv s'"
  using assms(1-3) assms(4) unfolding pool_inv_def accounted_def ids_ok_def same_counts_def
  by (simp, meson subsetD)

lemma pool_inv_spawn:
  assumes "pool_inv s"
  shows "pool_inv (spawn_attempts n k inst s)"
  by (rule pool_inv_same [OF assms]) (auto simp: spawn_attempts_def)

lemma same_counts_reset [simp]: "same_counts g (resetReplenishBackoff g)"
  by (simp add: resetReplenishBackoff_def same_counts_def)

lemma same_counts_remove_failed: "same_counts g (snd (remove_failed failed g))"
  by (auto simp: remove_failed_def same_counts_def)

lemma same_counts_sweep: "sweep_dead dead (g\<lparr>lastMaintainTime := t\<rparr>) = (b, n, g') \<Longrightarrow> same_counts g g'"
  using same_counts_close_all [of "g\<lparr>lastMaintainTime := t\<rparr>" "filter dead (conns g)"]
  by (auto simp: sweep_dead_def Let_def same_counts_def)

lemma same_counts_maintain_replenish: "maintain_replenish now n g = (m, g') \<Longrightarrow> same_counts g g'"
  by (auto simp: maintain_replenish_def reserveReplenish_def Let_def same_counts_def split: if_splits)

lemma maintain_counts: "maintain_step i p g = (p', g', n) \<Longrightarrow> same_counts g g'"
proof (cases p)
  case (MRemoved now ks)
  assume "maintain_step i p g = (p', g', n)"
  then have "g' = close_all ks (announce_conn g)" using MRemoved by (simp add: maintain_step_def)
  then show ?thesis using same_counts_trans [OF same_counts_signal(3) same_counts_close_all] by simp
next
  case (MProbing now)
  assume "maintain_step i p g = (p', g', n)"
  then show ?thesis using MProbing same_counts_remove_failed [of g "mfailed i"]
    by (auto simp: maintain_step_def split: if_splits prod.splits)
qed (auto simp: maintain_step_def split: if_splits prod.splits
       dest: same_counts_sweep same_counts_maintain_replenish)

lemma same_counts_restore [simp]:
  "same_counts g (upd_sc k (\<lambda>c. c\<lparr>draining := False, dialTimeoutCount := 0, lastDialTimeout := 0,
     keepaliveFailures := 0\<rparr>) g)"
  by (simp add: same_counts_def upd_sc_def)

lemma probe_counts: "probe_step dead p g = (p', g') \<Longrightarrow> same_counts g g'"
proof (cases p)
  case PFinishing
  assume "probe_step dead p g = (p', g')"
  then show ?thesis using PFinishing by (auto simp: probe_step_def same_counts_def)
qed (auto simp: probe_step_def split: if_splits)

lemma keepalive_counts: "same_counts g (upd_sc k (\<lambda>c. snd (keepalive_tick t c)) g)"
  by (simp add: same_counts_def upd_sc_def keepalive_tick_def Let_def)

lemma close_group_counts: "same_counts g (close_group g)"
proof -
  have "same_counts h (cleanup h)" for h
    using same_counts_close_all [of h "conns h"] by (simp add: cleanup_def same_counts_def signalCapacityChange_def)
  then have "same_counts (g\<lparr>groupCtx := Some True\<rparr>) (cleanup (g\<lparr>groupCtx := Some True\<rparr>))"
    "same_counts g (cleanup g)" by blast+
  then show ?thesis by (simp add: close_group_def same_counts_def)
qed

lemma attempt_counts:
  assumes "attempt_step ok now delay a g = (a', g')" "aphase a = AConnecting \<longrightarrow> \<not> ok" "\<forall>k. aphase a \<noteq> AConnected k"
  shows "same_counts g g'" "\<forall>k. aphase a' \<noteq> AConnected k"
  using assms
  by (auto simp: attempt_step_def replenish_failed_def recordReplenishFailure_def recordReplenishSuccess_def
      advanceInstance_def scale_finished_def finishReplenish_def announce_conn_def upd_counters_def
      signalCapacityChange_def notifyMaintain_def same_counts_def Let_def
      split: attempt_phase.splits if_splits)

lemma fresh_unheld:
  "ids_ok s \<Longrightarrow> total (holds_on (Suc (nextSSHConnID (grp s)))) (dials s) = 0
     \<and> total (open_on (Suc (nextSSHConnID (grp s)))) (dials s) = 0"
proof -
  assume "ids_ok s"
  then have "\<forall>d \<in> set (dials s). dconn d \<noteq> Suc (nextSSHConnID (grp s))" by (auto simp: ids_ok_def)
  then have "\<forall>d \<in> set (dials s). holds_on (Suc (nextSSHConnID (grp s))) d = 0 \<and> open_on (Suc (nextSSHConnID (grp s))) d = 0"
    by (simp add: holds_on_def open_on_def)
  then show ?thesis by (simp add: total_def cong: map_cong)
qed

lemma pool_inv_attempt:
  assumes inv: "pool_inv s" and i: "i < length (attempts s)"
    and step: "attempt_step ok now delay (attempts s ! i) (grp s) = (a, g)"
  shows "pool_inv (s\<lparr>attempts := (attempts s)[i := a], grp := g\<rparr>)"
proof -
  have mem: "attempts s ! i \<in> set (attempts s)" using i by simp
  consider (new) "aphase (attempts s ! i) = AConnecting" ok
    | (app) k where "aphase (attempts s ! i) = AConnected k"
    | (rest) "aphase (attempts s ! i) = AConnecting \<longrightarrow> \<not> ok" "\<forall>k. aphase (attempts s ! i) \<noteq> AConnected k"
    by blast
  then show ?thesis
  proof cases
    case new
    let ?k = "Suc (nextSSHConnID (grp s))"
    have eff: "a = (attempts s ! i)\<lparr>aphase := AConnected ?k\<rparr>"
      "g = (grp s)\<lparr>nextSSHConnID := ?k, sc := (sc (grp s))(?k := new_sshConn)\<rparr>"
      using step new by (simp_all add: attempt_step_def conn_created_def Let_def)
    have "ids_ok s" using inv by (simp add: pool_inv_def)
    note zero = fresh_unheld [OF this]
    show ?thesis using inv zero
      by (auto simp: pool_inv_def accounted_def ids_ok_def eff new_sshConn_def dest!: in_set_update intro: le_SucI)
  next
    case app
    have eff: "a = (attempts s ! i)\<lparr>aphase := AAppended\<rparr>" "g = append_conn k (grp s)"
      using step app by (simp_all add: attempt_step_def)
    have "k \<le> nextSSHConnID (grp s)" using inv app mem by (auto simp: pool_inv_def ids_ok_def)
    then show ?thesis using inv
      by (auto simp: pool_inv_def accounted_def ids_ok_def eff append_conn_def dest!: in_set_update)
  next
    case rest
    note c = attempt_counts [OF step rest]
    show ?thesis
      by (rule pool_inv_same [OF inv]) (use c in \<open>auto dest!: in_set_update\<close>)
  qed
qed

lemma pool_inv_move: "pool_inv s \<Longrightarrow> pool_inv (pool_move m s)"
proof (cases m)
  case NewDial
  assume "pool_inv s"
  then show ?thesis
    by (auto simp: NewDial pool_inv_def accounted_def ids_ok_def new_dial_def holds_on_def open_on_def slot_def
        pend_def dial_ok_def)
next
  case (EndCtx i c)
  assume "pool_inv s"
  then show ?thesis using EndCtx end_ctx_counts by (auto intro: pool_inv_dial)
next
  case (CallerMove i now pick)
  assume inv: "pool_inv s"
  show ?thesis
  proof (cases "i < length (dials s)")
    case True
    obtain d g n p where st: "caller_step now pick (dials s ! i) (grp s) = (d, g, n, p)"
      by (metis prod_cases4)
    have "pool_inv (put_dial i d g s)" using pool_inv_dial [OF inv True] caller_counts st by blast
    then have sp: "pool_inv (spawn_attempts n ScaleUp (currentInstance g) (put_dial i d g s))"
      by (rule pool_inv_spawn)
    show ?thesis
    proof (cases p)
      case None
      then show ?thesis using sp CallerMove True st by simp
    next
      case (Some k)
      have "pool_inv ((spawn_attempts n ScaleUp (currentInstance g) (put_dial i d g s))\<lparr>probe := PProbing k\<rparr>)"
        by (rule pool_inv_same [OF sp]) auto
      then show ?thesis using CallerMove True st Some by simp
    qed
  qed (use inv CallerMove in simp)
next
  case (WorkerMove i r)
  assume "pool_inv s"
  then show ?thesis using WorkerMove worker_counts by (auto intro: pool_inv_dial split: prod.splits)
next
  case (Rendezvous i)
  assume "pool_inv s"
  then show ?thesis using Rendezvous rendezvous_counts by (auto intro: pool_inv_dial)
next
  case (CloseConn i)
  assume "pool_inv s"
  then show ?thesis using CloseConn tracked_counts by (auto intro: pool_inv_dial split: prod.splits)
next
  case (AttemptMove i ok now delay)
  assume "pool_inv s"
  then show ?thesis using AttemptMove pool_inv_attempt by (auto split: prod.splits)
next
  case (ProbeMove dead)
  assume inv: "pool_inv s"
  obtain p g where "probe_step dead (probe s) (grp s) = (p, g)" by fastforce
  then show ?thesis using ProbeMove probe_counts by (auto intro!: pool_inv_same [OF inv])
next
  case (Maintain i)
  assume inv: "pool_inv s"
  obtain p g n where st: "maintain_step i (maint s) (grp s) = (p, g, n)" by (metis prod_cases3)
  have "pool_inv (s\<lparr>maint := p, grp := g, wakes := w\<rparr>)" for w
    by (rule pool_inv_same [OF inv]) (use maintain_counts [OF st] in auto)
  then show ?thesis using Maintain st pool_inv_spawn by simp
next
  case MaintainExit
  assume inv: "pool_inv s"
  then have "pool_inv (s\<lparr>maint := MExited\<rparr>)" by (rule pool_inv_same) auto
  then show ?thesis using inv MaintainExit by simp
next
  case (KeepaliveMove k t)
  assume inv: "pool_inv s"
  show ?thesis using KeepaliveMove keepalive_counts by (auto intro!: pool_inv_same [OF inv])
next
  case CloseGroup
  assume inv: "pool_inv s"
  show ?thesis using CloseGroup close_group_counts by (auto intro!: pool_inv_same [OF inv])
qed

lemma pool_run_induct:
  "\<lbrakk>P s; \<And>s m. P s \<Longrightarrow> P (pool_move m s)\<rbrakk> \<Longrightarrow> P (pool_run ms s)"
  unfolding pool_run_def by (induction ms arbitrary: s) auto

lemma connected_clean:
  "fresh_group ((connected name up t att)\<lparr>groupCtx := None\<rparr>)"
  "length (conns (connected name up t att)) \<le> defaultPoolSize"
  "\<forall>k \<in> set (conns (connected name up t att)). k \<le> nextSSHConnID (connected name up t att)"
proof -
  obtain e g where "connect_group att (NewGroup name up t) = (e, g)" by fastforce
  from connect_keeps_clean [OF this] this
  show "fresh_group ((connected name up t att)\<lparr>groupCtx := None\<rparr>)"
    "length (conns (connected name up t att)) \<le> defaultPoolSize"
    "\<forall>k \<in> set (conns (connected name up t att)). k \<le> nextSSHConnID (connected name up t att)"
    by (simp_all add: connected_def fresh_group_def)
qed

lemma pool_inv_start: "pool_inv (pool_start (connected name up t att))"
  using connected_clean [of name up t att]
  by (simp add: pool_inv_def accounted_def ids_ok_def pool_start_def fresh_group_def)

lemma pool_inv_run: "pool_inv (pool_run ms (pool_start (connected name up t att)))"
  by (rule pool_run_induct [where P = pool_inv]) (rule pool_inv_start, rule pool_inv_move)

lemma total_count: "total (\<lambda>d. of_bool (P d)) ds = int (length (filter P ds))"
  by (induction ds) (auto simp: total_def)

text \<open>
  C14. However the dials of an upstream, their time-outs and the background goroutines interleave, the
  counters are exact: the in-flight count of a connection is the number of dials that hold a slot on it
  (abandoned ones included, until their channel open returns), its channel count is the number of tracked
  connections open on it, and the abandoned count is the number of dials whose caller left before the
  worker came back.  So no slot is lost or freed twice.
\<close>

theorem dial_accounting:
  "let s = pool_run ms (pool_start (connected name up t att)) in
   (\<forall>k. inflightDials (sc (grp s) k) = int (length (filter (\<lambda>d. slot d \<and> dconn d = k) (dials s)))
      \<and> activeChannels (sc (grp s) k) = int (length (filter (\<lambda>d. caller d = CConn \<and> dconn d = k) (dials s))))
   \<and> pendingAbandonedDials (grp s) = int (length (filter pend (dials s)))"
  using pool_inv_run [of ms name up t att]
  by (simp add: Let_def pool_inv_def accounted_def holds_on_def [abs_def] open_on_def [abs_def] total_count)

lemma nonneg_inv: "pool_inv s \<Longrightarrow> nonneg (grp s)"
proof -
  assume "pool_inv s"
  then have "activeChannels (sc (grp s) k) = total (open_on k) (dials s)"
    "inflightDials (sc (grp s) k) = total (holds_on k) (dials s)" for k
    by (simp_all add: pool_inv_def accounted_def)
  moreover have "0 \<le> total (open_on k) (dials s)" "0 \<le> total (holds_on k) (dials s)" for k
    by (rule total_nonneg, simp add: open_on_def holds_on_def)+
  ultimately show ?thesis by (simp add: nonneg_def)
qed

section \<open>What a dial is given\<close>

text \<open>
  C18. The selection is the least loaded connection.  In every reachable state the one-pass loop of
  \<open>selectConnWithCapacity\<close>, with its running minimum and its candidate list, computes what two filters say:
  of the pooled connections that are not draining and have a free slot, in pool order, those with the
  fewest open channels and then the fewest dials in flight, taken in turn by the round-robin
  counter; and nothing exactly when there are none.
\<close>

theorem selection_is_least_loaded:
  "let g = grp (pool_run ms (pool_start (connected name up t att)));
     open_slots = filter (\<lambda>k. \<not> draining (sc g k)
       \<and> activeChannels (sc g k) + inflightDials (sc g k) < maxChannelsPerConn) (conns g);
     best = filter (\<lambda>k. list_all (\<lambda>j. activeChannels (sc g k) < activeChannels (sc g j)
       \<or> (activeChannels (sc g k) = activeChannels (sc g j) \<and> inflightDials (sc g k) \<le> inflightDials (sc g j)))
       open_slots) open_slots
   in selectConnWithCapacity g =
     (if best = [] then (None, g)
      else (Some (best ! (unat (nextConn g + 1) mod length best)), g\<lparr>nextConn := nextConn g + 1\<rparr>))"
proof -
  let ?g = "grp (pool_run ms (pool_start (connected name up t att)))"
  have nn: "nonneg ?g" by (rule nonneg_inv [OF pool_inv_run])
  have free: "\<not> draining c \<and> activeChannels c + inflightDials c < maxChannelsPerConn \<longleftrightarrow> \<not> no_capacity c" for c
    by (auto simp: no_capacity_def)
  have "candidates ?g = filter (\<lambda>k. list_all (\<lambda>j. load_le (sc ?g k) (sc ?g j))
      (filter (\<lambda>k. \<not> no_capacity (sc ?g k)) (conns ?g))) (filter (\<lambda>k. \<not> no_capacity (sc ?g k)) (conns ?g))"
    by (auto simp: candidates_def least_def list_all_iff intro!: filter_cong)
  then show ?thesis
    unfolding Let_def free load_le_def [symmetric] using select_candidates [OF nn] candidates_empty [of ?g] by simp
qed

end
