(* ===== verification/PoolWait.thy ===== *)
theory PoolWait
  imports PoolInv
begin

text \<open>
  No lost wake-up in the upstream pool: a dial that sleeps on a wait channel that has not been closed
  does so because no connection has capacity, or a thread that changed the capacity is about to close
  the channel.
\<close>

section \<open>Owed signals and waiting dials\<close>

fun caller_owes :: "caller_phase \<Rightarrow> bool" where
  "caller_owes CUndone = True"
| "caller_owes CNilClient = True"
| "caller_owes (CReleased r) = True"
| "caller_owes CClosing = True"
| "caller_owes p = False"

definition owes :: "dial \<Rightarrow> bool" where
  "owes d \<longleftrightarrow> caller_owes (caller d) \<or> worker d = WSignal"

fun maint_owes :: "maintain_phase \<Rightarrow> bool" where
  "maint_owes (MRemoved now ks) = True"
| "maint_owes (MSwept now b n) = b"
| "maint_owes p = False"

text \<open>Some thread is between a change of the capacity and \<open>signalCapacityChange\<close>.\<close>

definition owed :: "psys \<Rightarrow> bool" where
  "owed s \<longleftrightarrow> (\<exists>d \<in> set (dials s). owes d) \<or> (\<exists>a \<in> set (attempts s). aphase a = AAppended)
     \<or> probe s = PRestored \<or> maint_owes (maint s)"

fun held :: "caller_phase \<Rightarrow> nat option" where
  "held (CSelect c) = Some c"
| "held (CNoConn c) = Some c"
| "held (CScale c) = Some c"
| "held (CRecheck c) = Some c"
| "held (CRecheckSize c) = Some c"
| "held (CWait c) = Some c"
| "held p = None"

definition waits :: "bool \<Rightarrow> Group \<Rightarrow> dial \<Rightarrow> bool" where
  "waits b g d \<longleftrightarrow> (\<forall>c. held (caller d) = Some c \<longrightarrow> c < nextWait g
     \<and> (waitCh g = Some c \<and> caller d \<noteq> CSelect c \<longrightarrow>
          b \<or> (full g \<and> (caller d \<noteq> CNoConn c \<longrightarrow> conns g \<noteq> []))))"

definition wait_inv :: "psys \<Rightarrow> bool" where
  "wait_inv s \<longleftrightarrow> (\<forall>c. waitCh (grp s) = Some c \<longrightarrow> c < nextWait (grp s))
     \<and> (\<forall>d \<in> set (dials s). waits (owed s) (grp s) d)"

text \<open>
  What an action may do to the wait channel and the capacity: close the channel, make a new one when
  there is none, or leave it, and then add capacity only if the signal is owed.
\<close>

definition gentle :: "Group \<Rightarrow> Group \<Rightarrow> bool" where
  "gentle g g' \<longleftrightarrow> waitCh g' = waitCh g \<and> nextWait g' = nextWait g
     \<and> (full g \<longrightarrow> full g') \<and> (conns g \<noteq> [] \<longrightarrow> conns g' \<noteq> [])"

definition calm :: "bool \<Rightarrow> Group \<Rightarrow> Group \<Rightarrow> bool" where
  "calm b g g' \<longleftrightarrow>
     (waitCh g' = None \<and> nextWait g' = nextWait g)
     \<or> (waitCh g = None \<and> waitCh g' = Some (nextWait g) \<and> nextWait g' = Suc (nextWait g))
     \<or> (b \<and> waitCh g' = waitCh g \<and> nextWait g' = nextWait g)
     \<or> gentle g g'"

lemma waits_mono:
  assumes "waits b g d" "calm b' g g'" "b \<longrightarrow> b' \<or> waitCh g' = None"
  shows "waits b' g' d"
  using assms unfolding waits_def calm_def gentle_def by (metis less_SucI less_irrefl option.sel option.distinct(1))

lemma wait_inv_step:
  assumes inv: "wait_inv s" and calm: "calm (owed s') (grp s) (grp s')"
    and owed: "owed s \<longrightarrow> owed s' \<or> waitCh (grp s') = None"
    and ds: "\<And>d. d \<in> set (dials s') \<Longrightarrow> d \<in> set (dials s) \<or> waits (owed s') (grp s') d"
  shows "wait_inv s'"
proof -
  have "\<forall>c. waitCh (grp s') = Some c \<longrightarrow> c < nextWait (grp s')"
    using inv calm by (auto simp: wait_inv_def calm_def gentle_def)
  moreover have "\<forall>d \<in> set (dials s). waits (owed s') (grp s') d"
    using inv waits_mono [OF _ calm owed] by (simp add: wait_inv_def)
  ultimately show ?thesis using ds by (auto simp: wait_inv_def)
qed

lemma gentle_refl [simp]: "gentle g g" by (simp add: gentle_def)

lemma gentle_trans: "\<lbrakk>gentle g h; gentle h j\<rbrakk> \<Longrightarrow> gentle g j" by (auto simp: gentle_def)

lemma gentle_calm: "gentle g g' \<Longrightarrow> calm b g g'" by (simp add: calm_def)

lemma signal_calm: "\<lbrakk>waitCh g' = None; nextWait g' = nextWait g\<rbrakk> \<Longrightarrow> calm b g g'" by (simp add: calm_def)

text \<open>Actions that leave connections and wait channel alone are gentle.\<close>

lemma gentle_same:
  assumes "conns g' = conns g" "waitCh g' = waitCh g" "nextWait g' = nextWait g"
    "\<And>k. k \<in> set (conns g) \<Longrightarrow> no_capacity (sc g k) \<Longrightarrow> no_capacity (sc g' k)"
  shows "gentle g g'"
  using assms by (auto simp: gentle_def full_def)

lemma gentle_upd_counters [simp]: "gentle g (upd_counters f g)"
  by (rule gentle_same) (simp_all add: upd_counters_def)

lemma gentle_startScale: "gentle g (snd (startScale g))"
  by (rule gentle_same) (simp_all add: startScale_def Let_def upd_counters_def)

lemma gentle_select: "selectConnWithCapacity g = (r, g1) \<Longrightarrow> gentle g g1"
  by (rule gentle_same)
     (auto simp: selectConnWithCapacity_def round_robin_def Let_def split: if_splits)

lemma gentle_scaleNeeded: "gentle g (snd (startScaleIfNeeded g))"
proof (cases "selectConnWithCapacity g")
  case (Pair r g1)
  then show ?thesis using gentle_select [OF Pair] gentle_trans gentle_startScale
    by (auto simp: startScaleIfNeeded_def split: option.splits)
qed

lemma gentle_headroom: "gentle g (snd (maybeScaleForHeadroom g))"
  using gentle_startScale by (simp add: maybeScaleForHeadroom_def Let_def)

lemma gentle_starvation: "gentle g (snd (logCapacityStarvation now g))"
  by (rule gentle_same) (simp_all add: logCapacityStarvation_def)

lemma gentle_upd_sc: "(\<And>c. no_capacity c \<Longrightarrow> no_capacity (f c)) \<Longrightarrow> gentle g (upd_sc k f g)"
  by (rule gentle_same) (auto simp: upd_sc_def)

lemma gentle_timeout: "gentle g (snd (recordDialTimeout now k g))"
  unfolding recordDialTimeout_def Let_def snd_conv by (rule gentle_upd_sc) (simp add: no_capacity_def)

lemma gentle_add_inflight: "0 \<le> n \<Longrightarrow> gentle g (add_inflight n k g)"
  unfolding add_inflight_def by (rule gentle_upd_sc) (auto simp: no_capacity_def)

lemma gentle_add_active: "0 \<le> n \<Longrightarrow> gentle g (add_active n k g)"
  unfolding add_active_def by (rule gentle_upd_sc) (auto simp: no_capacity_def)

lemma wait_add_inflight [simp]: "waitCh (add_inflight n k g) = waitCh g" "nextWait (add_inflight n k g) = nextWait g"
  "waitCh (add_active n k g) = waitCh g" "nextWait (add_active n k g) = nextWait g"
  by (simp_all add: add_inflight_def add_active_def upd_sc_def)

lemma signal_simps [simp]: "waitCh (signalCapacityChange g) = None" "nextWait (signalCapacityChange g) = nextWait g"
  by (simp_all add: signalCapacityChange_def)

lemma calm_signal [simp]: "calm b g (signalCapacityChange g)"
  by (simp add: calm_def)

lemma calm_refl [simp]: "calm b g g"
  by (simp add: gentle_calm)

lemma removeConn_calm: "gentle g h \<Longrightarrow> calm b g (removeConn k h)"
  by (auto simp: removeConn_def notifyMaintain_def signalCapacityChange_def close_sc_def upd_sc_def gentle_def
      intro: signal_calm gentle_calm)

lemma force_calm: "gentle g h \<Longrightarrow> calm b g (snd (maybeForceReconnect now k h))"
  by (auto simp: maybeForceReconnect_def upd_sc_def upd_counters_def signalCapacityChange_def gentle_def
      intro: signal_calm gentle_calm)

section \<open>The caller and the worker\<close>

text \<open>An action of a dial: what it does to the group, the signal it owes, and its own wait.\<close>

definition good_step :: "dial \<Rightarrow> Group \<Rightarrow> dial \<Rightarrow> Group \<Rightarrow> bool" where
  "good_step d g d' g' \<longleftrightarrow> calm (owes d') g g' \<and> (owes d \<longrightarrow> owes d' \<or> waitCh g' = None)"

definition good_wait :: "dial \<Rightarrow> Group \<Rightarrow> dial \<Rightarrow> Group \<Rightarrow> bool" where
  "good_wait d g d' g' \<longleftrightarrow>
     (\<forall>b b'. waits b g d \<and> calm b' g g' \<and> (b \<longrightarrow> b' \<or> waitCh g' = None) \<longrightarrow> waits b' g' d')"

lemma waits_none: "held (caller d) = None \<Longrightarrow> waits b g d"
  by (simp add: waits_def)

lemma waits_caller: "\<lbrakk>waits b g d; caller d' = caller d\<rbrakk> \<Longrightarrow> waits b g d'"
  by (simp add: waits_def)

lemma good_wait_same:
  assumes "held (caller d') = None \<or> caller d' = caller d"
  shows "good_wait d g d' g'"
  unfolding good_wait_def
proof (intro allI impI)
  fix b b' assume h: "waits b g d \<and> calm b' g g' \<and> (b \<longrightarrow> b' \<or> waitCh g' = None)"
  then have "waits b' g' d" using waits_mono by blast
  then show "waits b' g' d'" using assms waits_none waits_caller by blast
qed

text \<open>From one waiting phase to the next, the pool seen nonempty or unchanged.\<close>

lemma good_wait_next:
  assumes "held (caller d) = Some c" "held (caller d') = Some c" "gentle g g'"
    "caller d \<noteq> CSelect c" "caller d = CNoConn c \<longrightarrow> conns g \<noteq> []"
  shows "good_wait d g d' g'"
  using assms unfolding good_wait_def waits_def gentle_def by auto

lemma reserve_good:
  assumes ok: "reserving (caller d)" "worker d = WNone" and ch: "\<forall>c. waitCh g = Some c \<longrightarrow> c < nextWait g"
    and nn: "nonneg g" and step: "reserve_step now pick (caller d) d g = (d', g', n, p)"
  shows "good_step d g d' g' \<and> good_wait d g d' g'"
proof (cases "caller d")
  case CLoop
  obtain c g1 where w: "waitChannel g = (c, g1)" by fastforce
  then have eff: "d' = d\<lparr>caller := CSelect c\<rparr>" "g' = g1" using step CLoop by (auto simp: quiet_def)
  have "calm b g g1 \<and> c < nextWait g1" for b
    using w ch by (auto simp: waitChannel_def calm_def gentle_def split: option.splits)
  then show ?thesis using CLoop ok by (simp add: eff good_step_def good_wait_def waits_def owes_def)
next
  case (CSelect c)
  obtain r g1 where r: "selectConnWithCapacity g = (r, g1)" by fastforce
  note gentle_select [OF r]
  moreover have "good_wait d g d' g'"
  proof (cases r)
    case None
    then have "d' = d\<lparr>caller := CNoConn c\<rparr>" "g' = g" "full g"
      using step CSelect r select_None [OF nn] by (auto simp: quiet_def)
    then show ?thesis using CSelect by (simp add: good_wait_def waits_def)
  next
    case (Some k)
    then have "caller d' = CAdd" using step CSelect r by (auto simp: quiet_def)
    then show ?thesis by (intro good_wait_same) simp
  qed
  ultimately show ?thesis using step CSelect r ok
    by (auto simp: quiet_def good_step_def owes_def intro: gentle_calm split: option.splits)
next
  case CAdd
  then show ?thesis using step ok gentle_add_inflight [of 1]
    by (auto simp: quiet_def Let_def good_step_def owes_def intro!: gentle_calm good_wait_same)
next
  case (CCheck m)
  then show ?thesis using step ok
    by (auto simp: quiet_def good_step_def owes_def calm_def intro!: good_wait_same split: if_splits)
next
  case CUndone
  then show ?thesis using step ok
    by (auto simp: quiet_def good_step_def owes_def intro!: signal_calm good_wait_same)
next
  case (CNoConn c)
  show ?thesis
  proof (cases "conns g = []")
    case True
    then show ?thesis using step ok CNoConn
      by (auto simp: quiet_def good_step_def owes_def not_connected_def intro!: gentle_calm good_wait_same)
  next
    case False
    then show ?thesis using step ok CNoConn good_wait_next [of d c]
      by (auto simp: quiet_def good_step_def owes_def intro!: gentle_calm)
  qed
next
  case (CScale c)
  obtain m g1 where g1: "startScaleIfNeeded g = (m, g1)" by fastforce
  obtain w g2 where g2: "logCapacityStarvation now g1 = (w, g2)" by fastforce
  have "gentle g g2"
    using gentle_trans gentle_scaleNeeded [of g] gentle_starvation [of g1 now] g1 g2 by fastforce
  then show ?thesis using CScale step g1 g2 ok good_wait_next [of d c]
    by (auto simp: good_step_def owes_def intro!: gentle_calm)
next
  case (CRecheck c)
  obtain r g1 where r: "selectConnWithCapacity g = (r, g1)" by fastforce
  note gentle_select [OF r]
  then show ?thesis using CRecheck step r ok good_wait_next [of d c]
    by (cases r) (auto simp: quiet_def good_step_def owes_def intro: gentle_calm good_wait_same)
next
  case (CRecheckSize c)
  show ?thesis
  proof (cases "conns g = []")
    case True
    then show ?thesis using step ok CRecheckSize
      by (auto simp: quiet_def good_step_def owes_def not_connected_def intro!: gentle_calm good_wait_same)
  next
    case False
    then show ?thesis using step ok CRecheckSize good_wait_next [of d c]
      by (auto simp: quiet_def good_step_def owes_def intro!: gentle_calm)
  qed
next
  case (CWait c)
  then show ?thesis using step ok
    by (auto simp: quiet_def good_step_def owes_def fail_dial_def intro!: gentle_calm good_wait_same split: if_splits)
qed (use ok in \<open>simp_all add: reserving_def\<close>)

lemma dial_good:
  assumes nr: "\<not> reserving (caller d)" and ok: "dial_ok d"
    and step: "dial_step now (caller d) d g = (d', g', n, p)"
  shows "good_step d g d' g' \<and> good_wait d g d' g'"
proof (cases "caller d")
  case CReserved
  let ?g0 = "upd_counters (\<lambda>t. t\<lparr>DialAttempts := DialAttempts t + 1\<rparr>) g"
  obtain m g1 where g1: "maybeScaleForHeadroom ?g0 = (m, g1)" by fastforce
  have "gentle ?g0 g1" using gentle_headroom [of ?g0] g1 by simp
  then have gt: "gentle g g1" by (rule gentle_trans [OF gentle_upd_counters])
  have "worker d = WNone" using ok CReserved by (simp add: dial_ok_def)
  moreover have "calm True g (add_inflight (-1) (dconn d) g1)" using gt by (simp add: calm_def gentle_def)
  ultimately show ?thesis using CReserved step g1 gt
    by (cases "hasClient (sc g1 (dconn d))")
       (auto simp: good_step_def owes_def intro: gentle_calm intro!: good_wait_same)
next
  case CRunning
  then show ?thesis using step
    by (auto simp: quiet_def good_step_def owes_def intro!: gentle_calm gentle_same good_wait_same split: if_splits)
next
  case CCtxDone
  let ?g0 = "upd_counters (\<lambda>t. t\<lparr>DialTimeouts := DialTimeouts t + 1\<rparr>) g"
  obtain m g1 where g1: "recordDialTimeout now (dconn d) ?g0 = (m, g1)" by fastforce
  have "gentle ?g0 g1" using gentle_timeout [of ?g0 now "dconn d"] g1 by simp
  then have gt: "gentle g g1" by (rule gentle_trans [OF gentle_upd_counters])
  note f = force_calm [OF gt, of _ now "dconn d"]
  show ?thesis
  proof (cases "maybeForceReconnect now (dconn d) g1")
    case (Pair q g2)
    then show ?thesis using CCtxDone step g1 gt f
      by (auto simp: quiet_def good_step_def owes_def fail_dial_def Let_def intro!: gentle_calm good_wait_same
          split: if_splits)
  qed
next
  case (CReceived r)
  then show ?thesis using step
    by (auto simp: quiet_def good_step_def owes_def calm_def intro!: good_wait_same)
next
  case (COutcome r)
  have ok': "worker d \<noteq> WSignal" using ok COutcome by (simp add: dial_ok_def)
  show ?thesis
  proof (cases r)
    case None
    then show ?thesis using COutcome step ok' gentle_trans [OF gentle_add_active gentle_upd_counters]
      by (auto simp: quiet_def good_step_def owes_def intro!: gentle_calm good_wait_same)
  next
    case (Some e)
    have c: "calm b g (removeConn (dconn d) (upd_counters f g))" for b f by (rule removeConn_calm) simp
    show ?thesis using Some COutcome step ok' c
      by (cases e) (auto simp: quiet_def good_step_def owes_def fail_dial_def Let_def
          intro: gentle_calm intro!: good_wait_same split: if_splits)
  qed
qed (use nr ok step in \<open>auto simp: quiet_def good_step_def owes_def not_connected_def reserving_def dial_ok_def
      intro!: good_wait_same\<close>)

lemma caller_good:
  assumes "dial_ok d" "\<forall>c. waitCh g = Some c \<longrightarrow> c < nextWait g" "nonneg g"
    "caller_step now pick d g = (d', g', n, p)"
  shows "good_step d g d' g' \<and> good_wait d g d' g'"
proof (cases "reserving (caller d)")
  case True
  then have "worker d = WNone" using assms(1)
    by (cases "caller d") (simp_all add: dial_ok_def reserving_def)
  then show ?thesis using reserve_good [OF True] assms True by (simp add: caller_step_def)
next
  case False
  then show ?thesis using dial_good assms by (simp add: caller_step_def)
qed

lemma worker_good:
  assumes "dial_ok d" "worker_step r d g = (d', g')"
  shows "good_step d g d' g' \<and> caller d' = caller d"
proof (cases "worker d")
  case (WLate res t)
  let ?f = "if res = None then (\<lambda>t. t\<lparr>LateDialSuccesses := LateDialSuccesses t + 1\<rparr>)
    else (\<lambda>t. t\<lparr>LateDialFailures := LateDialFailures t + 1\<rparr>)"
  have "gentle g g'"
    using assms(2) WLate by (auto simp: worker_step_def Let_def upd_counters_def intro!: gentle_same split: if_splits)
  then show ?thesis using assms(2) WLate
    by (auto simp: worker_step_def Let_def good_step_def owes_def intro!: gentle_calm)
next
  case WRelease
  have "\<not> caller_owes (caller d)" using assms(1) WRelease by (cases "caller d") (auto simp: dial_ok_def)
  then show ?thesis using assms(2) WRelease by (auto simp: worker_step_def good_step_def owes_def calm_def)
next
  case WSignal
  then show ?thesis using assms(2) by (auto simp: worker_step_def good_step_def intro!: signal_calm)
qed (use assms(2) in \<open>auto simp: worker_step_def good_step_def owes_def intro!: gentle_calm split: if_splits\<close>)

lemma rendezvous_good: "good_step d g (rendezvous d) g"
  by (auto simp: rendezvous_def good_step_def owes_def intro!: gentle_calm split: caller_phase.splits worker_phase.splits)

lemma rendezvous_held: "held (caller (rendezvous d)) = None \<or> caller (rendezvous d) = caller d"
  by (auto simp: rendezvous_def split: caller_phase.splits worker_phase.splits)

lemma tracked_good:
  "tracked_Close d g = (d', g') \<Longrightarrow> good_step d g d' g' \<and> (held (caller d') = None \<or> caller d' = caller d)"
  by (auto simp: tracked_Close_def good_step_def owes_def calm_def split: if_splits)

section \<open>The system\<close>

lemma update_survives: "x \<in> set xs \<Longrightarrow> x \<in> set (xs[i := y]) \<or> x = xs ! i"
  by (metis in_set_conv_nth length_list_update nth_list_update_neq)

lemma owed_dial:
  assumes "i < length (dials s)" "good_step (dials s ! i) (grp s) d g"
  shows "owes d \<Longrightarrow> owed (put_dial i d g s)"
    and "owed s \<Longrightarrow> owed (put_dial i d g s) \<or> waitCh g = None"
proof -
  show new: "owed (put_dial i d g s)" if "owes d"
    using that assms(1) set_update_memI [of i "dials s" d] by (auto simp: owed_def put_dial_def)
  assume "owed s"
  then consider (other) "owed (s\<lparr>dials := []\<rparr>)" | (d) e where "e \<in> set (dials s)" "owes e"
    by (auto simp: owed_def)
  then show "owed (put_dial i d g s) \<or> waitCh g = None"
  proof cases
    case other
    then show ?thesis by (auto simp: owed_def put_dial_def)
  next
    case d
    from update_survives [OF d(1), of i] show ?thesis
    proof
      assume "e = dials s ! i"
      then show ?thesis using assms(2) d new by (auto simp: good_step_def)
    qed (use d in \<open>auto simp: owed_def put_dial_def\<close>)
  qed
qed

lemma calm_owed: "\<lbrakk>calm b g g'; b \<longrightarrow> b'\<rbrakk> \<Longrightarrow> calm b' g g'"
  by (auto simp: calm_def)

lemma wait_inv_dial:
  assumes inv: "wait_inv s" and i: "i < length (dials s)"
    and step: "good_step (dials s ! i) (grp s) d g" and w: "good_wait (dials s ! i) (grp s) d g"
  shows "wait_inv (put_dial i d g s)"
proof -
  let ?s = "put_dial i d g s"
  have grp: "grp ?s = g" by (simp add: put_dial_def)
  have calm: "calm (owed ?s) (grp s) g"
    using step calm_owed owed_dial(1) [OF i step] by (auto simp: good_step_def)
  have owed: "owed s \<longrightarrow> owed ?s \<or> waitCh g = None" using owed_dial(2) [OF i step] by blast
  have "waits (owed s) (grp s) (dials s ! i)" using inv i by (simp add: wait_inv_def)
  then have "waits (owed ?s) g d" using w calm owed unfolding good_wait_def by blast
  then show ?thesis using calm owed
    by (intro wait_inv_step [OF inv]) (auto simp: grp, auto simp: put_dial_def dest!: in_set_update)
qed

lemma wait_inv_other:
  assumes "wait_inv s" "dials s' = dials s" "calm (owed s') (grp s) (grp s')"
    "owed s \<longrightarrow> owed s' \<or> waitCh (grp s') = None"
  shows "wait_inv s'"
  using assms by (intro wait_inv_step [OF assms(1)]) auto

text \<open>The background goroutines.\<close>

lemma attempt_good:
  assumes step: "attempt_step ok now delay a g = (a', g')"
    and fresh: "\<forall>k \<in> set (conns g). k \<le> nextSSHConnID g"
  shows "calm (aphase a' = AAppended) g g' \<and> (aphase a = AAppended \<longrightarrow> waitCh g' = None)"
proof (cases "aphase a")
  case AConnecting
  then show ?thesis using step fresh
    by (auto simp: attempt_step_def conn_created_def replenish_failed_def recordReplenishFailure_def
        advanceInstance_def upd_counters_def Let_def intro!: gentle_calm gentle_same split: if_splits)
next
  case (AConnected k)
  then show ?thesis using step by (auto simp: attempt_step_def append_conn_def calm_def)
next
  case AAppended
  then show ?thesis using step
    by (auto simp: attempt_step_def announce_conn_def notifyMaintain_def recordReplenishSuccess_def upd_counters_def
        intro!: signal_calm split: if_splits)
qed (use step in \<open>auto simp: attempt_step_def scale_finished_def finishReplenish_def
      intro!: gentle_calm gentle_same split: if_splits\<close>)

lemma probe_good:
  "probe_step dead p g = (p', g') \<Longrightarrow> calm (p' = PRestored) g g' \<and> (p = PRestored \<longrightarrow> waitCh g' = None)"
proof (cases p)
  case (PProbing k)
  assume "probe_step dead p g = (p', g')"
  then show ?thesis using PProbing
    by (auto simp: probe_step_def removeConn_calm upd_sc_def calm_def [of True] split: if_splits)
next
  case PRestored
  assume "probe_step dead p g = (p', g')"
  then show ?thesis using PRestored by (auto simp: probe_step_def intro!: signal_calm)
qed (auto simp: probe_step_def intro!: gentle_calm gentle_same)

lemma close_all_same [simp]:
  "waitCh (close_all ks g) = waitCh g" "nextWait (close_all ks g) = nextWait g" "conns (close_all ks g) = conns g"
  by (induction ks arbitrary: g) (simp_all add: close_sc_def upd_sc_def)

lemma no_capacity_close_all [simp]: "no_capacity (sc (close_all ks g) k) = no_capacity (sc g k)"
  by (induction ks arbitrary: g) (auto simp: close_sc_def upd_sc_def no_capacity_def)

lemma maintain_good:
  assumes "maintain_step i p g = (p', g', n)"
  shows "calm (maint_owes p') g g' \<and> (maint_owes p \<longrightarrow> waitCh g' = None)"
proof (cases p)
  case (MSweep now)
  let ?dead = "\<lambda>k. k \<in> set (mdead i)"
  obtain b m h where sw: "sweep_dead ?dead (g\<lparr>lastMaintainTime := Some now\<rparr>) = (b, m, h)" by (metis prod_cases3)
  then have h: "b = (filter ?dead (conns g) \<noteq> [])" "conns h = filter (\<lambda>k. \<not> ?dead k) (conns g)"
    "waitCh h = waitCh g" "nextWait h = nextWait g" "\<And>k. no_capacity (sc h k) = no_capacity (sc g k)"
    by (auto simp: sweep_dead_def Let_def)
  have "calm b g h"
  proof (cases b)
    case False
    then have "filter (\<lambda>k. \<not> ?dead k) (conns g) = conns g" using h(1) by (auto simp: filter_empty_conv filter_id_conv)
    then show ?thesis using h by (auto intro!: gentle_calm gentle_same)
  qed (use h in \<open>simp add: calm_def\<close>)
  then show ?thesis using assms MSweep sw by (auto simp: maintain_step_def)
next
  case (MCounted now m)
  then show ?thesis using assms
    by (auto simp: maintain_step_def maintain_replenish_def reserveReplenish_def Let_def
        intro!: gentle_calm gentle_same split: if_splits)
next
  case (MProbing now)
  then show ?thesis using assms
    by (auto simp: maintain_step_def remove_failed_def calm_def [of True] split: if_splits)
next
  case (MRemoved now ks)
  then show ?thesis using assms
    by (auto simp: maintain_step_def announce_conn_def notifyMaintain_def intro!: signal_calm)
next
  case (MSwept now c m)
  then show ?thesis using assms by (auto simp: maintain_step_def)
qed (use assms in \<open>auto simp: maintain_step_def resetReplenishBackoff_def
      intro!: gentle_calm gentle_same split: if_splits\<close>)

lemma reserve_no_probe: "reserve_step now pick ph d g = (d', g', n, p) \<Longrightarrow> p = None"
  by (cases "(now, pick, ph, d, g)" rule: reserve_step.cases)
     (auto simp: quiet_def Let_def split: if_splits prod.splits option.splits)

lemma caller_probes: "caller_step now pick d g = (d', g', n, Some k) \<Longrightarrow> waitCh g' = None"
proof (cases "reserving (caller d)")
  case True
  assume "caller_step now pick d g = (d', g', n, Some k)"
  then show ?thesis using True reserve_no_probe by (fastforce simp: caller_step_def)
next
  case False
  assume "caller_step now pick d g = (d', g', n, Some k)"
  then have "dial_step now (caller d) d g = (d', g', n, Some k)" using False by (simp add: caller_step_def)
  then show ?thesis
    by (cases "(now, caller d, d, g)" rule: dial_step.cases)
       (auto simp: quiet_def maybeForceReconnect_def Let_def split: if_splits prod.splits)
qed

lemma wait_inv_caller:
  assumes inv: "wait_inv s" and pinv: "pool_inv s" and i: "i < length (dials s)"
  shows "wait_inv (pool_move (CallerMove i now pick) s)"
proof -
  obtain d g n p where st: "caller_step now pick (dials s ! i) (grp s) = (d, g, n, p)"
    by (metis prod_cases4)
  let ?s1 = "spawn_attempts n ScaleUp (currentInstance g) (put_dial i d g s)"
  have ok: "dial_ok (dials s ! i)" using pinv i by (simp add: pool_inv_def)
  have ch: "\<forall>c. waitCh (grp s) = Some c \<longrightarrow> c < nextWait (grp s)" using inv by (simp add: wait_inv_def)
  have "good_step (dials s ! i) (grp s) d g \<and> good_wait (dials s ! i) (grp s) d g"
    by (rule caller_good [OF ok ch nonneg_inv [OF pinv] st])
  then have "wait_inv (put_dial i d g s)" using wait_inv_dial [OF inv i] by blast
  moreover have "owed ?s1 = owed (put_dial i d g s)" by (auto simp: owed_def spawn_attempts_def)
  ultimately have s1: "wait_inv ?s1" by (simp add: wait_inv_def spawn_attempts_def)
  show ?thesis
  proof (cases p)
    case None
    then show ?thesis using s1 i st by simp
  next
    case (Some k)
    have "waitCh g = None" using caller_probes [OF st [unfolded Some]] .
    then have "wait_inv (?s1\<lparr>probe := PProbing k\<rparr>)" using s1
      by (simp add: wait_inv_def waits_def spawn_attempts_def put_dial_def)
    then show ?thesis using i st Some by simp
  qed
qed

lemma wait_inv_worker:
  assumes inv: "wait_inv s" and pinv: "pool_inv s" and i: "i < length (dials s)"
  shows "wait_inv (pool_move (WorkerMove i r) s)"
proof -
  obtain d g where st: "worker_step r (dials s ! i) (grp s) = (d, g)" by fastforce
  have "dial_ok (dials s ! i)" using pinv i by (simp add: pool_inv_def)
  then have "wait_inv (put_dial i d g s)"
    using worker_good [OF _ st] by (intro wait_inv_dial [OF inv i] good_wait_same) auto
  then show ?thesis using i st by simp
qed

lemma owed_attempt:
  assumes "owed s" "aphase (attempts s ! i) = AAppended \<longrightarrow> waitCh g = None"
  shows "owed (s\<lparr>attempts := (attempts s)[i := a], grp := g\<rparr>) \<or> waitCh g = None"
proof -
  consider "owed (s\<lparr>attempts := []\<rparr>)" | b where "b \<in> set (attempts s)" "aphase b = AAppended"
    using assms(1) by (auto simp: owed_def)
  then show ?thesis
  proof cases
    case 1
    then show ?thesis by (auto simp: owed_def)
  next
    case 2
    then show ?thesis using update_survives [OF 2(1), of i a] assms(2) by (auto simp: owed_def)
  qed
qed

lemma wait_inv_attempt:
  assumes inv: "wait_inv s" and pinv: "pool_inv s" and i: "i < length (attempts s)"
  shows "wait_inv (pool_move (AttemptMove i ok now delay) s)"
proof -
  obtain a g where st: "attempt_step ok now delay (attempts s ! i) (grp s) = (a, g)" by fastforce
  let ?s = "s\<lparr>attempts := (attempts s)[i := a], grp := g\<rparr>"
  have good: "calm (aphase a = AAppended) (grp s) g \<and> (aphase (attempts s ! i) = AAppended \<longrightarrow> waitCh g = None)"
    by (rule attempt_good [OF st]) (use pinv in \<open>simp add: pool_inv_def ids_ok_def\<close>)
  have "a \<in> set ((attempts s)[i := a])" by (rule set_update_memI [OF i])
  then have "calm (owed ?s) (grp s) g"
    by (intro calm_owed [OF conjunct1 [OF good]]) (auto simp: owed_def)
  then have "wait_inv ?s" using owed_attempt good by (intro wait_inv_other [OF inv]) auto
  then show ?thesis using i st by simp
qed

lemma wait_inv_probe:
  assumes inv: "wait_inv s"
  shows "wait_inv (pool_move (ProbeMove dead) s)"
proof -
  obtain p g where st: "probe_step dead (probe s) (grp s) = (p, g)" by fastforce
  let ?s = "s\<lparr>probe := p, grp := g\<rparr>"
  note good = probe_good [OF st]
  have "calm (owed ?s) (grp s) g" by (rule calm_owed [OF conjunct1 [OF good]]) (simp add: owed_def)
  moreover have "owed s \<longrightarrow> owed ?s \<or> waitCh g = None" using good by (auto simp: owed_def)
  ultimately have "wait_inv ?s" by (intro wait_inv_other [OF inv]) simp_all
  then show ?thesis using st by simp
qed

lemma wait_inv_maintain:
  assumes inv: "wait_inv s"
  shows "wait_inv (pool_move (Maintain i) s)"
proof -
  obtain p g n where st: "maintain_step i (maint s) (grp s) = (p, g, n)" by (metis prod_cases3)
  note good = maintain_good [OF st]
  let ?s = "\<lambda>w. spawn_attempts n Replenish (currentInstance g) (s\<lparr>maint := p, grp := g, wakes := w\<rparr>)"
  have "wait_inv (?s w)" for w
  proof -
    have "calm (owed (?s w)) (grp s) g"
      by (rule calm_owed [OF conjunct1 [OF good]]) (simp add: owed_def spawn_attempts_def)
    moreover have "owed s \<longrightarrow> owed (?s w) \<or> waitCh g = None" using good by (auto simp: owed_def spawn_attempts_def)
    ultimately show ?thesis by (intro wait_inv_other [OF inv]) (simp_all add: spawn_attempts_def)
  qed
  then show ?thesis using st by simp
qed

lemma wait_inv_keepalive:
  assumes "wait_inv s"
  shows "wait_inv (pool_move (KeepaliveMove k t) s)"
proof -
  have "gentle (grp s) (upd_sc k (\<lambda>c. snd (keepalive_tick t c)) (grp s))"
    by (rule gentle_upd_sc) (simp add: keepalive_tick_def no_capacity_def Let_def)
  then show ?thesis by (auto intro!: wait_inv_other [OF assms] gentle_calm simp: owed_def)
qed

lemma wait_inv_close:
  assumes "wait_inv s"
  shows "wait_inv (pool_move CloseGroup s)"
proof -
  have "waitCh (close_group (grp s)) = None" "nextWait (close_group (grp s)) = nextWait (grp s)"
    by (simp_all add: close_group_def cleanup_def)
  then show ?thesis by (auto intro!: wait_inv_other [OF assms] signal_calm)
qed

lemma wait_inv_move:
  assumes inv: "wait_inv s" and pinv: "pool_inv s"
  shows "wait_inv (pool_move m s)"
proof (cases m)
  case NewDial
  have "owed (pool_move m s) = owed s" by (auto simp: NewDial owed_def new_dial_def owes_def)
  then show ?thesis using inv by (auto simp: NewDial wait_inv_def new_dial_def waits_def)
next
  case (EndCtx i c)
  then show ?thesis using inv
    by (auto simp: end_ctx_def good_step_def owes_def intro!: wait_inv_dial gentle_calm good_wait_same)
next
  case (CallerMove i now pick)
  then show ?thesis using inv wait_inv_caller [OF inv pinv] by (cases "i < length (dials s)") auto
next
  case (WorkerMove i r)
  then show ?thesis using inv wait_inv_worker [OF inv pinv] by (cases "i < length (dials s)") auto
next
  case (Rendezvous i)
  then show ?thesis using inv rendezvous_good rendezvous_held
    by (auto intro!: wait_inv_dial good_wait_same)
next
  case (CloseConn i)
  then show ?thesis using inv tracked_good
    by (fastforce intro!: wait_inv_dial good_wait_same split: prod.splits)
next
  case (AttemptMove i ok now delay)
  then show ?thesis using inv wait_inv_attempt [OF inv pinv] by (cases "i < length (attempts s)") auto
next
  case MaintainExit
  then show ?thesis using inv by (auto simp: wait_inv_def owed_def)
qed (simp_all only: wait_inv_probe [OF inv] wait_inv_maintain [OF inv] wait_inv_keepalive [OF inv]
       wait_inv_close [OF inv])

section \<open>One probe at a time\<close>

text \<open>
  The probe of a forced reconnect: its goroutine runs exactly while the flag is set, so no second one is
  started and the system needs one place for it.
\<close>

definition probe_ok :: "psys \<Rightarrow> bool" where
  "probe_ok s \<longleftrightarrow> (forcedReconnectInProgress (grp s) \<longleftrightarrow> probe s \<noteq> PNone)"

lemma removeConn_forced [simp]: "forcedReconnectInProgress (removeConn k g) = forcedReconnectInProgress g"
  by (simp add: removeConn_def notifyMaintain_def signalCapacityChange_def close_sc_def upd_sc_def)

lemma startScale_forced [simp]: "forcedReconnectInProgress (snd (startScale g)) = forcedReconnectInProgress g"
  by (simp add: startScale_def Let_def upd_counters_def)

lemma select_forced: "selectConnWithCapacity g = (r, g1) \<Longrightarrow> forcedReconnectInProgress g1 = forcedReconnectInProgress g"
  by (auto simp: selectConnWithCapacity_def round_robin_def Let_def split: if_splits)

lemma scale_forced:
  "startScaleIfNeeded g = (n, g1) \<Longrightarrow> forcedReconnectInProgress g1 = forcedReconnectInProgress g"
  "maybeScaleForHeadroom g = (n, g1) \<Longrightarrow> forcedReconnectInProgress g1 = forcedReconnectInProgress g"
proof -
  have st: "forcedReconnectInProgress h1 = forcedReconnectInProgress h" if "startScale h = (n, h1)" for h h1
    using startScale_forced [of h] that by simp
  show "startScaleIfNeeded g = (n, g1) \<Longrightarrow> forcedReconnectInProgress g1 = forcedReconnectInProgress g"
    by (auto simp: startScaleIfNeeded_def split: prod.splits option.splits dest!: st select_forced)
  show "maybeScaleForHeadroom g = (n, g1) \<Longrightarrow> forcedReconnectInProgress g1 = forcedReconnectInProgress g"
    by (auto simp: maybeScaleForHeadroom_def Let_def split: if_splits dest!: st)
qed

lemma starvation_forced:
  "logCapacityStarvation now g = (w, g1) \<Longrightarrow> forcedReconnectInProgress g1 = forcedReconnectInProgress g"
  by (auto simp: logCapacityStarvation_def split: if_splits)

lemma reserve_forced:
  "reserve_step now pick ph d g = (d', g', n, p) \<Longrightarrow> forcedReconnectInProgress g' = forcedReconnectInProgress g"
  by (cases "(now, pick, ph, d, g)" rule: reserve_step.cases)
     (auto simp: quiet_def waitChannel_def add_inflight_def upd_sc_def signalCapacityChange_def upd_counters_def
       Let_def dest: select_forced scale_forced starvation_forced split: if_splits prod.splits option.splits)

lemma caller_forced:
  assumes "caller_step now pick d g = (d', g', n, p)"
  shows "forcedReconnectInProgress g' \<longleftrightarrow> forcedReconnectInProgress g \<or> p \<noteq> None"
    and "p \<noteq> None \<longrightarrow> \<not> forcedReconnectInProgress g"
proof -
  have "(forcedReconnectInProgress g' \<longleftrightarrow> forcedReconnectInProgress g \<or> p \<noteq> None)
    \<and> (p \<noteq> None \<longrightarrow> \<not> forcedReconnectInProgress g)"
  proof (cases "reserving (caller d)")
    case True
    then show ?thesis using assms reserve_forced reserve_no_probe by (auto simp: caller_step_def)
  next
    case False
    then have "dial_step now (caller d) d g = (d', g', n, p)" using assms by (simp add: caller_step_def)
    then show ?thesis
      by (cases "(now, caller d, d, g)" rule: dial_step.cases)
         (auto simp: quiet_def maybeForceReconnect_def recordDialTimeout_def upd_sc_def upd_counters_def
           add_inflight_def add_active_def signalCapacityChange_def Let_def
           dest!: scale_forced split: if_splits prod.splits)
  qed
  then show "forcedReconnectInProgress g' \<longleftrightarrow> forcedReconnectInProgress g \<or> p \<noteq> None"
    "p \<noteq> None \<longrightarrow> \<not> forcedReconnectInProgress g" by blast+
qed

lemma close_all_forced [simp]: "forcedReconnectInProgress (close_all ks g) = forcedReconnectInProgress g"
  by (induction ks arbitrary: g) (simp_all add: close_sc_def upd_sc_def)

lemma worker_forced: "worker_step r d g = (d', g') \<Longrightarrow> forcedReconnectInProgress g' = forcedReconnectInProgress g"
  by (cases "worker d") (auto simp: worker_step_def upd_counters_def add_inflight_def upd_sc_def
      signalCapacityChange_def Let_def split: if_splits)

lemma attempt_forced:
  "attempt_step ok now delay a g = (a', g') \<Longrightarrow> forcedReconnectInProgress g' = forcedReconnectInProgress g"
  by (auto simp: attempt_step_def conn_created_def replenish_failed_def recordReplenishFailure_def
      recordReplenishSuccess_def advanceInstance_def scale_finished_def finishReplenish_def append_conn_def
      announce_conn_def notifyMaintain_def signalCapacityChange_def upd_counters_def Let_def
      split: attempt_phase.splits if_splits)

lemma maintain_forced:
  "maintain_step i p g = (p', g', n) \<Longrightarrow> forcedReconnectInProgress g' = forcedReconnectInProgress g"
  by (auto simp: maintain_step_def remove_failed_def sweep_dead_def maintain_replenish_def reserveReplenish_def
      resetReplenishBackoff_def announce_conn_def notifyMaintain_def signalCapacityChange_def Let_def
      split: maintain_phase.splits if_splits)

lemma probe_ok_move: "probe_ok s \<Longrightarrow> probe_ok (pool_move m s)"
proof (cases m)
  case (CallerMove i now pick)
  assume ok: "probe_ok s"
  obtain d g n p where st: "caller_step now pick (dials s ! i) (grp s) = (d, g, n, p)" by (metis prod_cases4)
  show ?thesis using ok caller_forced [OF st] CallerMove st
    by (cases p) (auto simp: probe_ok_def spawn_attempts_def put_dial_def)
next
  case (ProbeMove dead)
  assume "probe_ok s"
  then show ?thesis using ProbeMove
    by (cases "probe s") (auto simp: probe_ok_def probe_step_def upd_sc_def signalCapacityChange_def)
next
  case (Maintain i)
  assume "probe_ok s"
  then show ?thesis using Maintain maintain_forced
    by (auto simp: probe_ok_def spawn_attempts_def split: prod.splits)
next
  case (WorkerMove i r)
  assume "probe_ok s"
  then show ?thesis using WorkerMove worker_forced by (auto simp: probe_ok_def put_dial_def split: prod.splits)
next
  case (AttemptMove i ok now delay)
  assume "probe_ok s"
  then show ?thesis using AttemptMove attempt_forced by (auto simp: probe_ok_def split: prod.splits)
qed (auto simp: probe_ok_def put_dial_def tracked_Close_def add_active_def upd_sc_def close_group_def cleanup_def
     signalCapacityChange_def)

lemma one_probe: "probe_ok (pool_run ms (pool_start (connected name up t att)))"
proof (rule pool_run_induct [where P = probe_ok])
  show "probe_ok (pool_start (connected name up t att))"
    using connected_clean(1) [of name up t att] by (simp add: probe_ok_def pool_start_def fresh_group_def)
qed (rule probe_ok_move)

section \<open>No lost wake-up\<close>

lemma wait_inv_run:
  "wait_inv (pool_run ms (pool_start (connected name up t att)))
   \<and> pool_inv (pool_run ms (pool_start (connected name up t att)))"
proof (rule pool_run_induct [where P = "\<lambda>s. wait_inv s \<and> pool_inv s"])
  show "wait_inv (pool_start (connected name up t att)) \<and> pool_inv (pool_start (connected name up t att))"
    using connected_clean(1) [of name up t att] pool_inv_start
    by (simp add: wait_inv_def pool_start_def fresh_group_def)
qed (use wait_inv_move pool_inv_move in blast)

text \<open>
  C15. No dial misses a wake-up.  Whenever a dial sleeps on a wait channel that is still open, and no
  thread is between a change of the capacity and the signal that follows it, the pool has connections
  and none of them can take a channel.  So a dial that could proceed is always woken.
\<close>

theorem no_lost_wakeup:
  "let s = pool_run ms (pool_start (connected name up t att)) in
   \<forall>d \<in> set (dials s). \<forall>c. caller d = CWait c \<and> \<not> signalled c (grp s) \<and> \<not> owed s \<longrightarrow>
     conns (grp s) \<noteq> [] \<and> (\<forall>k \<in> set (conns (grp s)). no_capacity (sc (grp s) k))"
  using wait_inv_run [of ms name up t att]
  by (auto simp: Let_def wait_inv_def waits_def signalled_def full_def)

definition first_only :: attempts where
  "first_only a i j = (if j = 0 then None else Some TimeoutError)"

text \<open>Four dials reserve the slots of the only connection, and a fifth waits.\<close>

definition five_dials :: "pmove list" where
  "five_dials = replicate 5 NewDial
     @ concat (map (\<lambda>i. replicate 4 (CallerMove i 0 False)) [0, 1, 2, 3])
     @ replicate 6 (CallerMove 4 0 False)"

lemma five_dials_wait:
  "let s = pool_run five_dials (pool_start (connected ''prod'' two_instances 0 first_only)) in
   length (dials s) = 5 \<and> caller (dials s ! 4) = CWait 0 \<and> waitCh (grp s) = Some 0 \<and> \<not> owed s"
  by code_simp

theorem no_lost_wakeup_witness:
  "let s = pool_run five_dials (pool_start (connected ''prod'' two_instances 0 first_only)) in
   caller (dials s ! 4) = CWait 0 \<and> (\<forall>k \<in> set (conns (grp s)). no_capacity (sc (grp s) k))"
  using no_lost_wakeup [of five_dials "''prod''" two_instances 0 first_only] five_dials_wait
  by (auto simp: Let_def signalled_def)

end
