(* ===== verification/PoolSize.thy ===== *)
theory PoolSize
  imports PoolWait
begin

text \<open>
  How large the pool of an upstream gets, and three behaviours of the concurrent code that its limits
  and its shutdown do not exclude.
\<close>

section \<open>Counting attempts\<close>

definition count :: "(conn_attempt \<Rightarrow> bool) \<Rightarrow> conn_attempt list \<Rightarrow> int" where
  "count P as = int (length (filter P as))"

lemma count_nonneg [simp]: "0 \<le> count P as"
  by (simp add: count_def)

lemma count_append [simp]: "count P (as @ bs) = count P as + count P bs"
  by (simp add: count_def)

lemma count_replicate [simp]: "count P (replicate n a) = (if P a then int n else 0)"
  by (simp add: count_def)

lemma count_update:
  "i < length as \<Longrightarrow> count P (as[i := a]) = count P as - of_bool (P (as ! i)) + of_bool (P a)"
  using total_update [of i as "\<lambda>a. of_bool (P a)" a] by (simp add: count_def total_count)

lemma count_mono: "(\<And>a. P a \<Longrightarrow> Q a) \<Longrightarrow> count P as \<le> count Q as"
  by (induction as) (auto simp: count_def)

definition running :: "attempt_kind \<Rightarrow> conn_attempt \<Rightarrow> bool" where
  "running k a \<longleftrightarrow> kind a = k \<and> aphase a \<noteq> ADone"

text \<open>Attempts that may still add a connection.\<close>

fun before_append :: "attempt_phase \<Rightarrow> bool" where
  "before_append AConnecting = True"
| "before_append (AConnected k) = True"
| "before_append p = False"

definition adding :: "attempt_kind \<Rightarrow> conn_attempt \<Rightarrow> bool" where
  "adding k a \<longleftrightarrow> kind a = k \<and> before_append (aphase a)"

lemma adding_running: "count (adding k) as \<le> count (running k) as"
  by (rule count_mono) (auto simp: adding_def running_def)

text \<open>The connections of the pool and those that attempts may still add.\<close>

definition potential :: "psys \<Rightarrow> int" where
  "potential s = int (length (conns (grp s))) + count (adding ScaleUp) (attempts s)
     + count (adding Replenish) (attempts s)"

text \<open>The maintenance loop has counted fewer connections than the target and not yet acted on it.\<close>

fun short :: "maintain_phase \<Rightarrow> bool" where
  "short (MSwept now b n) = (n < defaultPoolSize)"
| "short (MCounted now n) = (n < defaultPoolSize)"
| "short p = False"

definition size_inv :: "psys \<Rightarrow> bool" where
  "size_inv s \<longleftrightarrow>
     scaleInFlight (grp s) = count (running ScaleUp) (attempts s) \<and> scaleInFlight (grp s) \<le> scaleParallelism
     \<and> 0 \<le> replenishInFlight (grp s) \<and> replenishInFlight (grp s) \<le> replenishParallelism
     \<and> count (running Replenish) (attempts s) \<le> replenishInFlight (grp s) + 2 * int (wakes s)
     \<and> potential s \<le> 16 + 2 * int (wakes s)
     \<and> (short (maint s) \<longrightarrow> potential s \<le> 14 + 2 * int (wakes s))"

text \<open>Actions that neither start attempts nor add connections.\<close>

definition shrinks :: "Group \<Rightarrow> Group \<Rightarrow> bool" where
  "shrinks g g' \<longleftrightarrow> length (conns g') \<le> length (conns g) \<and> scaleInFlight g' = scaleInFlight g
     \<and> replenishInFlight g' = replenishInFlight g"

lemma size_inv_shrinks:
  assumes "size_inv s" "shrinks (grp s) (grp s')" "attempts s' = attempts s" "maint s' = maint s" "wakes s' = wakes s"
  shows "size_inv s'"
  using assms by (auto simp: size_inv_def potential_def shrinks_def)

lemma shrinks_refl [simp]: "shrinks g g" by (simp add: shrinks_def)

lemma shrinks_trans: "\<lbrakk>shrinks g h; shrinks h j\<rbrakk> \<Longrightarrow> shrinks g j" by (auto simp: shrinks_def)

lemma shrinks_upd [simp]:
  "shrinks g (upd_sc k f g)" "shrinks g (upd_counters h g)" "shrinks g (signalCapacityChange g)"
  "shrinks g (notifyMaintain g)" "shrinks g (add_inflight n k g)" "shrinks g (add_active n k g)"
  by (simp_all add: shrinks_def upd_sc_def upd_counters_def signalCapacityChange_def notifyMaintain_def
      add_inflight_def add_active_def)

lemma shrinks_remove [simp]: "shrinks g (removeConn k g)"
  by (simp add: removeConn_def shrinks_def notifyMaintain_def signalCapacityChange_def close_sc_def upd_sc_def
      length_remove1)

lemma shrinks_close_all [simp]: "shrinks g (close_all ks g)"
  by (induction ks arbitrary: g) (auto simp: close_sc_def upd_sc_def shrinks_def)

text \<open>Starting a scale-up attempt: only below the limit, and one at a time.\<close>

definition scales :: "Group \<Rightarrow> nat \<Rightarrow> Group \<Rightarrow> bool" where
  "scales g n g' \<longleftrightarrow> conns g' = conns g \<and> replenishInFlight g' = replenishInFlight g
     \<and> scaleInFlight g' = scaleInFlight g + int n
     \<and> (n > 0 \<longrightarrow> int (length (conns g)) + (scaleInFlight g + int n) \<le> int maxPoolSize
          \<and> scaleInFlight g + int n \<le> scaleParallelism)"

lemma startScale_scales: "startScale g = (n, g') \<Longrightarrow> scales g n g'"
  by (auto simp: startScale_def scales_def Let_def upd_counters_def split: if_splits)

lemma select_same:
  "selectConnWithCapacity g = (r, g1) \<Longrightarrow>
   conns g1 = conns g \<and> replenishInFlight g1 = replenishInFlight g \<and> scaleInFlight g1 = scaleInFlight g"
  by (auto simp: selectConnWithCapacity_def round_robin_def Let_def split: if_splits)

lemma scaleNeeded_scales: "startScaleIfNeeded g = (n, g') \<Longrightarrow> scales g n g'"
proof -
  assume step: "startScaleIfNeeded g = (n, g')"
  obtain r g1 where r: "selectConnWithCapacity g = (r, g1)" by fastforce
  note same = select_same [OF r]
  show ?thesis
  proof (cases r)
    case None
    then have "startScale g1 = (n, g')" using step r by (simp add: startScaleIfNeeded_def)
    then show ?thesis using startScale_scales same by (fastforce simp: scales_def)
  next
    case (Some k)
    then show ?thesis using step r same by (auto simp: startScaleIfNeeded_def scales_def)
  qed
qed

lemma headroom_scales: "maybeScaleForHeadroom g = (n, g') \<Longrightarrow> scales g n g'"
  using startScale_scales by (auto simp: maybeScaleForHeadroom_def Let_def scales_def split: if_splits)

text \<open>An action of a caller shrinks the pool, or starts a scale-up attempt.\<close>

lemma scales_moved:
  "\<lbrakk>scales g n g1; shrinks h g; conns h = conns g; shrinks g1 g'; conns g' = conns g1\<rbrakk> \<Longrightarrow> scales h n g'"
  by (auto simp: scales_def shrinks_def)

lemma reserve_scales:
  "reserve_step now pick ph d g = (d', g', n, p) \<Longrightarrow> scales g n g' \<or> (n = 0 \<and> shrinks g g')"
proof (cases "(now, pick, ph, d, g)" rule: reserve_step.cases)
  case (7 now' pick' c d0 g0)
  assume step: "reserve_step now pick ph d g = (d', g', n, p)"
  obtain m g1 where g1: "startScaleIfNeeded g = (m, g1)" by fastforce
  obtain w g2 where g2: "logCapacityStarvation now g1 = (w, g2)" by fastforce
  have "scales g m g2" using scaleNeeded_scales [OF g1] g2
    by (auto simp: logCapacityStarvation_def scales_def split: if_splits)
  then show ?thesis using step 7 g1 g2 by simp
qed (auto simp: quiet_def waitChannel_def Let_def shrinks_def add_inflight_def upd_sc_def upd_counters_def
     signalCapacityChange_def dest: select_same split: if_splits prod.splits option.splits)

lemma dial_scales:
  "dial_step now ph d g = (d', g', n, p) \<Longrightarrow> scales g n g' \<or> (n = 0 \<and> shrinks g g')"
proof (cases "(now, ph, d, g)" rule: dial_step.cases)
  case (1 now' d0 g0)
  let ?g0 = "upd_counters (\<lambda>t. t\<lparr>DialAttempts := DialAttempts t + 1\<rparr>) g"
  assume step: "dial_step now ph d g = (d', g', n, p)"
  obtain m g1 where g1: "maybeScaleForHeadroom ?g0 = (m, g1)" by fastforce
  have "scales ?g0 m g1" using headroom_scales [OF g1] .
  then have "scales g m g1" "scales g m (add_inflight (-1) k g1)" for k
    by (simp_all add: scales_def upd_counters_def add_inflight_def upd_sc_def)
  then show ?thesis using step 1 g1 by (auto split: if_splits)
next
  case (4 now' d0 g0)
  assume "dial_step now ph d g = (d', g', n, p)"
  then have "n = 0 \<and> shrinks g g'" using 4
    by (auto simp: quiet_def maybeForceReconnect_def recordDialTimeout_def shrinks_def upd_sc_def upd_counters_def
        signalCapacityChange_def Let_def split: if_splits)
  then show ?thesis by blast
next
  case (7 now' e msg d0 g0)
  assume "dial_step now ph d g = (d', g', n, p)"
  then have "n = 0 \<and> shrinks g g'" using 7 shrinks_trans [OF shrinks_upd(2) shrinks_remove]
    by (auto simp: quiet_def Let_def split: if_splits)
  then show ?thesis by blast
next
  case (8 now' d0 g0)
  assume "dial_step now ph d g = (d', g', n, p)"
  then have "n = 0 \<and> shrinks g g'" using 8 shrinks_trans [OF shrinks_upd(6) shrinks_upd(2)]
    by (auto simp: quiet_def)
  then show ?thesis by blast
qed (auto simp: quiet_def shrinks_def [of g "g\<lparr>pendingAbandonedDials := x\<rparr>" for g x] split: if_splits)

lemma caller_scales:
  "caller_step now pick d g = (d', g', n, p) \<Longrightarrow> scales g n g' \<or> (n = 0 \<and> shrinks g g')"
  using reserve_scales dial_scales by (simp add: caller_step_def split: if_splits)

section \<open>The bound\<close>

lemma size_inv_scales:
  assumes inv: "size_inv s" and sc: "scales (grp s) n g"
  shows "size_inv (spawn_attempts n ScaleUp inst (s\<lparr>dials := ds, grp := g\<rparr>))"
proof (cases "n = 0")
  case True
  then show ?thesis using inv sc
    by (auto simp: size_inv_def scales_def spawn_attempts_def potential_def)
next
  case False
  let ?s = "spawn_attempts n ScaleUp inst (s\<lparr>dials := ds, grp := g\<rparr>)"
  have c: "count (running ScaleUp) (attempts ?s) = count (running ScaleUp) (attempts s) + int n"
    "count (adding ScaleUp) (attempts ?s) = count (adding ScaleUp) (attempts s) + int n"
    "count (running Replenish) (attempts ?s) = count (running Replenish) (attempts s)"
    "count (adding Replenish) (attempts ?s) = count (adding Replenish) (attempts s)"
    by (simp_all add: spawn_attempts_def running_def adding_def)
  have f: "grp ?s = g" "wakes ?s = wakes s" "maint ?s = maint s" by (simp_all add: spawn_attempts_def)
  have "potential ?s \<le> 14 + 2 * int (wakes s)"
    using inv sc False c f adding_running [of ScaleUp "attempts s"] adding_running [of Replenish "attempts s"]
    by (simp add: potential_def size_inv_def scales_def pool_consts)
  then show ?thesis using inv sc False c f by (simp add: size_inv_def scales_def)
qed

lemma size_inv_put:
  "\<lbrakk>size_inv s; shrinks (grp s) g\<rbrakk> \<Longrightarrow> size_inv (put_dial i d g s)"
  by (rule size_inv_shrinks) (simp_all add: put_dial_def)

lemma size_inv_caller:
  assumes inv: "size_inv s" and st: "caller_step now pick d0 (grp s) = (d, g, n, p)"
  shows "size_inv (spawn_attempts n ScaleUp inst (put_dial i d g s))"
  using caller_scales [OF st]
proof
  assume "scales (grp s) n g"
  then show ?thesis using size_inv_scales [OF inv] by (simp add: put_dial_def)
next
  assume "n = 0 \<and> shrinks (grp s) g"
  then show ?thesis using size_inv_put [OF inv] by (simp add: spawn_attempts_def)
qed

lemma worker_shrinks: "worker_step r d g = (d', g') \<Longrightarrow> shrinks g g'"
  by (cases "worker d") (auto simp: worker_step_def Let_def shrinks_def upd_counters_def add_inflight_def upd_sc_def
      signalCapacityChange_def split: if_splits)

lemma probe_shrinks: "probe_step dead p g = (p', g') \<Longrightarrow> shrinks g g'"
proof (cases p)
  case PFinishing
  assume "probe_step dead p g = (p', g')"
  then show ?thesis using PFinishing by (auto simp: probe_step_def shrinks_def)
qed (auto simp: probe_step_def split: if_splits)

lemma close_group_shrinks: "shrinks g (close_group g)"
proof -
  have "shrinks h (cleanup h)" for h
    using shrinks_close_all [of h "conns h"] by (simp add: cleanup_def shrinks_def signalCapacityChange_def)
  then have "shrinks (g\<lparr>groupCtx := Some True\<rparr>) (cleanup (g\<lparr>groupCtx := Some True\<rparr>))" "shrinks g (cleanup g)"
    by blast+
  then show ?thesis by (simp add: close_group_def shrinks_def)
qed

lemma size_inv_attempt:
  assumes inv: "size_inv s" and i: "i < length (attempts s)"
    and step: "attempt_step ok now delay (attempts s ! i) (grp s) = (a, g)"
  shows "size_inv (s\<lparr>attempts := (attempts s)[i := a], grp := g\<rparr>)"
proof -
  let ?a = "attempts s ! i"
  have k: "kind a = kind ?a" using step by (auto simp: attempt_step_def conn_created_def Let_def split: attempt_phase.splits if_splits)
  show ?thesis
  proof (cases "aphase ?a")
    case AFinishing
    then have eff: "a = ?a\<lparr>aphase := ADone\<rparr>"
      "g = (if kind ?a = ScaleUp then scale_finished (grp s) else finishReplenish (grp s))"
      using step by (simp_all add: attempt_step_def)
    have adds: "count (adding q) ((attempts s)[i := a]) = count (adding q) (attempts s)" for q
      using i AFinishing eff(1) by (simp add: count_update adding_def)
    have runs: "count (running q) ((attempts s)[i := a]) = count (running q) (attempts s) - of_bool (kind ?a = q)" for q
      using i AFinishing eff(1) by (simp add: count_update running_def)
    have conns: "conns g = conns (grp s)" by (simp add: eff scale_finished_def finishReplenish_def)
    show ?thesis
    proof (cases "kind ?a")
      case ScaleUp
      then show ?thesis using inv eff(2) conns
        by (simp add: size_inv_def potential_def adds runs scale_finished_def)
    next
      case Replenish
      then show ?thesis using inv eff(2) conns
        by (auto simp: size_inv_def potential_def adds runs finishReplenish_def)
    qed
  next
    case (AConnected c)
    then have eff: "a = ?a\<lparr>aphase := AAppended\<rparr>" "g = append_conn c (grp s)"
      using step by (simp_all add: attempt_step_def)
    have adds: "count (adding q) ((attempts s)[i := a]) = count (adding q) (attempts s) - of_bool (kind ?a = q)" for q
      using i AConnected eff(1) by (simp add: count_update adding_def)
    have runs: "count (running q) ((attempts s)[i := a]) = count (running q) (attempts s)" for q
      using i AConnected eff(1) by (simp add: count_update running_def)
    show ?thesis using inv
      by (cases "kind ?a") (auto simp: size_inv_def potential_def adds runs eff(2) append_conn_def)
  next
    case ADone
    then have "a = ?a" "g = grp s" using step by (simp_all add: attempt_step_def)
    then show ?thesis using inv by simp
  next
    case AConnecting
    then have ph: "aphase a \<noteq> ADone" and g: "conns g = conns (grp s)" "scaleInFlight g = scaleInFlight (grp s)"
      "replenishInFlight g = replenishInFlight (grp s)"
      using step by (auto simp: attempt_step_def conn_created_def replenish_failed_def recordReplenishFailure_def
          advanceInstance_def upd_counters_def Let_def split: if_splits)
    have adds: "count (adding q) ((attempts s)[i := a]) \<le> count (adding q) (attempts s)" for q
      using i AConnecting k by (auto simp: count_update adding_def)
    have runs: "count (running q) ((attempts s)[i := a]) = count (running q) (attempts s)" for q
      using i AConnecting ph k by (auto simp: count_update running_def)
    show ?thesis using inv adds [of ScaleUp] adds [of Replenish]
      by (auto simp: size_inv_def potential_def runs g)
  next
    case AAppended
    then have ph: "aphase a = AFinishing" and g: "conns g = conns (grp s)" "scaleInFlight g = scaleInFlight (grp s)"
      "replenishInFlight g = replenishInFlight (grp s)"
      using step by (auto simp: attempt_step_def announce_conn_def notifyMaintain_def signalCapacityChange_def
          recordReplenishSuccess_def upd_counters_def split: if_splits)
    have adds: "count (adding q) ((attempts s)[i := a]) = count (adding q) (attempts s)" for q
      using i AAppended ph by (simp add: count_update adding_def)
    have runs: "count (running q) ((attempts s)[i := a]) = count (running q) (attempts s)" for q
      using i AAppended ph k by (simp add: count_update running_def)
    show ?thesis using inv by (simp add: size_inv_def potential_def adds runs g)
  qed
qed

lemma reserve_bounds:
  assumes "maintain_replenish now n g = (needed, g')" "replenishInFlight g \<le> replenishParallelism" "0 \<le> replenishInFlight g"
  shows "conns g' = conns g \<and> scaleInFlight g' = scaleInFlight g
    \<and> replenishInFlight g' = replenishInFlight g + int needed \<and> replenishInFlight g' \<le> replenishParallelism
    \<and> (0 < needed \<longrightarrow> n < defaultPoolSize)"
  using assms by (auto simp: maintain_replenish_def reserveReplenish_def Let_def split: if_splits)

text \<open>The maintenance loop, before its attempts are started.\<close>

definition maintained :: "maintain_phase \<Rightarrow> Group \<Rightarrow> nat \<Rightarrow> psys \<Rightarrow> psys" where
  "maintained p g w s = s\<lparr>maint := p, grp := g, wakes := w\<rparr>"

lemma size_inv_shrink_maint:
  assumes "size_inv s" "shrinks (grp s) g" "short p \<longrightarrow> short (maint s)"
  shows "size_inv (maintained p g (wakes s) s)"
  using assms by (auto simp: size_inv_def potential_def shrinks_def maintained_def)

lemma size_inv_maintain:
  assumes inv: "size_inv s" and step: "maintain_step i (maint s) (grp s) = (p, g, n)"
  shows "size_inv (spawn_attempts n Replenish inst
    (maintained p g (case p of MProbing t \<Rightarrow> Suc (wakes s) | _ \<Rightarrow> wakes s) s))"
proof -
  have zero: "spawn_attempts 0 Replenish inst t = t" for t by (simp add: spawn_attempts_def)
  show ?thesis
  proof (cases "maint s")
    case MIdle
    show ?thesis
    proof (cases "wake_detected (mnow i) (grp s)")
      case True
      then have "p = MProbing (mnow i)" "g = resetReplenishBackoff (grp s)" "n = 0"
        using step MIdle by (simp_all add: maintain_step_def)
      then show ?thesis using inv MIdle
        by (simp add: zero maintained_def size_inv_def potential_def resetReplenishBackoff_def pool_consts)
    next
      case False
      then have "p = MSweep (mnow i)" "g = grp s" "n = 0" using step MIdle by (simp_all add: maintain_step_def)
      then show ?thesis using size_inv_shrink_maint [OF inv] by (simp add: zero)
    qed
  next
    case (MProbing now)
    have "n = 0" "\<not> short p" "shrinks (grp s) g" "\<forall>t. p \<noteq> MProbing t"
      using step MProbing by (auto simp: maintain_step_def remove_failed_def shrinks_def split: if_splits)
    then show ?thesis using size_inv_shrink_maint [OF inv] by (cases p) (simp_all add: zero)
  next
    case (MRemoved now ks)
    have "p = MSweep now" "g = close_all ks (announce_conn (grp s))" "n = 0"
      using step MRemoved by (simp_all add: maintain_step_def)
    moreover have "shrinks (grp s) (close_all ks (announce_conn (grp s)))"
      using shrinks_trans [OF _ shrinks_close_all] by (simp add: announce_conn_def shrinks_def notifyMaintain_def signalCapacityChange_def)
    ultimately show ?thesis using size_inv_shrink_maint [OF inv] by (simp add: zero)
  next
    case (MSweep now)
    let ?dead = "\<lambda>k. k \<in> set (mdead i)"
    obtain b m h where sw: "sweep_dead ?dead ((grp s)\<lparr>lastMaintainTime := Some now\<rparr>) = (b, m, h)"
      by (metis prod_cases3)
    then have eff: "p = MSwept now b m" "g = h" "n = 0" using step MSweep by (simp_all add: maintain_step_def)
    have h: "m = length (conns h)" "shrinks (grp s) h"
      using sw shrinks_close_all [of "(grp s)\<lparr>lastMaintainTime := Some now\<rparr>" "filter ?dead (conns (grp s))"]
      by (auto simp: sweep_dead_def Let_def shrinks_def)
    show ?thesis using inv h adding_running [of ScaleUp "attempts s"] adding_running [of Replenish "attempts s"]
      by (simp add: eff zero maintained_def size_inv_def potential_def shrinks_def pool_consts)
  next
    case (MSwept now b m)
    have "p = MCounted now m" "shrinks (grp s) g" "n = 0"
      using step MSwept by (auto simp: maintain_step_def split: if_splits)
    then show ?thesis using size_inv_shrink_maint [OF inv, of g "MCounted now m"] MSwept by (simp add: zero)
  next
    case (MCounted now m)
    then have r: "maintain_replenish now m (grp s) = (n, g)" and p: "p = MIdle"
      using step by (auto simp: maintain_step_def split: prod.splits)
    have b: "conns g = conns (grp s) \<and> scaleInFlight g = scaleInFlight (grp s)
      \<and> replenishInFlight g = replenishInFlight (grp s) + int n \<and> replenishInFlight g \<le> replenishParallelism
      \<and> (0 < n \<longrightarrow> m < defaultPoolSize)"
      by (rule reserve_bounds [OF r]) (use inv in \<open>simp_all add: size_inv_def\<close>)
    have "n \<le> 2" using b inv by (simp add: size_inv_def pool_consts)
    moreover have "0 < n \<longrightarrow> potential s \<le> 14 + 2 * int (wakes s)" using inv b MCounted by (simp add: size_inv_def)
    ultimately show ?thesis using inv b
      by (cases "n = 0") (simp_all add: p maintained_def size_inv_def potential_def spawn_attempts_def running_def adding_def)
  next
    case MExited
    then have "p = MExited" "g = grp s" "n = 0" using step by (simp_all add: maintain_step_def)
    then show ?thesis using size_inv_shrink_maint [OF inv] by (simp add: zero)
  qed
qed

lemma size_inv_move: "size_inv s \<Longrightarrow> size_inv (pool_move m s)"
proof (cases m)
  case (CallerMove i now pick)
  assume inv: "size_inv s"
  show ?thesis
  proof (cases "i < length (dials s)")
    case True
    obtain d g n p where st: "caller_step now pick (dials s ! i) (grp s) = (d, g, n, p)" by (metis prod_cases4)
    note sp = size_inv_caller [OF inv st, of "currentInstance g" i]
    have "size_inv (t\<lparr>probe := q\<rparr>)" if "size_inv t" for t q
      using that by (simp add: size_inv_def potential_def)
    then show ?thesis using sp CallerMove True st by (cases p) simp_all
  qed (use inv CallerMove in simp)
next
  case (Maintain i)
  assume inv: "size_inv s"
  obtain p g n where st: "maintain_step i (maint s) (grp s) = (p, g, n)" by (metis prod_cases3)
  show ?thesis using size_inv_maintain [OF inv st] Maintain st by (simp add: maintained_def)
next
  case (AttemptMove i ok now delay)
  assume "size_inv s"
  then show ?thesis using AttemptMove size_inv_attempt by (auto split: prod.splits)
next
  case (WorkerMove i r)
  assume "size_inv s"
  then show ?thesis using WorkerMove worker_shrinks size_inv_put by (auto split: prod.splits)
next
  case (ProbeMove dead)
  assume inv: "size_inv s"
  obtain p g where st: "probe_step dead (probe s) (grp s) = (p, g)" by fastforce
  have "size_inv (s\<lparr>probe := p, grp := g\<rparr>)"
    by (rule size_inv_shrinks [OF inv]) (use probe_shrinks [OF st] in simp_all)
  then show ?thesis using ProbeMove st by simp
next
  case (CloseConn i)
  assume "size_inv s"
  then show ?thesis using CloseConn size_inv_put by (auto simp: tracked_Close_def split: prod.splits if_splits)
next
  case CloseGroup
  assume inv: "size_inv s"
  have "size_inv (s\<lparr>grp := close_group (grp s)\<rparr>)"
    by (rule size_inv_shrinks [OF inv]) (use close_group_shrinks in simp_all)
  then show ?thesis using CloseGroup by simp
next
  case (KeepaliveMove k t)
  assume inv: "size_inv s"
  have "size_inv (s\<lparr>grp := upd_sc k (\<lambda>c. snd (keepalive_tick t c)) (grp s)\<rparr>)"
    by (rule size_inv_shrinks [OF inv]) simp_all
  then show ?thesis using KeepaliveMove by simp
qed (auto simp: size_inv_def potential_def put_dial_def)

lemma size_inv_run: "size_inv (pool_run ms (pool_start (connected name up t att)))"
proof (rule pool_run_induct [where P = size_inv])
  show "size_inv (pool_start (connected name up t att))"
    using connected_clean(1, 2) [of name up t att]
    by (simp add: size_inv_def potential_def pool_start_def fresh_group_def pool_consts count_def)
qed (rule size_inv_move)

text \<open>
  C16. The pool of an upstream stays bounded whatever the order in which dials, scale-up and replenish
  attempts, probes and maintenance run: at most sixteen connections, plus two for every detected
  wake-up from sleep (which forgets the attempts in flight); never more than two scale-up attempts and,
  by its own count, two replenish attempts are in flight.
\<close>

theorem pool_size_bounded:
  "let s = pool_run ms (pool_start (connected name up t att)) in
   length (conns (grp s)) \<le> 16 + 2 * wakes s
   \<and> 0 \<le> scaleInFlight (grp s) \<and> scaleInFlight (grp s) \<le> scaleParallelism
   \<and> 0 \<le> replenishInFlight (grp s) \<and> replenishInFlight (grp s) \<le> replenishParallelism"
proof -
  let ?s = "pool_run ms (pool_start (connected name up t att))"
  have inv: "size_inv ?s" by (rule size_inv_run)
  have "int (length (conns (grp ?s))) \<le> potential ?s" by (simp add: potential_def)
  also have "potential ?s \<le> 16 + 2 * int (wakes ?s)" using inv by (simp add: size_inv_def)
  finally have "length (conns (grp ?s)) \<le> 16 + 2 * wakes ?s" by linarith
  then show ?thesis using inv by (simp add: size_inv_def Let_def)
qed

section \<open>What the limits do not exclude\<close>

text \<open>
  A dial that succeeded gives its slot back before it counts its channel.  Another dial can reserve the
  slot in between: the only connection ends with five of the four channels it may have.
\<close>

definition deliver_dial :: "nat \<Rightarrow> pmove list" where
  "deliver_dial i = [CallerMove i 0 False, WorkerMove i None, WorkerMove i None, Rendezvous i]"

definition overcommit :: "pmove list" where
  "overcommit = replicate 5 NewDial
     @ concat (map (\<lambda>i. replicate 4 (CallerMove i 0 False)) [0, 1, 2, 3])
     @ deliver_dial 0 @ replicate 2 (CallerMove 0 0 False)
     @ replicate 4 (CallerMove 4 0 False)
     @ [CallerMove 0 0 False]
     @ concat (map (\<lambda>i. deliver_dial i @ replicate 3 (CallerMove i 0 False)) [1, 2, 3, 4])"

lemma channels_over_limit:
  "let s = pool_run overcommit (pool_start (connected ''prod'' two_instances 0 first_only)) in
   conns (grp s) = [1] \<and> activeChannels (sc (grp s) 1) = 5 \<and> maxChannelsPerConn = 4"
  by code_simp

text \<open>
  An attempt that is past its last look at the context when the pool is closed appends its connection
  after the cleanup; when all goroutines have ended the connection is still pooled and open.
\<close>

definition late_attempt :: "pmove list" where
  "late_attempt =
     [Maintain \<lparr>mnow = 0, mfailed = {}, mdead = [1]\<rparr>, Maintain \<lparr>mnow = 0, mfailed = {}, mdead = [1]\<rparr>,
      Maintain \<lparr>mnow = 0, mfailed = {}, mdead = []\<rparr>, Maintain \<lparr>mnow = 0, mfailed = {}, mdead = []\<rparr>,
      CloseGroup]
     @ concat (map (\<lambda>i. replicate 4 (AttemptMove i True 0 (\<lambda>_. 0))) [0, 1])
     @ [MaintainExit]"

lemma close_leaves_connection:
  "let s = pool_run late_attempt (pool_start (connected ''prod'' two_instances 0 first_only)) in
   groupCtx (grp s) = Some True \<and> maint s = MExited \<and> list_all (\<lambda>a. aphase a = ADone) (attempts s)
   \<and> conns (grp s) = [2, 3] \<and> scOpen (sc (grp s) 2) \<and> scOpen (sc (grp s) 3)"
  by code_simp

text \<open>
  A wake-up forgets the replenish attempts in flight, so the next rounds start more of them than
  \<open>replenishParallelism\<close> allows.
\<close>

definition sleepy :: "pmove list" where
  "sleepy = replicate 4 (Maintain \<lparr>mnow = 0, mfailed = {}, mdead = []\<rparr>)
     @ concat (map (\<lambda>t. replicate 5 (Maintain \<lparr>mnow = t, mfailed = {}, mdead = []\<rparr>)) [100, 200])"

lemma replenish_over_limit:
  "let s = pool_run sleepy (pool_start (connected ''prod'' two_instances 50 first_only)) in
   length (filter (running Replenish) (attempts s)) = 6 \<and> replenishInFlight (grp s) = 2"
  by code_simp

end
