(* ===== verification/PoolTerm.thy ===== *)
theory PoolTerm
  imports PoolSelect PoolConnectSpec
begin

text \<open>
  A dial of the upstream pool ends: once its context has ended, the caller of \<open>Group.dial\<close> returns
  after a bounded number of its own actions, from every state and without waiting for its worker.
\<close>

section \<open>The caller alone\<close>

definition solo :: "nanos \<times> bool \<Rightarrow> dial \<times> Group \<Rightarrow> dial \<times> Group" where
  "solo m x = (case caller_step (fst m) (snd m) (fst x) (snd x) of (d, g, n, p) \<Rightarrow> (d, g))"

definition returned :: "dial \<Rightarrow> bool" where
  "returned d \<longleftrightarrow> (case caller d of
     CConn \<Rightarrow> True | CClosing \<Rightarrow> True | CClosed \<Rightarrow> True | CFailed e \<Rightarrow> True | _ \<Rightarrow> False)"

text \<open>The caller has returned after any \<open>n\<close> or more of its actions.\<close>

definition ends :: "nat \<Rightarrow> dial \<Rightarrow> Group \<Rightarrow> bool" where
  "ends n d g \<longleftrightarrow> (\<forall>ms. n \<le> length ms \<longrightarrow> returned (fst (fold solo ms (d, g))))"

lemma returned_solo: "returned (fst x) \<Longrightarrow> returned (fst (solo m x))"
  by (cases "caller (fst x)")
     (auto simp: returned_def solo_def caller_step_def reserving_def quiet_def)

lemma returned_stays: "returned (fst x) \<Longrightarrow> returned (fst (fold solo ms x))"
  by (induction ms arbitrary: x) (simp_all add: returned_solo)

lemma ends_now: "returned d \<Longrightarrow> ends n d g"
  using returned_stays [of "(d, g)"] by (simp add: ends_def)

lemma ends_step:
  assumes "0 < n"
    and "\<And>now pick d' g' n' p. caller_step now pick d g = (d', g', n', p) \<Longrightarrow> ends (n - 1) d' g'"
  shows "ends n d g"
  unfolding ends_def
proof (intro allI impI)
  fix ms :: "(nanos \<times> bool) list" assume l: "n \<le> length ms"
  then obtain m rest where ms: "ms = m # rest" using assms(1) by (cases ms) auto
  obtain d' g' n' p where c: "caller_step (fst m) (snd m) d g = (d', g', n', p)" by (metis prod_cases4)
  then show "returned (fst (fold solo ms (d, g)))"
    using assms(2) [OF c] l by (simp add: ms ends_def solo_def)
qed

lemma ends_mono: "ends n d g \<Longrightarrow> n \<le> m \<Longrightarrow> ends m d g"
  by (auto simp: ends_def)

section \<open>Room\<close>

definition room :: "Group \<Rightarrow> bool" where
  "room g \<longleftrightarrow> (\<exists>k. fst (selectConnWithCapacity g) = Some k)"

lemma room_iff: "room g \<longleftrightarrow> conns g \<noteq> [] \<and> least_loaded (sc g) no_capacity (conns g) (2 ^ 62) (2 ^ 62) [] \<noteq> []"
  by (auto simp: room_def selectConnWithCapacity_def Let_def split: prod.splits)

lemma select_capacity:
  assumes "selectConnWithCapacity g = (Some k, g1)"
  shows "\<not> no_capacity (sc g1 k)" "conns g1 = conns g" "sc g1 = sc g" "waitCh g1 = waitCh g"
  using select_Some [OF assms] by simp_all

lemma select_full: "selectConnWithCapacity g = (None, g1) \<Longrightarrow> g1 = g \<and> \<not> room g"
  by (auto simp: room_def selectConnWithCapacity_def Let_def split: if_splits prod.splits)

lemma startScale_same: "conns (snd (startScale g)) = conns g \<and> sc (snd (startScale g)) = sc g
    \<and> waitCh (snd (startScale g)) = waitCh g"
  by (simp add: startScale_def Let_def upd_counters_def)

section \<open>The phases, backwards\<close>

lemmas step_simps = caller_step_def reserving_def quiet_def

lemma ends_outcome:
  assumes "caller d = COutcome r"
  shows "ends (Suc 0) d g"
  by (rule ends_step, simp, rule ends_now, cases r)
     (use assms in \<open>auto simp: step_simps returned_def fail_dial_def Let_def split: prod.splits\<close>)

lemma ends_released:
  assumes "caller d = CReleased r"
  shows "ends 2 d g"
  by (rule ends_step) (use assms in \<open>auto simp: step_simps intro: ends_outcome\<close>)

lemma ends_received:
  assumes "caller d = CReceived r"
  shows "ends 3 d g"
  by (rule ends_step) (use assms in \<open>auto simp: step_simps intro: ends_released\<close>)

lemma ends_gone:
  assumes "caller d = CCtxDone \<or> caller d = CNilClient"
  shows "ends (Suc 0) d g"
  by (rule ends_step, simp, rule ends_now)
     (use assms in \<open>auto simp: step_simps returned_def fail_dial_def not_connected_def Let_def
        split: prod.splits if_splits\<close>)

lemma ends_running:
  assumes "caller d = CRunning" "dctx d \<noteq> Live"
  shows "ends 2 d g"
  by (rule ends_step) (use assms in \<open>auto simp: step_simps split: if_splits intro: ends_gone\<close>)

lemma ends_reserved:
  assumes "caller d = CReserved" "dctx d \<noteq> Live"
  shows "ends 3 d g"
  by (rule ends_step)
     (use assms in \<open>auto simp: step_simps Let_def split: prod.splits if_splits
       intro: ends_running ends_mono [OF ends_gone]\<close>)

lemma ends_check:
  assumes "caller d = CCheck n" "dctx d \<noteq> Live" "activeChannels (sc g (dconn d)) + n \<le> maxChannelsPerConn"
  shows "ends 4 d g"
  by (rule ends_step) (use assms in \<open>auto simp: step_simps intro: ends_reserved\<close>)

lemma ends_add:
  assumes "caller d = CAdd" "dctx d \<noteq> Live" "\<not> no_capacity (sc g (dconn d))"
  shows "ends 5 d g"
  by (rule ends_step)
     (use assms in \<open>auto simp: step_simps Let_def add_inflight_def upd_sc_def no_capacity_def intro!: ends_check\<close>)

lemma ends_select_room:
  assumes "caller d = CSelect c" "dctx d \<noteq> Live" "room g"
  shows "ends 6 d g"
proof (rule ends_step)
  fix now pick d' g' n' p assume st: "caller_step now pick d g = (d', g', n', p)"
  obtain k g1 where s: "selectConnWithCapacity g = (Some k, g1)"
    using assms(3) by (metis room_def prod.collapse)
  then have "d' = d\<lparr>caller := CAdd, dconn := k\<rparr>" "g' = g1"
    using st assms(1) by (auto simp: step_simps)
  then show "ends (6 - 1) d' g'" using select_capacity(1) [OF s] assms(2) by (auto intro: ends_add)
qed simp

lemma room_waitChannel: "waitChannel g = (c, g1) \<Longrightarrow> waitCh g1 = Some c \<and> (room g1 \<longleftrightarrow> room g)"
  by (auto simp: waitChannel_def room_iff split: option.splits)

lemma loop_step:
  assumes "caller d = CLoop" "caller_step now pick d g = (d', g', n', p)"
  shows "\<exists>c. d' = d\<lparr>caller := CSelect c\<rparr> \<and> waitCh g' = Some c \<and> (room g' \<longleftrightarrow> room g)"
  using assms room_waitChannel [of g] by (auto simp: step_simps split: prod.splits)

lemma ends_loop_room:
  assumes "caller d = CLoop" "dctx d \<noteq> Live" "room g"
  shows "ends 7 d g"
  by (rule ends_step) (use assms in \<open>auto dest!: loop_step intro: ends_select_room\<close>)

text \<open>
  The phases before the wait, when the channel that the caller holds is still the current one: the
  wait then sees the context only.
\<close>

definition holds_current :: "(nat \<Rightarrow> caller_phase) \<Rightarrow> dial \<Rightarrow> Group \<Rightarrow> bool" where
  "holds_current ph d g \<longleftrightarrow> dctx d \<noteq> Live \<and> (\<exists>c. caller d = ph c \<and> waitCh g = Some c)"

lemma ends_wait_current: "holds_current CWait d g \<Longrightarrow> ends (Suc 0) d g"
  by (rule ends_step, simp, rule ends_now)
     (auto simp: holds_current_def step_simps signalled_def returned_def fail_dial_def)

lemma not_connected_ends: "ends n (not_connected d) g"
  by (rule ends_now) (simp add: not_connected_def returned_def)

lemma ends_size_current: "holds_current CRecheckSize d g \<Longrightarrow> ends 2 d g"
  by (rule ends_step)
     (auto simp: holds_current_def step_simps intro: not_connected_ends ends_wait_current simp: holds_current_def
       split: if_splits)

lemma room_select: "selectConnWithCapacity g = (Some k, g1) \<Longrightarrow> room g1"
  using select_capacity [of g k g1] room_iff [of g] room_iff [of g1] by (simp add: room_def)

lemma ends_recheck_current:
  assumes "holds_current CRecheck d g"
  shows "ends 8 d g"
proof (rule ends_step)
  fix now pick d' g' n' p assume st: "caller_step now pick d g = (d', g', n', p)"
  obtain c where c: "caller d = CRecheck c" "waitCh g = Some c" "dctx d \<noteq> Live"
    using assms by (auto simp: holds_current_def)
  obtain r g1 where s: "selectConnWithCapacity g = (r, g1)" by fastforce
  show "ends (8 - 1) d' g'"
  proof (cases r)
    case None
    then have "holds_current CRecheckSize d' g'"
      using st s c select_full [of g g1] by (auto simp: step_simps holds_current_def)
    then show ?thesis by (auto intro: ends_mono [OF ends_size_current])
  next
    case (Some k)
    then have "caller d' = CLoop" "dctx d' \<noteq> Live" "g' = g1"
      using st s c by (auto simp: step_simps)
    then show ?thesis using s Some room_select ends_loop_room by auto
  qed
qed simp

lemma ends_scale_current:
  assumes "holds_current CScale d g"
  shows "ends 9 d g"
proof (rule ends_step)
  fix now pick d' g' n' p assume st: "caller_step now pick d g = (d', g', n', p)"
  obtain c where c: "caller d = CScale c" "waitCh g = Some c" "dctx d \<noteq> Live"
    using assms by (auto simp: holds_current_def)
  obtain m g1 where g1: "startScaleIfNeeded g = (m, g1)" by fastforce
  have "waitCh g1 = waitCh g"
    using g1 select_full [of g] startScale_same [of g]
    by (auto simp: startScaleIfNeeded_def select_capacity split: prod.splits option.splits)
  then have "holds_current CRecheck d' g'"
    using st g1 c by (auto simp: step_simps holds_current_def logCapacityStarvation_def split: if_splits)
  then show "ends (9 - 1) d' g'" using ends_recheck_current by simp
qed simp

lemma ends_noconn_current: "holds_current CNoConn d g \<Longrightarrow> ends 10 d g"
  by (rule ends_step)
     (auto simp: holds_current_def step_simps upd_counters_def
       intro: not_connected_ends ends_scale_current simp: holds_current_def split: if_splits)

lemma ends_select_current:
  assumes "holds_current CSelect d g"
  shows "ends 11 d g"
proof (cases "room g")
  case True
  then show ?thesis using assms ends_mono [OF ends_select_room] by (auto simp: holds_current_def)
next
  case False
  then have s: "selectConnWithCapacity g = (None, g)"
    using select_full [of g] by (cases "selectConnWithCapacity g") (auto simp: room_def)
  show ?thesis
    by (rule ends_step)
       (use s assms in \<open>auto simp: step_simps holds_current_def intro!: ends_noconn_current\<close>)
qed

lemma ends_loop: "caller d = CLoop \<Longrightarrow> dctx d \<noteq> Live \<Longrightarrow> ends 12 d g"
  by (rule ends_step) (auto dest!: loop_step intro!: ends_select_current simp: holds_current_def)

text \<open>From a phase whose channel may have been closed, at most one more round.\<close>

lemma ends_wait: "caller d = CWait c \<Longrightarrow> dctx d \<noteq> Live \<Longrightarrow> ends 13 d g"
  by (rule ends_step)
     (auto simp: step_simps fail_dial_def returned_def intro: ends_loop ends_now split: if_splits)

lemma ends_size: "caller d = CRecheckSize c \<Longrightarrow> dctx d \<noteq> Live \<Longrightarrow> ends 14 d g"
  by (rule ends_step) (auto simp: step_simps not_connected_ends intro: ends_wait split: if_splits)

lemma ends_recheck: "caller d = CRecheck c \<Longrightarrow> dctx d \<noteq> Live \<Longrightarrow> ends 15 d g"
  by (rule ends_step)
     (auto simp: step_simps intro: ends_size ends_mono [OF ends_loop] split: option.splits prod.splits)

lemma ends_scale: "caller d = CScale c \<Longrightarrow> dctx d \<noteq> Live \<Longrightarrow> ends 16 d g"
  by (rule ends_step) (auto simp: step_simps intro: ends_recheck split: prod.splits)

lemma ends_noconn: "caller d = CNoConn c \<Longrightarrow> dctx d \<noteq> Live \<Longrightarrow> ends 17 d g"
  by (rule ends_step) (auto simp: step_simps not_connected_ends intro: ends_scale split: if_splits)

lemma ends_select:
  assumes "caller d = CSelect c" "dctx d \<noteq> Live"
  shows "ends 18 d g"
proof (cases "room g")
  case True
  then show ?thesis using assms ends_mono [OF ends_select_room] by simp
next
  case False
  then have s: "selectConnWithCapacity g = (None, g)"
    using select_full [of g] by (cases "selectConnWithCapacity g") (auto simp: room_def)
  show ?thesis by (rule ends_step) (use s assms in \<open>auto simp: step_simps intro: ends_noconn\<close>)
qed

lemma ends_undone: "caller d = CUndone \<Longrightarrow> dctx d \<noteq> Live \<Longrightarrow> ends 13 d g"
  by (rule ends_step) (auto simp: step_simps intro: ends_loop)

lemma ends_any_check: "caller d = CCheck n \<Longrightarrow> dctx d \<noteq> Live \<Longrightarrow> ends 14 d g"
  by (rule ends_step)
     (auto simp: step_simps intro: ends_undone ends_mono [OF ends_reserved] split: if_splits)

lemma ends_any_add: "caller d = CAdd \<Longrightarrow> dctx d \<noteq> Live \<Longrightarrow> ends 15 d g"
  by (rule ends_step) (auto simp: step_simps Let_def intro: ends_any_check)

lemma ends_18:
  assumes "dctx d \<noteq> Live"
  shows "ends 18 d g"
proof -
  note le = ends_mono [where m = 18]
  show ?thesis
  proof (cases "caller d")
    case CLoop then show ?thesis using le [OF ends_loop] assms by simp
  next case (CSelect c) then show ?thesis using ends_select assms by simp
  next case CAdd then show ?thesis using le [OF ends_any_add] assms by simp
  next case (CCheck n) then show ?thesis using le [OF ends_any_check] assms by simp
  next case CUndone then show ?thesis using le [OF ends_undone] assms by simp
  next case (CNoConn c) then show ?thesis using le [OF ends_noconn] assms by simp
  next case (CScale c) then show ?thesis using le [OF ends_scale] assms by simp
  next case (CRecheck c) then show ?thesis using le [OF ends_recheck] assms by simp
  next case (CRecheckSize c) then show ?thesis using le [OF ends_size] assms by simp
  next case (CWait c) then show ?thesis using le [OF ends_wait] assms by simp
  next case CReserved then show ?thesis using le [OF ends_reserved] assms by simp
  next case CNilClient then show ?thesis using le [OF ends_gone] by simp
  next case CRunning then show ?thesis using le [OF ends_running] assms by simp
  next case CCtxDone then show ?thesis using le [OF ends_gone] by simp
  next case (CReceived r) then show ?thesis using le [OF ends_received] by simp
  next case (CReleased r) then show ?thesis using le [OF ends_released] by simp
  next case (COutcome r) then show ?thesis using le [OF ends_outcome] by simp
  qed (auto intro!: ends_now simp: returned_def)
qed

section \<open>In the system\<close>

lemma caller_move_solo:
  assumes "i < length (dials s)"
  shows "(dials (pool_move (CallerMove i now pick) s) ! i, grp (pool_move (CallerMove i now pick) s))
      = solo (now, pick) (dials s ! i, grp s)"
    "length (dials (pool_move (CallerMove i now pick) s)) = length (dials s)"
  using assms
  by (simp_all add: solo_def put_dial_def spawn_attempts_def Let_def split: prod.split option.split)

lemma caller_run_solo:
  assumes "i < length (dials s)"
  shows "(dials (pool_run (map (\<lambda>(now, pick). CallerMove i now pick) ms) s) ! i,
      grp (pool_run (map (\<lambda>(now, pick). CallerMove i now pick) ms) s)) = fold solo ms (dials s ! i, grp s)"
  using assms
proof (induction ms arbitrary: s)
  case (Cons m ms)
  obtain now pick where m: "m = (now, pick)" by fastforce
  let ?t = "pool_move (CallerMove i now pick) s"
  have "i < length (dials ?t)" using Cons.prems caller_move_solo(2) by simp
  then show ?case
    using Cons.IH [of ?t] caller_move_solo(1) [OF Cons.prems, of now pick] by (simp add: m pool_run_def)
qed (simp add: pool_run_def)


text \<open>A dial that waits for capacity in a full pool of one connection, and is then cancelled.\<close>

definition cancelled_waiter :: psys where
  "cancelled_waiter = pool_run
     (replicate 5 NewDial @ concat (map (\<lambda>i. replicate 4 (CallerMove i 0 False)) [0, 1, 2, 3])
      @ replicate 6 (CallerMove 4 0 False) @ [EndCtx 4 CanceledCtx])
     (pool_start (connected ''prod'' two_instances 0 (\<lambda>a i j. if j = 0 then None else Some TimeoutError)))"

lemma cancelled_waiter_state:
  "length (dials cancelled_waiter) = 5 \<and> caller (dials cancelled_waiter ! 4) = CWait 0
   \<and> dctx (dials cancelled_waiter ! 4) = CanceledCtx \<and> waitCh (grp cancelled_waiter) = Some 0"
  by code_simp


end
