(* ===== verification/PoolDrain.thy ===== *)
theory PoolDrain
  imports PoolConnect
begin

text \<open>
  Draining connections (\<open>closeDrainingConns\<close> of \<open>internal/upstream/pool.go\<close>): each is closed when it is
  idle, when it is found dead after the soft deadline, or at the hard deadline.
\<close>

section \<open>The loop\<close>

text \<open>
  What round \<open>n\<close> of the loop sees: the connection's counters, the time, the probe's error if it is
  probed, recent inbound traffic, and the time after the probe.
\<close>

record look =
  seenConn :: sshConn
  lookNow :: nanos
  lookProbe :: "go_error option"
  lookRecent :: bool
  lookAfter :: nanos

datatype drain_end = DrainedIdle | DrainedHard | DrainedDead

definition drainingConnHardCloseWait :: nanos where
  "drainingConnHardCloseWait = seconds 600"

text \<open>The loop of one connection from round \<open>n\<close>: why it closes it, and in which round.\<close>

partial_function (option) drain_loop ::
  "(nat \<Rightarrow> look) \<Rightarrow> nanos \<Rightarrow> nanos \<Rightarrow> nat \<Rightarrow> nanos \<Rightarrow> (drain_end \<times> nat) option" where
  "drain_loop see timeout hard n soft =
    (let l = see n
     in if isIdle (seenConn l) then Some (DrainedIdle, n)
        else if lookNow l > hard then Some (DrainedHard, n)
        else if lookNow l > soft then
          if lookProbe l \<noteq> None \<and> \<not> lookRecent l then Some (DrainedDead, n)
          else drain_loop see timeout hard (Suc n) (lookAfter l + timeout)
        else drain_loop see timeout hard (Suc n) soft)"

text \<open>
  The connections one after the other; \<open>starts k\<close> is the time at which the loop comes to connection \<open>k\<close>.
\<close>

fun closeDrainingConns ::
  "(nat \<Rightarrow> nanos) \<Rightarrow> (nat \<Rightarrow> nat \<Rightarrow> look) \<Rightarrow> nanos \<Rightarrow> nat list \<Rightarrow> Group
    \<Rightarrow> (drain_end list \<times> Group) option" where
  "closeDrainingConns starts see timeout [] g = Some ([], g)"
| "closeDrainingConns starts see timeout (k # ks) g =
    (case drain_loop (see k) timeout (starts k + drainingConnHardCloseWait) 0 (starts k + timeout) of
       None \<Rightarrow> None
     | Some (e, n) \<Rightarrow>
         (case closeDrainingConns starts see timeout ks (close_sc k g) of
            None \<Rightarrow> None
          | Some (es, g1) \<Rightarrow> Some (e # es, g1)))"

section \<open>It ends, and for a reason\<close>

lemma drain_loop_reaches:
  assumes "\<And>i. lookNow (see i) + seconds 1 \<le> lookNow (see (Suc i))"
  shows "hard < lookNow (see n) + seconds (int k) \<Longrightarrow> \<exists>e m. drain_loop see timeout hard n soft = Some (e, m) \<and> m \<le> n + k"
proof (induction k arbitrary: n soft)
  case 0
  then show ?case by (subst (1) drain_loop.simps) (simp add: Let_def)
next
  case (Suc k)
  have "hard < lookNow (see (Suc n)) + seconds (int k)" using Suc.prems assms [of n] by simp
  from Suc.IH [OF this] have next_round: "\<exists>e m. drain_loop see timeout hard (Suc n) s = Some (e, m) \<and> m \<le> n + Suc k" for s
    by (metis add_Suc add_Suc_right)
  show ?case by (subst (1) drain_loop.simps) (use next_round in \<open>auto simp: Let_def\<close>)
qed

definition justified :: "(nat \<Rightarrow> look) \<Rightarrow> nanos \<Rightarrow> drain_end \<times> nat \<Rightarrow> bool" where
  "justified see hard r \<longleftrightarrow> (case fst r of
      DrainedIdle \<Rightarrow> isIdle (seenConn (see (snd r)))
    | DrainedHard \<Rightarrow> hard < lookNow (see (snd r))
    | DrainedDead \<Rightarrow> lookProbe (see (snd r)) \<noteq> None \<and> \<not> lookRecent (see (snd r)))"

lemma drain_loop_reason: "drain_loop see timeout hard n soft = Some r \<Longrightarrow> justified see hard r"
  by (rule drain_loop.raw_induct [of "\<lambda>see timeout hard n soft r. justified see hard r"])
    (auto simp: Let_def justified_def split: if_splits)

text \<open>A clock that starts with the loop and moves by the second it sleeps in every round.\<close>

definition ticking :: "nanos \<Rightarrow> (nat \<Rightarrow> look) \<Rightarrow> bool" where
  "ticking start see \<longleftrightarrow> start \<le> lookNow (see 0) \<and> (\<forall>i. lookNow (see i) + seconds 1 \<le> lookNow (see (Suc i)))"

lemma drain_one:
  assumes "ticking start see"
  obtains e n where "drain_loop see timeout (start + drainingConnHardCloseWait) 0 (start + timeout) = Some (e, n)"
    "n \<le> 601" "justified see (start + drainingConnHardCloseWait) (e, n)"
proof -
  let ?hard = "start + drainingConnHardCloseWait"
  have "?hard < lookNow (see 0) + seconds (int 601)" using assms by (simp add: ticking_def drainingConnHardCloseWait_def)
  then obtain e n where "drain_loop see timeout ?hard 0 (start + timeout) = Some (e, n)" "n \<le> 601"
    using drain_loop_reaches [of see ?hard 0 601 timeout "start + timeout"] assms by (auto simp: ticking_def)
  then show ?thesis using drain_loop_reason that by blast
qed

lemma close_sc_stays: "\<not> scOpen (sc g j) \<Longrightarrow> \<not> scOpen (sc (close_sc k g) j)"
  by (simp add: close_sc_def upd_sc_def)

lemma draining_keeps_closed:
  "\<lbrakk>closeDrainingConns starts see timeout ks g = Some (es, g1); \<not> scOpen (sc g j)\<rbrakk> \<Longrightarrow> \<not> scOpen (sc g1 j)"
proof (induction ks arbitrary: g es)
  case (Cons k ks)
  then obtain es' where "closeDrainingConns starts see timeout ks (close_sc k g) = Some (es', g1)"
    by (auto split: option.splits)
  then show ?case using Cons.IH close_sc_stays [OF Cons.prems(2)] by blast
qed simp

text \<open>
  Draining always ends and closes every connection, within 601 rounds each: because it was idle, because
  ten minutes had passed, or because its probe failed and nothing had arrived.
\<close>

lemma draining_ends:
  assumes "\<forall>k \<in> set ks. ticking (starts k) (see k)"
  shows "\<exists>es g1. closeDrainingConns starts see timeout ks g = Some (es, g1) \<and> (\<forall>k \<in> set ks. \<not> scOpen (sc g1 k))
    \<and> list_all2 (\<lambda>k e. \<exists>n \<le> 601. justified (see k) (starts k + drainingConnHardCloseWait) (e, n)) ks es"
  using assms
proof (induction ks arbitrary: g)
  case (Cons k ks)
  have "ticking (starts k) (see k)" using Cons.prems by simp
  then obtain e n where one: "drain_loop (see k) timeout (starts k + drainingConnHardCloseWait) 0 (starts k + timeout) = Some (e, n)"
    "n \<le> 601" "justified (see k) (starts k + drainingConnHardCloseWait) (e, n)"
    by (rule drain_one)
  obtain es g1 where rest: "closeDrainingConns starts see timeout ks (close_sc k g) = Some (es, g1)"
    "\<forall>k \<in> set ks. \<not> scOpen (sc g1 k)"
    "list_all2 (\<lambda>k e. \<exists>n \<le> 601. justified (see k) (starts k + drainingConnHardCloseWait) (e, n)) ks es"
    using Cons.IH [of "close_sc k g"] Cons.prems by auto
  have "\<not> scOpen (sc g1 k)" by (rule draining_keeps_closed [OF rest(1)]) (simp add: close_sc_def upd_sc_def)
  then show ?case using one rest by auto
qed simp

end
