(* ===== verification/Retry.thy ===== *)
theory Retry
  imports Prelude Complex_Main
begin

text \<open>
  The retry loop (\<open>internal/retry/retry.go\<close>).  The context, the function and the sleeps are given by
  what they do on attempt \<open>n\<close> (from 0): \<open>before n\<close> is the context's error when the loop looks at it,
  \<open>fn n\<close> what the function returns, \<open>asleep n\<close> the context's error if it ends the sleep that follows.
  The delay is computed over the rationals with the rounding of float64 as a parameter.
\<close>

record ExponentialRetryer =
  InitialDelay :: nanos
  MaxDelay :: nanos
  Multiplier :: rat
  MaxAttempts :: int

definition DefaultRetryer :: ExponentialRetryer where
  "DefaultRetryer = \<lparr>InitialDelay = seconds 1, MaxDelay = seconds 30, Multiplier = 2, MaxAttempts = 10\<rparr>"

section \<open>The delay\<close>

text \<open>
  The arithmetic of float64: \<open>rnd\<close> rounds the exact result of an operation, \<open>pow\<close> is \<open>math.Pow\<close>.  A
  value too large for float64 counts as the rational it stands for, which changes nothing
  here, because it is above the cap either way.
\<close>

record float64 =
  rnd :: "rat \<Rightarrow> rat"
  pow :: "rat \<Rightarrow> int \<Rightarrow> rat"

definition to_duration :: "rat \<Rightarrow> nanos" where
  "to_duration x = (if x < 0 then \<lceil>x\<rceil> else \<lfloor>x\<rfloor>)"

definition cappedDelay :: "float64 \<Rightarrow> ExponentialRetryer \<Rightarrow> int \<Rightarrow> rat" where
  "cappedDelay fl r attempt =
    (let delay = rnd fl (rnd fl (of_int (InitialDelay r)) * pow fl (Multiplier r) (attempt - 1))
     in if delay > rnd fl (of_int (MaxDelay r)) then rnd fl (of_int (MaxDelay r)) else delay)"

text \<open>\<open>u\<close> is what \<open>rng.Float64\<close> returns.\<close>

definition calculateDelay :: "float64 \<Rightarrow> ExponentialRetryer \<Rightarrow> rat \<Rightarrow> int \<Rightarrow> nanos" where
  "calculateDelay fl r u attempt =
    (let delay = cappedDelay fl r attempt;
         jitter = rnd fl (rnd fl (u * delay) * (1 / 4))
     in to_duration (rnd fl (delay + jitter)))"

definition NextDelay :: "float64 \<Rightarrow> ExponentialRetryer \<Rightarrow> rat \<Rightarrow> int \<Rightarrow> nanos" where
  "NextDelay fl r u attempt = calculateDelay fl r u attempt"

text \<open>What is used of float64: rounding is monotone, small integers and powers of two are exact.\<close>

definition float_laws :: "float64 \<Rightarrow> bool" where
  "float_laws fl \<longleftrightarrow> mono (rnd fl) \<and> (\<forall>n. \<bar>n\<bar> \<le> 2 ^ 53 \<longrightarrow> rnd fl (of_int n) = of_int n)
     \<and> (\<forall>n. pow fl 2 (int n) = 2 ^ n)"

lemma rnd_le: "\<lbrakk>float_laws fl; x \<le> of_int n; \<bar>n\<bar> \<le> 2 ^ 53\<rbrakk> \<Longrightarrow> rnd fl x \<le> of_int n"
  unfolding float_laws_def by (metis monoD)

lemma rnd_ge: "\<lbrakk>float_laws fl; of_int n \<le> x; \<bar>n\<bar> \<le> 2 ^ 53\<rbrakk> \<Longrightarrow> of_int n \<le> rnd fl x"
  unfolding float_laws_def by (metis monoD)

text \<open>The capped delay of the default retryer, before the jitter.\<close>

definition base_delay :: "nat \<Rightarrow> nanos" where
  "base_delay k = (if k < 5 then seconds (2 ^ k) else seconds 30)"

lemma default_base:
  assumes "float_laws fl"
  shows "cappedDelay fl DefaultRetryer (int k + 1) = of_int (base_delay k)"
proof -
  have exact: "rnd fl (of_int n) = of_int n" if "\<bar>n\<bar> \<le> 2 ^ 53" for n
    using assms that by (simp add: float_laws_def)
  have p: "rnd fl (of_int (seconds 1)) * pow fl 2 (int k) = of_int (seconds (2 ^ k))"
    using assms exact [of "seconds 1"] by (simp add: float_laws_def)
  show ?thesis
  proof (cases "k < 5")
    case True
    then have "(2 :: int) ^ k \<le> 16" "(2 :: rat) ^ k \<le> 16"
      using power_increasing [of k 4 "2 :: int"] power_increasing [of k 4 "2 :: rat"] by simp_all
    then show ?thesis using True p exact [of "seconds (2 ^ k)"] exact [of "seconds 30"]
      by (simp add: cappedDelay_def DefaultRetryer_def base_delay_def)
  next
    case False
    then have "seconds 32 \<le> seconds (2 ^ k)" using power_increasing [of 5 k "2 :: int"] by simp
    then have "of_int (seconds 32) \<le> rnd fl (of_int (seconds (2 ^ k)))"
      by (intro rnd_ge [OF assms]) (simp_all only: of_int_le_iff, simp)
    then show ?thesis using False p exact [of "seconds 30"]
      by (simp add: cappedDelay_def DefaultRetryer_def base_delay_def)
  qed
qed

text \<open>The delay before a retry lies between the capped power of two and a quarter more.\<close>

lemma default_delay_bounds:
  assumes fl: "float_laws fl" and u: "0 \<le> u" "u \<le> 1"
  shows "base_delay k \<le> NextDelay fl DefaultRetryer u (int k + 1)
    \<and> NextDelay fl DefaultRetryer u (int k + 1) \<le> base_delay k + base_delay k div 4"
proof -
  let ?d = "base_delay k"
  obtain q where q: "?d = 4 * q" "0 < q" "q \<le> 7500000000"
  proof (cases "k < 5")
    case True
    then have "(2 :: int) ^ k \<le> 16" using power_increasing [of k 4 "2 :: int"] by simp
    then show ?thesis using True that [of "250000000 * 2 ^ k"] by (simp add: base_delay_def)
  qed (use that [of 7500000000] in \<open>simp add: base_delay_def\<close>)
  define j where "j = rnd fl (rnd fl (u * of_int ?d) * (1 / 4))"
  have "u * of_int ?d \<le> of_int ?d" using u q mult_left_le_one_le [of "of_int ?d :: rat" u] by simp
  then have 1: "rnd fl (u * of_int ?d) \<le> of_int ?d" using q by (intro rnd_le [OF fl]) auto
  have 2: "0 \<le> rnd fl (u * of_int ?d)" using rnd_ge [OF fl, of 0 "u * of_int ?d"] u q by simp
  have "j \<le> of_int q" unfolding j_def using 1 q by (intro rnd_le [OF fl]) auto
  moreover have "0 \<le> j" unfolding j_def using rnd_ge [OF fl, of 0] 2 by simp
  ultimately have sum: "of_int ?d + j \<le> of_int (?d + q)" "of_int ?d \<le> of_int ?d + j" by simp_all
  have "rnd fl (of_int ?d + j) \<le> of_int (?d + q)" using q by (intro rnd_le [OF fl sum(1)]) simp
  moreover have "of_int ?d \<le> rnd fl (of_int ?d + j)" using q by (intro rnd_ge [OF fl sum(2)]) simp
  moreover have "calculateDelay fl DefaultRetryer u (int k + 1) = to_duration (rnd fl (of_int ?d + j))"
    using default_base [OF fl, of k] by (simp add: calculateDelay_def j_def Let_def)
  ultimately show ?thesis using q by (auto simp: NextDelay_def to_duration_def le_floor_iff floor_le_iff)
qed

text \<open>Exact arithmetic obeys the laws.\<close>

lemma exact_float_laws: "float_laws \<lparr>rnd = (\<lambda>x. x), pow = (\<lambda>b n. b ^ nat n)\<rparr>"
  by (simp add: float_laws_def mono_def)

section \<open>The loop\<close>

record retry_world =
  before :: "nat \<Rightarrow> go_error option"
  fn :: "nat \<Rightarrow> go_error option"
  asleep :: "nat \<Rightarrow> go_error option"

text \<open>
  The loop from the state in which the function has been called \<open>attempt\<close> times: the returned error
  and the number of calls.  \<open>None\<close> is a loop that never returns.
\<close>

partial_function (option) run_loop ::
  "ExponentialRetryer \<Rightarrow> retry_world \<Rightarrow> nat \<Rightarrow> (go_error option \<times> nat) option" where
  "run_loop r w attempt =
    (case before w attempt of
       Some e \<Rightarrow> Some (Some e, attempt)
     | None \<Rightarrow>
         (case fn w attempt of
            None \<Rightarrow> Some (None, Suc attempt)
          | Some lastErr \<Rightarrow>
              if MaxAttempts r > 0 \<and> int (Suc attempt) \<ge> MaxAttempts r then Some (Some lastErr, Suc attempt)
              else (case asleep w attempt of
                      Some e \<Rightarrow> Some (Some e, Suc attempt)
                    | None \<Rightarrow> run_loop r w (Suc attempt))))"

definition RunContext :: "ExponentialRetryer \<Rightarrow> retry_world \<Rightarrow> (go_error option \<times> nat) option" where
  "RunContext r w = run_loop r w 0"

definition Run :: "ExponentialRetryer \<Rightarrow> (nat \<Rightarrow> go_error option) \<Rightarrow> (go_error option \<times> nat) option" where
  "Run r f = RunContext r \<lparr>before = \<lambda>_. None, fn = f, asleep = \<lambda>_. None\<rparr>"

section \<open>The loop ends\<close>

text \<open>One turn of the loop decides, or every event of it was a failure and a full sleep.\<close>

definition goes_on :: "ExponentialRetryer \<Rightarrow> retry_world \<Rightarrow> nat \<Rightarrow> bool" where
  "goes_on r w n \<longleftrightarrow> before w n = None \<and> fn w n \<noteq> None \<and> asleep w n = None
     \<and> \<not> (MaxAttempts r > 0 \<and> int (Suc n) \<ge> MaxAttempts r)"

lemma run_loop_goes_on: "goes_on r w n \<Longrightarrow> run_loop r w n = run_loop r w (Suc n)"
  by (subst run_loop.simps) (auto simp: goes_on_def split: option.splits)

lemma run_loop_skip: "\<lbrakk>\<forall>i < k. goes_on r w (n + i)\<rbrakk> \<Longrightarrow> run_loop r w n = run_loop r w (n + k)"
proof (induction k)
  case (Suc k)
  then have "run_loop r w n = run_loop r w (n + k)" "goes_on r w (n + k)" by auto
  then show ?case using run_loop_goes_on by simp
qed simp

text \<open>The end of the first turn that does not go on.\<close>

definition turn_end :: "ExponentialRetryer \<Rightarrow> retry_world \<Rightarrow> nat \<Rightarrow> go_error option \<times> nat" where
  "turn_end r w n =
    (if before w n \<noteq> None then (before w n, n)
     else if fn w n = None then (None, Suc n)
     else if MaxAttempts r > 0 \<and> int (Suc n) \<ge> MaxAttempts r then (fn w n, Suc n)
     else (asleep w n, Suc n))"

lemma run_loop_ends: "\<not> goes_on r w n \<Longrightarrow> run_loop r w n = Some (turn_end r w n)"
  by (subst run_loop.simps) (auto simp: goes_on_def turn_end_def split: option.splits)

lemma RunContext_ends:
  assumes "\<not> goes_on r w n" "\<forall>i < n. goes_on r w i"
  shows "RunContext r w = Some (turn_end r w n)"
  using run_loop_skip [of n r w 0] assms run_loop_ends by (simp add: RunContext_def)

lemma first_stop:
  assumes "MaxAttempts r > 0"
  obtains n where "\<not> goes_on r w n" "\<forall>i < n. goes_on r w i" "int n < MaxAttempts r"
proof -
  let ?n = "LEAST n. \<not> goes_on r w n"
  have last: "\<not> goes_on r w (nat (MaxAttempts r) - 1)" using assms by (simp add: goes_on_def)
  show ?thesis
  proof (rule that)
    show "\<not> goes_on r w ?n" by (rule LeastI [where P = "\<lambda>n. \<not> goes_on r w n", OF last])
    show "\<forall>i < ?n. goes_on r w i" using not_less_Least by blast
    have "?n \<le> nat (MaxAttempts r) - 1" by (rule Least_le [where P = "\<lambda>n. \<not> goes_on r w n", OF last])
    then show "int ?n < MaxAttempts r" using assms by linarith
  qed
qed

text \<open>
  With a positive \<open>MaxAttempts\<close> and a context that does not end, \<open>Run\<close> always returns: after at
  most \<open>MaxAttempts\<close> calls, with no error exactly when the last call succeeded (and then it was the
  first to succeed), and otherwise with the error of the last call after exactly \<open>MaxAttempts\<close> calls,
  all of which failed.
\<close>

lemma run_returns:
  assumes "MaxAttempts r > 0"
  shows "\<exists>e n. Run r f = Some (e, n) \<and> 0 < n \<and> int n \<le> MaxAttempts r \<and> e = f (n - 1)
    \<and> (\<forall>i < n - 1. f i \<noteq> None) \<and> (e \<noteq> None \<longrightarrow> int n = MaxAttempts r)"
proof -
  let ?w = "\<lparr>before = \<lambda>_. None, fn = f, asleep = \<lambda>_. None\<rparr>"
  obtain n where n: "\<not> goes_on r ?w n" "\<forall>i < n. goes_on r ?w i" "int n < MaxAttempts r"
    using first_stop [OF assms] by metis
  have "Run r f = Some (turn_end r ?w n)" unfolding Run_def by (rule RunContext_ends [OF n(1, 2)])
  moreover have "turn_end r ?w n = (f n, Suc n)" using n(1) by (auto simp: turn_end_def goes_on_def)
  moreover have "\<forall>i < n. f i \<noteq> None" using n(2) by (simp add: goes_on_def)
  moreover have "f n \<noteq> None \<longrightarrow> int (Suc n) = MaxAttempts r" using n(1, 3) by (auto simp: goes_on_def)
  ultimately show ?thesis using n(3) by (intro exI [of _ "f n"] exI [of _ "Suc n"]) simp
qed

theorem run_returns_witness:
  "\<exists>e n. Run DefaultRetryer (\<lambda>i. if i < 3 then Some TimeoutError else None) = Some (e, n) \<and> 0 < n
    \<and> int n \<le> MaxAttempts DefaultRetryer \<and> e = (if n - 1 < 3 then Some TimeoutError else None)
    \<and> (\<forall>i < n - 1. (if i < 3 then Some TimeoutError else None) \<noteq> None)
    \<and> (e \<noteq> None \<longrightarrow> int n = MaxAttempts DefaultRetryer)"
  by (rule run_returns) (simp add: DefaultRetryer_def)

end
